(* ===== verification/Prelude.thy ===== *)
theory Prelude
  imports Main "HOL-Library.Word" "HOL-Library.AList"
begin

text \<open>
  What every component of the development shares: the exceptions of the program as values,
  the combinators for stateful operations that may raise, bytes and big-endian integers (the
  \<^verbatim>\<open>struct\<close> formats of the storage), and generic lemmas on lists and association lists.
\<close>

section \<open>Exceptions as values\<close>

text \<open>
  One constructor per exception class the package raises or catches. The message texts of the
  exceptions are not modelled: no branch of the program reads them.
\<close>

datatype py_error =
    ProtocolError
  | OutboxError
  | ConfigError
  | FastQueueFullError
  | ValueError
  | TypeError
  | RuntimeError
  | OSError
  | OverflowError
  | JSONDecodeError
  | UnicodeError
  | RecursionError

text \<open>
  A stateful operation takes the state and returns a result and the state it leaves behind. An
  exception does not roll the state back: \<open>Inl e\<close> comes with the state at the raise.
\<close>

type_synonym ('s, 'a) proc = "'s \<Rightarrow> (py_error + 'a) \<times> 's"

definition ret :: "'a \<Rightarrow> ('s, 'a) proc" where
  "ret x s = (Inr x, s)"

definition throw :: "py_error \<Rightarrow> ('s, 'a) proc" where
  "throw e s = (Inl e, s)"

definition andThen :: "('s, 'a) proc \<Rightarrow> ('a \<Rightarrow> ('s, 'b) proc) \<Rightarrow> ('s, 'b) proc" where
  "andThen m f s = (case m s of (Inl e, s') \<Rightarrow> (Inl e, s') | (Inr x, s') \<Rightarrow> f x s')"

definition bindE :: "'e + 'a \<Rightarrow> ('a \<Rightarrow> 'e + 'b) \<Rightarrow> 'e + 'b" where
  "bindE r f = (case r of Inl e \<Rightarrow> Inl e | Inr x \<Rightarrow> f x)"

definition lift_pure :: "py_error + 'a \<Rightarrow> ('s, 'a) proc" where
  "lift_pure r s = (r, s)"

definition raised :: "'e + 'a \<Rightarrow> bool" where
  "raised r = (case r of Inl _ \<Rightarrow> True | Inr _ \<Rightarrow> False)"

named_theorems proc_simps \<open>unfolding rules for stateful operations\<close>

lemma ret_apply [proc_simps, simp]: "ret x s = (Inr x, s)"
  by (simp add: ret_def)

lemma throw_apply [proc_simps, simp]: "throw e s = (Inl e, s)"
  by (simp add: throw_def)

lemma lift_pure_apply [proc_simps, simp]: "lift_pure r s = (r, s)"
  by (simp add: lift_pure_def)

lemma bindE_simps [simp]: "bindE (Inl e) f = Inl e" "bindE (Inr x) f = f x"
  by (simp_all add: bindE_def)

lemma raised_simps [simp]: "raised (Inl e)" "\<not> raised (Inr x)"
  by (simp_all add: raised_def)

lemma bindE_Inr: "bindE r f = Inr y \<longleftrightarrow> (\<exists>x. r = Inr x \<and> f x = Inr y)"
  by (cases r) auto

lemma andThen_Inl: "m s = (Inl e, s') \<Longrightarrow> andThen m f s = (Inl e, s')"
  by (simp add: andThen_def)

lemma andThen_Inr: "m s = (Inr x, s') \<Longrightarrow> andThen m f s = f x s'"
  by (simp add: andThen_def)

lemma andThen_eq_Inr:
  "andThen m f s = (Inr y, t) \<longleftrightarrow> (\<exists>x s'. m s = (Inr x, s') \<and> f x s' = (Inr y, t))"
  by (auto simp: andThen_def split: prod.splits sum.splits)

section \<open>Operations that keep an invariant\<close>

text \<open>
  \<open>keeps I m\<close>: from a state satisfying \<open>I\<close> the operation leaves one satisfying \<open>I\<close>,
  whether it returns or raises. The rules compose.
\<close>

definition keeps :: "('s \<Rightarrow> bool) \<Rightarrow> ('s, 'a) proc \<Rightarrow> bool" where
  "keeps I m \<longleftrightarrow> (\<forall>s. I s \<longrightarrow> I (snd (m s)))"

named_theorems keeps_intros \<open>invariant preservation of stateful operations\<close>

lemma keepsI: "(\<And>s. I s \<Longrightarrow> I (snd (m s))) \<Longrightarrow> keeps I m"
  by (simp add: keeps_def)

lemma keepsD: "keeps I m \<Longrightarrow> I s \<Longrightarrow> m s = (r, t) \<Longrightarrow> I t"
  by (auto simp: keeps_def dest: spec [where x = s])

lemma keeps_ret [keeps_intros]: "keeps I (ret x)"
  and keeps_throw [keeps_intros]: "keeps I (throw e)"
  and keeps_lift_pure [keeps_intros]: "keeps I (lift_pure r)"
  by (simp_all add: keeps_def)

lemma keeps_andThen [keeps_intros]:
  "keeps I m \<Longrightarrow> (\<And>x. keeps I (f x)) \<Longrightarrow> keeps I (andThen m f)"
  by (fastforce simp: keeps_def andThen_def split: prod.splits sum.splits)

section \<open>Bytes and big-endian integers\<close>

type_synonym byte = "8 word"
type_synonym bytes = "byte list"

text \<open>\<open>be_bytes k n\<close> is \<open>n\<close> in \<open>k\<close> big-endian bytes, as \<^verbatim>\<open>struct.pack(">I", n)\<close> for \<open>k = 4\<close>.\<close>

fun be_bytes :: "nat \<Rightarrow> nat \<Rightarrow> bytes" where
  "be_bytes 0 n = []"
| "be_bytes (Suc k) n = be_bytes k (n div 256) @ [of_nat (n mod 256)]"

definition be_val :: "bytes \<Rightarrow> nat" where
  "be_val bs = foldl (\<lambda>acc b. acc * 256 + unat b) 0 bs"

lemma length_be_bytes [simp]: "length (be_bytes k n) = k"
  by (induction k arbitrary: n) auto

lemma unat_of_nat_byte [simp]: "n < 256 \<Longrightarrow> unat (of_nat n :: byte) = n"
  by (simp add: unat_of_nat take_bit_nat_eq_self_iff)

lemma be_val_Nil [simp]: "be_val [] = 0"
  by (simp add: be_val_def)

lemma be_val_snoc [simp]: "be_val (bs @ [b]) = be_val bs * 256 + unat b"
  by (simp add: be_val_def)

lemma be_val_be_bytes: "be_val (be_bytes k n) = n mod 256 ^ k"
proof (induction k arbitrary: n)
  case 0
  then show ?case by simp
next
  case (Suc k)
  have "be_val (be_bytes (Suc k) n) = (n div 256 mod 256 ^ k) * 256 + n mod 256"
    by (simp add: Suc.IH)
  also have "\<dots> = n mod 256 ^ Suc k"
    by (simp add: mod_mult2_eq mult.commute)
  finally show ?case .
qed

lemma be_val_be_bytes_id [simp]: "n < 256 ^ k \<Longrightarrow> be_val (be_bytes k n) = n"
  by (simp add: be_val_be_bytes)

section \<open>Lists\<close>

lemma take_drop_append:
  "length xs = n \<Longrightarrow> take n (xs @ ys) = xs" "length xs = n \<Longrightarrow> drop n (xs @ ys) = ys"
  by auto

end
