(* ===== verification/PyText.thy ===== *)
theory PyText
  imports Prelude
begin

text \<open>
  Python text and its UTF-8 form. A \<^verbatim>\<open>str\<close> is the list of its code points, surrogates
  included, because Python strings may hold lone surrogates and the program relies on
  \<^verbatim>\<open>str.encode("utf-8")\<close> refusing them. \<open>utf8_encode\<close> and \<open>utf8_decode\<close> are the strict
  codecs of the standard library; the decoder refuses overlong forms, surrogates and values
  above \<^verbatim>\<open>0x10FFFF\<close>.
\<close>

type_synonym pystr = "nat list"

definition ustr :: "string \<Rightarrow> pystr" where
  "ustr s = map of_char s"

definition surrogate :: "nat \<Rightarrow> bool" where
  "surrogate c \<longleftrightarrow> 0xD800 \<le> c \<and> c \<le> 0xDFFF"

definition scalar_value :: "nat \<Rightarrow> bool" where
  "scalar_value c \<longleftrightarrow> c < 0x110000 \<and> \<not> surrogate c"

definition utf8_units :: "nat \<Rightarrow> nat list" where
  "utf8_units c =
     (if c < 0x80 then [c]
      else if c < 0x800 then [0xC0 + c div 64, 0x80 + c mod 64]
      else if c < 0x10000 then [0xE0 + c div 4096, 0x80 + c div 64 mod 64, 0x80 + c mod 64]
      else [0xF0 + c div 262144, 0x80 + c div 4096 mod 64, 0x80 + c div 64 mod 64, 0x80 + c mod 64])"

definition utf8_encode :: "pystr \<Rightarrow> bytes option" where
  "utf8_encode s =
     (if list_all scalar_value s then Some (map of_nat (concat (map utf8_units s))) else None)"

definition cont :: "nat \<Rightarrow> bool" where
  "cont b \<longleftrightarrow> 0x80 \<le> b \<and> b < 0xC0"

definition utf8_next :: "nat \<Rightarrow> nat list \<Rightarrow> (nat \<times> nat list) option" where
  "utf8_next b0 bs =
     (if b0 < 0x80 then Some (b0, bs)
      else if 0xC2 \<le> b0 \<and> b0 < 0xE0 then
        (case bs of
           b1 # r \<Rightarrow> if cont b1 then Some ((b0 - 0xC0) * 64 + (b1 - 0x80), r) else None
         | _ \<Rightarrow> None)
      else if 0xE0 \<le> b0 \<and> b0 < 0xF0 then
        (case bs of
           b1 # b2 # r \<Rightarrow>
             let c = ((b0 - 0xE0) * 64 + (b1 - 0x80)) * 64 + (b2 - 0x80)
             in if cont b1 \<and> cont b2 \<and> 0x800 \<le> c \<and> \<not> surrogate c then Some (c, r) else None
         | _ \<Rightarrow> None)
      else if 0xF0 \<le> b0 \<and> b0 < 0xF5 then
        (case bs of
           b1 # b2 # b3 # r \<Rightarrow>
             let c = (((b0 - 0xF0) * 64 + (b1 - 0x80)) * 64 + (b2 - 0x80)) * 64 + (b3 - 0x80)
             in if cont b1 \<and> cont b2 \<and> cont b3 \<and> 0x10000 \<le> c \<and> c < 0x110000
                then Some (c, r) else None
         | _ \<Rightarrow> None)
      else None)"

lemma utf8_next_shorter: "utf8_next b bs = Some (c, r) \<Longrightarrow> length r \<le> length bs"
  by (auto simp: utf8_next_def Let_def split: if_splits list.splits)

function utf8_points :: "nat list \<Rightarrow> pystr option" where
  "utf8_points [] = Some []"
| "utf8_points (b # bs) =
     (case utf8_next b bs of
        None \<Rightarrow> None
      | Some (c, r) \<Rightarrow> map_option (Cons c) (utf8_points r))"
  by pat_completeness auto
termination
  by (relation "measure length") (auto dest: utf8_next_shorter)

definition utf8_decode :: "bytes \<Rightarrow> pystr option" where
  "utf8_decode bs = utf8_points (map unat bs)"

section \<open>The codec round trip\<close>

lemma utf8_units_byte: "scalar_value c \<Longrightarrow> b \<in> set (utf8_units c) \<Longrightarrow> b < 256"
  by (auto simp: utf8_units_def scalar_value_def split: if_splits)

lemma utf8_units_Cons: "\<exists>b bs. utf8_units c = b # bs"
  by (simp add: utf8_units_def)

lemma div_mod_join: "(c::nat) div 64 * 64 + c mod 64 = c"
  by (rule div_mult_mod_eq)

lemma cont_mod [simp]: "cont (128 + c mod 64)"
  by (simp add: cont_def)

lemma utf8_next_units:
  assumes "scalar_value c" and "utf8_units c = b # bs"
  shows "utf8_next b (bs @ rest) = Some (c, rest)"
proof -
  consider "c < 0x80" | "0x80 \<le> c" "c < 0x800" | "0x800 \<le> c" "c < 0x10000"
    | "0x10000 \<le> c" "c < 0x110000"
    using assms(1) by (force simp: scalar_value_def)
  then show ?thesis
  proof cases
    case 1
    with assms show ?thesis by (auto simp: utf8_units_def utf8_next_def)
  next
    case 2
    then have "2 \<le> c div 64" "c div 64 < 32" by auto
    with 2 assms show ?thesis
      by (auto simp: utf8_units_def utf8_next_def)
  next
    case 3
    then have "c div 4096 < 16" by auto
    moreover have "(c div 4096 * 64 + c div 64 mod 64) * 64 + c mod 64 = c"
      using div_mod_join [of c] div_mod_join [of "c div 64"] by (simp add: div_mult2_eq [symmetric])
    ultimately show ?thesis
      using 3 assms by (auto simp: utf8_units_def utf8_next_def scalar_value_def Let_def)
  next
    case 4
    then have "c div 262144 < 5" by auto
    moreover have "((c div 262144 * 64 + c div 4096 mod 64) * 64 + c div 64 mod 64) * 64 + c mod 64 = c"
      using div_mod_join [of c] div_mod_join [of "c div 64"] div_mod_join [of "c div 4096"]
      by (simp add: div_mult2_eq [symmetric])
    ultimately show ?thesis
      using 4 assms by (auto simp: utf8_units_def utf8_next_def scalar_value_def Let_def)
  qed
qed

lemma utf8_points_units:
  "list_all scalar_value s \<Longrightarrow> utf8_points (concat (map utf8_units s)) = Some s"
proof (induction s)
  case Nil
  then show ?case by simp
next
  case (Cons c s)
  then show ?case
    using utf8_units_Cons [of c] by (auto simp: utf8_next_units)
qed

lemma utf8_decode_encode: "utf8_encode s = Some bs \<Longrightarrow> utf8_decode bs = Some s"
proof -
  assume "utf8_encode s = Some bs"
  then have s: "list_all scalar_value s" and bs: "bs = map of_nat (concat (map utf8_units s))"
    by (auto simp: utf8_encode_def split: if_splits)
  have "unat (of_nat b :: byte) = b" if "b \<in> set (concat (map utf8_units s))" for b
    using that s by (intro unat_of_nat_byte) (auto simp: list_all_iff dest: utf8_units_byte)
  then have "map unat bs = concat (map utf8_units s)"
    unfolding bs map_map o_def by (intro map_idI) blast
  then show ?thesis
    using s by (simp add: utf8_decode_def utf8_points_units)
qed

lemma utf8_encode_scalar: "utf8_encode s \<noteq> None \<longleftrightarrow> list_all scalar_value s"
  by (simp add: utf8_encode_def)

end
