(* ===== verification/Ack.thy ===== *)
theory Ack
  imports PyText
begin

text \<open>
  The correlation of one in-flight DeliveryAck (\<^verbatim>\<open>src/reliomq/ack.py\<close>). Every method of
  \<^verbatim>\<open>AckTracker\<close> is one function on the tracker's four fields. \<^verbatim>\<open>wait\<close> is two atomic steps,
  because the lock is not held while the worker sleeps: the return of \<^verbatim>\<open>Event.wait\<close> and the
  locked epilogue \<open>ack_wait_close\<close>. The step relation \<open>ack_step\<close> interleaves one worker with
  the network callbacks, and the theorems are about every run of it.
\<close>

section \<open>The tracker and its methods\<close>

record ack_tracker =
  ack_event :: bool
  expected_message_id :: "pystr option"
  ack_matched :: bool
  ack_interrupted :: bool

definition ack_init :: ack_tracker where
  "ack_init = \<lparr>ack_event = False, expected_message_id = None, ack_matched = False,
     ack_interrupted = False\<rparr>"

definition ack_begin :: "pystr \<Rightarrow> (ack_tracker, unit) proc" where
  "ack_begin m t =
     (if m = [] then throw ValueError t
      else if expected_message_id t \<noteq> None then throw RuntimeError t
      else ret () (t\<lparr>ack_event := False, expected_message_id := Some m, ack_matched := False,
        ack_interrupted := False\<rparr>))"

definition ack_match :: "pystr \<Rightarrow> ack_tracker \<Rightarrow> bool \<times> ack_tracker" where
  "ack_match m t =
     (let found = expected_message_id t \<noteq> None \<and> \<not> ack_interrupted t
                    \<and> expected_message_id t = Some m
      in (found, if found then t\<lparr>ack_matched := True, ack_event := True\<rparr> else t))"

definition ack_wait_close :: "bool \<Rightarrow> ack_tracker \<Rightarrow> bool \<times> ack_tracker" where
  "ack_wait_close signalled t =
     (let t' = (if \<not> signalled \<and> \<not> ack_matched t then t\<lparr>ack_interrupted := True\<rparr> else t)
      in (ack_matched t' \<and> \<not> ack_interrupted t', t'))"

definition ack_interrupt :: "ack_tracker \<Rightarrow> ack_tracker" where
  "ack_interrupt t = t\<lparr>ack_interrupted := True, ack_event := True\<rparr>"

definition ack_end :: "ack_tracker \<Rightarrow> ack_tracker" where
  "ack_end t = t\<lparr>expected_message_id := None, ack_matched := False, ack_interrupted := False,
     ack_event := False\<rparr>"

lemmas ack_defs = ack_init_def ack_begin_def ack_match_def ack_wait_close_def
  ack_interrupt_def ack_end_def

section \<open>One worker and the network callbacks\<close>

text \<open>
  \<open>Woken sg\<close> is the worker between the return of \<^verbatim>\<open>Event.wait\<close> (with \<open>sg\<close>) and the locked
  epilogue; \<open>Finished r\<close> is the worker after \<^verbatim>\<open>wait\<close> returned \<open>r\<close> and before \<^verbatim>\<open>end\<close>.
\<close>

datatype ack_phase = NoExpectation | Expecting | Woken bool | Finished bool

datatype ack_label =
    LBegin pystr | LMatch pystr bool | LInterrupt | LWake bool | LClose bool | LEnd

record ack_sys =
  tracker :: ack_tracker
  phase :: ack_phase

inductive ack_step :: "ack_sys \<Rightarrow> ack_label \<Rightarrow> ack_sys \<Rightarrow> bool" where
  begin_step: "phase s = NoExpectation \<Longrightarrow> ack_begin m (tracker s) = (Inr (), t) \<Longrightarrow>
    ack_step s (LBegin m) \<lparr>tracker = t, phase = Expecting\<rparr>"
| match_step: "ack_match m (tracker s) = (b, t) \<Longrightarrow>
    ack_step s (LMatch m b) (s\<lparr>tracker := t\<rparr>)"
| interrupt_step: "ack_step s LInterrupt (s\<lparr>tracker := ack_interrupt (tracker s)\<rparr>)"
| wake_step: "phase s = Expecting \<Longrightarrow> sg = ack_event (tracker s) \<Longrightarrow>
    ack_step s (LWake sg) (s\<lparr>phase := Woken sg\<rparr>)"
| close_step: "phase s = Woken sg \<Longrightarrow> ack_wait_close sg (tracker s) = (r, t) \<Longrightarrow>
    ack_step s (LClose r) \<lparr>tracker = t, phase = Finished r\<rparr>"
| end_step: "phase s = Expecting \<or> phase s = Finished r \<Longrightarrow>
    ack_step s LEnd \<lparr>tracker = ack_end (tracker s), phase = NoExpectation\<rparr>"

inductive_cases ack_step_matchE: "ack_step s (LMatch m b) s'"

text \<open>Runs carry their trace, the latest step first.\<close>

inductive ack_run :: "ack_label list \<Rightarrow> ack_sys \<Rightarrow> bool" where
  ack_start: "ack_run [] \<lparr>tracker = ack_init, phase = NoExpectation\<rparr>"
| ack_more: "ack_run tr s \<Longrightarrow> ack_step s l s' \<Longrightarrow> ack_run (l # tr) s'"

text \<open>The expectation in force and the steps since its \<^verbatim>\<open>begin\<close>, read off a trace.\<close>

fun ack_window :: "ack_label list \<Rightarrow> (pystr \<times> ack_label list) option" where
  "ack_window [] = None"
| "ack_window (LBegin m # tr) = Some (m, [])"
| "ack_window (LEnd # tr) = None"
| "ack_window (l # tr) = map_option (\<lambda>(m, ls). (m, l # ls)) (ack_window tr)"

definition ack_inv :: "ack_label list \<Rightarrow> ack_sys \<Rightarrow> bool" where
  "ack_inv tr s \<longleftrightarrow>
     (let t = tracker s in
      (case ack_window tr of
         None \<Rightarrow> expected_message_id t = None \<and> phase s = NoExpectation \<and> \<not> ack_matched t
       | Some (m, ls) \<Rightarrow> expected_message_id t = Some m \<and> phase s \<noteq> NoExpectation
           \<and> (ack_matched t \<longrightarrow> LMatch m True \<in> set ls)
           \<and> (phase s = Finished True \<longrightarrow> ack_matched t)
           \<and> (phase s = Finished False \<longrightarrow> ack_interrupted t)
           \<and> (phase s = Woken True \<longrightarrow> ack_event t)
           \<and> (ack_event t \<longrightarrow> ack_matched t \<or> ack_interrupted t)))"

lemma ack_step_inv: "ack_step s l s' \<Longrightarrow> ack_inv tr s \<Longrightarrow> ack_inv (l # tr) s'"
  by (induction rule: ack_step.induct)
     (auto simp: ack_inv_def ack_defs Let_def split: option.splits if_splits)

lemma ack_run_inv: "ack_run tr s \<Longrightarrow> ack_inv tr s"
proof (induction rule: ack_run.induct)
  case ack_start
  show ?case by (simp add: ack_inv_def ack_init_def)
next
  case (ack_more tr s l s')
  then show ?case by (blast intro: ack_step_inv)
qed

lemma ack_window_shape:
  "ack_window tr = Some (m, ls) \<Longrightarrow>
     (\<exists>older. tr = ls @ LBegin m # older) \<and> LEnd \<notin> set ls \<and> (\<forall>n. LBegin n \<notin> set ls)"
  by (induction tr arbitrary: m ls rule: ack_window.induct) auto

section \<open>Properties\<close>

text \<open>
  C14. The delivery worker's wait reports a DeliveryAck only if the network callback matched one
  for exactly the expectation in force: whatever the interleaving with callbacks, interrupts and
  earlier attempts, a wait that returned True is preceded, after the latest \<^verbatim>\<open>begin(m)\<close> and with
  no \<^verbatim>\<open>end\<close> in between, by a \<^verbatim>\<open>match(m)\<close> that returned True.
\<close>

theorem ack_wait_true_was_matched:
  assumes "ack_run tr s" and "phase s = Finished True"
  shows "\<exists>m ls older. tr = ls @ LBegin m # older \<and> LMatch m True \<in> set ls \<and> LEnd \<notin> set ls
           \<and> (\<forall>n. LBegin n \<notin> set ls)"
proof -
  from assms ack_run_inv [OF assms(1)] obtain m ls
    where w: "ack_window tr = Some (m, ls)" and found: "LMatch m True \<in> set ls"
    by (auto simp: ack_inv_def Let_def split: option.splits)
  from ack_window_shape [OF w] found show ?thesis by blast
qed

lemma ack_run_example:
  "ack_run [LClose True, LWake True, LMatch [97] True, LBegin [97]]
     \<lparr>tracker = \<lparr>ack_event = True, expected_message_id = Some [97], ack_matched = True,
       ack_interrupted = False\<rparr>, phase = Finished True\<rparr>"
  by (rule ack_more [OF ack_more [OF ack_more [OF ack_more [OF ack_start
        ack_step.begin_step] ack_step.match_step] ack_step.wake_step] ack_step.close_step])
     (auto simp: ack_defs Let_def)

theorem ack_wait_true_was_matched_witness:
  "\<exists>m ls older. [LClose True, LWake True, LMatch [97] True, LBegin [97]] = ls @ LBegin m # older
     \<and> LMatch m True \<in> set ls \<and> LEnd \<notin> set ls \<and> (\<forall>n. LBegin n \<notin> set ls)"
  using ack_wait_true_was_matched [OF ack_run_example] by simp

text \<open>
  C29. Late and unmatched DeliveryAcks have no effect: once the wait has returned False, and
  whenever no expectation is active, every \<^verbatim>\<open>match\<close> returns False and leaves the tracker as it
  was, so an acknowledgement that arrives after the timeout is never reported to anyone.
\<close>

theorem ack_late_match_rejected:
  assumes "ack_run tr s" and "phase s = Finished False \<or> phase s = NoExpectation"
    and "ack_step s (LMatch m b) s'"
  shows "\<not> b \<and> s' = s"
proof -
  from ack_run_inv [OF assms(1)] assms(2)
  have "expected_message_id (tracker s) = None \<or> ack_interrupted (tracker s)"
    by (auto simp: ack_inv_def Let_def split: option.splits)
  with assms(3) show ?thesis
    by (auto elim!: ack_step_matchE simp: ack_match_def)
qed

lemma ack_run_timeout_example:
  "ack_run [LClose False, LWake False, LBegin [97]]
     \<lparr>tracker = \<lparr>ack_event = False, expected_message_id = Some [97], ack_matched = False,
       ack_interrupted = True\<rparr>, phase = Finished False\<rparr>"
  by (rule ack_more [OF ack_more [OF ack_more [OF ack_start
        ack_step.begin_step] ack_step.wake_step] ack_step.close_step])
     (auto simp: ack_defs Let_def)

theorem ack_late_match_rejected_witness:
  "\<not> fst (ack_match [97] \<lparr>ack_event = False, expected_message_id = Some [97], ack_matched = False,
     ack_interrupted = True\<rparr>)"
proof -
  have "ack_step \<lparr>tracker = \<lparr>ack_event = False, expected_message_id = Some [97],
      ack_matched = False, ack_interrupted = True\<rparr>, phase = Finished False\<rparr>
    (LMatch [97] (fst (ack_match [97] \<lparr>ack_event = False, expected_message_id = Some [97],
      ack_matched = False, ack_interrupted = True\<rparr>)))
    (\<lparr>tracker = \<lparr>ack_event = False, expected_message_id = Some [97],
      ack_matched = False, ack_interrupted = True\<rparr>, phase = Finished False\<rparr>
      \<lparr>tracker := snd (ack_match [97] \<lparr>ack_event = False, expected_message_id = Some [97],
      ack_matched = False, ack_interrupted = True\<rparr>)\<rparr>)"
    by (rule match_step) simp
  from ack_late_match_rejected [OF ack_run_timeout_example _ this] show ?thesis by simp
qed

end
