(* ===== verification/Json.thy ===== *)
theory Json
  imports PyText "HOL-Library.List_Lexorder"
begin

text \<open>
  The values the wire protocol carries and the parts of Python's \<^verbatim>\<open>json\<close> module the program
  uses: \<^verbatim>\<open>json.dumps(..., allow_nan=False, ensure_ascii=False, separators=(",", ":"),
  sort_keys=True)\<close> and \<^verbatim>\<open>json.loads\<close> with an object hook and a constant hook. The parser is
  the grammar of CPython's scanner, error cases included. \<open>loads_dumps\<close> (theory JsonRoundTrip) shows that loading
  the printed form of a value gives back its canonical form (dictionaries in key order).
\<close>

unbundle bit_operations_syntax

section \<open>Python values\<close>

text \<open>
  A float is its IEEE 754 bit pattern. A dictionary is its items in insertion order; only
  string keys are distinguished from the others. \<open>POther\<close> is every object of a type the JSON
  encoder refuses. Values are trees: the identity of containers, which the code inspects to
  report cycles, has no counterpart, and a cyclic value does not exist in the model.
\<close>

type_synonym float64 = "64 word"

datatype pykey = KStr pystr | KOther

datatype pyval =
    PNone
  | PBool bool
  | PInt int
  | PFloat float64
  | PStr pystr
  | PList "pyval list"
  | PDict "(pykey \<times> pyval) list"
  | POther

definition float_isfinite :: "float64 \<Rightarrow> bool" where
  "float_isfinite w \<longleftrightarrow> drop_bit 52 w AND 0x7FF \<noteq> 0x7FF"

text \<open>Every finite double is a whole number of units of 2 to the power -1074.\<close>

definition float_units :: "float64 \<Rightarrow> int" where
  "float_units w =
     (let e = unat (drop_bit 52 w AND 0x7FF); m = unat (w AND 0xFFFFFFFFFFFFF);
          u = int (if e = 0 then m else (2 ^ 52 + m) * 2 ^ (e - 1))
      in if bit w 63 then - u else u)"

definition float_isnan :: "float64 \<Rightarrow> bool" where
  "float_isnan w \<longleftrightarrow> \<not> float_isfinite w \<and> w AND 0xFFFFFFFFFFFFF \<noteq> 0"

text \<open>
  \<^verbatim>\<open>==\<close> of Python values: numbers of different types are compared by value, a NaN is equal to
  nothing, containers are compared as trees.
\<close>

definition num_units :: "pyval \<Rightarrow> int option" where
  "num_units v =
     (case v of
        PBool b \<Rightarrow> Some (if b then 2 ^ 1074 else 0)
      | PInt i \<Rightarrow> Some (i * 2 ^ 1074)
      | PFloat w \<Rightarrow> if float_isfinite w then Some (float_units w) else None
      | _ \<Rightarrow> None)"

definition py_eq :: "pyval \<Rightarrow> pyval \<Rightarrow> bool" where
  "py_eq a b =
     (case (num_units a, num_units b) of
        (Some x, Some y) \<Rightarrow> x = y
      | (None, None) \<Rightarrow> a = b \<and> (case a of PFloat w \<Rightarrow> \<not> float_isnan w | _ \<Rightarrow> True)
      | _ \<Rightarrow> False)"

text \<open>
  The interpreter's environment: the conversions between floats and their text, which CPython
  delegates to its C library, and the nesting at which each of the three traversals of a value
  runs into the recursion limit.
\<close>

record python =
  float_repr :: "float64 \<Rightarrow> pystr"
  float_parse :: "pystr \<Rightarrow> float64"
  validate_depth :: nat
  dumps_depth :: nat
  loads_depth :: nat

section \<open>Printing\<close>

fun nat_digits :: "nat \<Rightarrow> pystr" where
  "nat_digits n = (if n < 10 then [48 + n] else nat_digits (n div 10) @ [48 + n mod 10])"

declare nat_digits.simps [simp del]

text \<open>\<^verbatim>\<open>sys.get_int_max_str_digits()\<close>: longer conversions raise \<^verbatim>\<open>ValueError\<close>.\<close>

definition max_str_digits :: nat where
  "max_str_digits = 4300"

definition int_repr :: "int \<Rightarrow> py_error + pystr" where
  "int_repr i =
     (let ds = nat_digits (nat \<bar>i\<bar>)
      in if length ds > max_str_digits then Inl ValueError
         else Inr (if i < 0 then 45 # ds else ds))"

definition hex_digit :: "nat \<Rightarrow> nat" where
  "hex_digit d = (if d < 10 then 48 + d else 87 + d)"

definition escape_char :: "nat \<Rightarrow> pystr" where
  "escape_char c =
     (if c = 34 then [92, 34]
      else if c = 92 then [92, 92]
      else if c = 10 then [92, 110]
      else if c = 13 then [92, 114]
      else if c = 9 then [92, 116]
      else if c = 12 then [92, 102]
      else if c = 8 then [92, 98]
      else if c < 32 then [92, 117, 48, 48, hex_digit (c div 16), hex_digit (c mod 16)]
      else [c])"

definition dumps_str :: "pystr \<Rightarrow> pystr" where
  "dumps_str s = 34 # concat (map escape_char s) @ [34]"

fun join_comma :: "pystr list \<Rightarrow> pystr" where
  "join_comma [] = []"
| "join_comma [x] = x"
| "join_comma (x # xs) = x @ 44 # join_comma xs"

text \<open>
  The items of a dictionary are printed in the order of their keys. The program passes only
  dictionaries with string keys to \<^verbatim>\<open>dumps\<close>; another key is a \<^verbatim>\<open>TypeError\<close> here.
\<close>

fun dumps_val :: "python \<Rightarrow> nat \<Rightarrow> pyval \<Rightarrow> py_error + pystr"
  and dumps_list :: "python \<Rightarrow> nat \<Rightarrow> pyval list \<Rightarrow> py_error + pystr list"
  and dumps_items :: "python \<Rightarrow> nat \<Rightarrow> (pykey \<times> pyval) list \<Rightarrow> py_error + (pystr \<times> pystr) list"
where
  "dumps_val py n PNone = Inr (ustr ''null'')"
| "dumps_val py n (PBool b) = Inr (if b then ustr ''true'' else ustr ''false'')"
| "dumps_val py n (PInt i) = int_repr i"
| "dumps_val py n (PFloat w) =
     (if float_isfinite w then Inr (float_repr py w) else Inl ValueError)"
| "dumps_val py n (PStr s) = Inr (dumps_str s)"
| "dumps_val py n (PList xs) =
     (case n of 0 \<Rightarrow> Inl RecursionError
      | Suc m \<Rightarrow> bindE (dumps_list py m xs) (\<lambda>ts. Inr (91 # join_comma ts @ [93])))"
| "dumps_val py n (PDict kvs) =
     (case n of 0 \<Rightarrow> Inl RecursionError
      | Suc m \<Rightarrow> bindE (dumps_items py m kvs)
          (\<lambda>its. Inr (123 # join_comma (map snd (sort_key fst its)) @ [125])))"
| "dumps_val py n POther = Inl TypeError"
| "dumps_list py n [] = Inr []"
| "dumps_list py n (x # xs) =
     bindE (dumps_val py n x) (\<lambda>t. bindE (dumps_list py n xs) (\<lambda>ts. Inr (t # ts)))"
| "dumps_items py n [] = Inr []"
| "dumps_items py n ((k, x) # r) =
     (case k of KOther \<Rightarrow> Inl TypeError
      | KStr s \<Rightarrow> bindE (dumps_val py n x) (\<lambda>t.
          bindE (dumps_items py n r) (\<lambda>its. Inr ((s, dumps_str s @ 58 # t) # its))))"

definition dumps :: "python \<Rightarrow> pyval \<Rightarrow> py_error + pystr" where
  "dumps py v = dumps_val py (dumps_depth py) v"

section \<open>Scanning strings and numbers\<close>

definition skip_ws :: "pystr \<Rightarrow> pystr" where
  "skip_ws s = dropWhile (\<lambda>c. c = 32 \<or> c = 9 \<or> c = 10 \<or> c = 13) s"

definition is_digit :: "nat \<Rightarrow> bool" where
  "is_digit c \<longleftrightarrow> 48 \<le> c \<and> c \<le> 57"

definition hex_value :: "nat \<Rightarrow> nat option" where
  "hex_value c =
     (if is_digit c then Some (c - 48)
      else if 97 \<le> c \<and> c \<le> 102 then Some (c - 87)
      else if 65 \<le> c \<and> c \<le> 70 then Some (c - 55)
      else None)"

definition hex4 :: "pystr \<Rightarrow> (nat \<times> pystr) option" where
  "hex4 s =
     (case s of
        a # b # c # d # r \<Rightarrow>
          (case (hex_value a, hex_value b, hex_value c, hex_value d) of
             (Some w, Some x, Some y, Some z) \<Rightarrow> Some (((w * 16 + x) * 16 + y) * 16 + z, r)
           | _ \<Rightarrow> None)
      | _ \<Rightarrow> None)"

definition simple_escape :: "nat \<Rightarrow> nat option" where
  "simple_escape c =
     (if c = 34 then Some 34 else if c = 92 then Some 92 else if c = 47 then Some 47
      else if c = 98 then Some 8 else if c = 102 then Some 12 else if c = 110 then Some 10
      else if c = 114 then Some 13 else if c = 116 then Some 9 else None)"

text \<open>
  A \<^verbatim>\<open>\\uXXXX\<close> escape, given the text after the \<^verbatim>\<open>u\<close>: a high surrogate directly followed by the
  escape of a low one is joined with it.
\<close>

definition unicode_escape :: "pystr \<Rightarrow> (nat \<times> pystr) option" where
  "unicode_escape s =
     (case hex4 s of None \<Rightarrow> None
      | Some (h, r) \<Rightarrow>
          if 0xD800 \<le> h \<and> h \<le> 0xDBFF then
            (case r of
               a # b # r' \<Rightarrow>
                 if a = 92 \<and> b = 117 then
                   (case hex4 r' of
                      Some (l, r2) \<Rightarrow>
                        if 0xDC00 \<le> l \<and> l \<le> 0xDFFF
                        then Some (0x10000 + (h - 0xD800) * 1024 + (l - 0xDC00), r2)
                        else Some (h, r)
                    | None \<Rightarrow> Some (h, r))
                 else Some (h, r)
             | _ \<Rightarrow> Some (h, r))
          else Some (h, r))"

lemma hex4_shorter: "hex4 s = Some (c, r) \<Longrightarrow> length r < length s"
  by (auto simp: hex4_def split: list.splits option.splits)

lemma unicode_escape_shorter: "unicode_escape s = Some (c, r) \<Longrightarrow> length r < length s"
  by (auto simp: unicode_escape_def split: option.splits if_splits list.splits dest!: hex4_shorter)

text \<open>The text after the opening quote: the string's characters and what follows the closing quote.\<close>

function scan_str :: "pystr \<Rightarrow> py_error + (pystr \<times> pystr)" where
  "scan_str [] = Inl JSONDecodeError"
| "scan_str (c # s) =
     (if c = 34 then Inr ([], s)
      else if c = 92 then
        (case s of
           [] \<Rightarrow> Inl JSONDecodeError
         | d # r \<Rightarrow>
             if d = 117 then
               (case unicode_escape r of
                  None \<Rightarrow> Inl JSONDecodeError
                | Some (x, r') \<Rightarrow> bindE (scan_str r') (\<lambda>(cs, q). Inr (x # cs, q)))
             else
               (case simple_escape d of
                  None \<Rightarrow> Inl JSONDecodeError
                | Some x \<Rightarrow> bindE (scan_str r) (\<lambda>(cs, q). Inr (x # cs, q))))
      else if c < 32 then Inl JSONDecodeError
      else bindE (scan_str s) (\<lambda>(cs, q). Inr (c # cs, q)))"
  by pat_completeness auto
termination
  by (relation "measure length") (auto dest: unicode_escape_shorter)

declare scan_str.simps(2) [simp del]

fun digits_val :: "nat \<Rightarrow> pystr \<Rightarrow> nat" where
  "digits_val acc [] = acc"
| "digits_val acc (d # ds) = digits_val (acc * 10 + (d - 48)) ds"

definition scan_frac :: "pystr \<Rightarrow> pystr \<times> pystr" where
  "scan_frac s =
     (case s of
        c # d # r \<Rightarrow>
          if c = 46 \<and> is_digit d
          then (c # takeWhile is_digit (d # r), dropWhile is_digit (d # r)) else ([], s)
      | _ \<Rightarrow> ([], s))"

definition scan_exp :: "pystr \<Rightarrow> pystr \<times> pystr" where
  "scan_exp s =
     (case s of
        c # r \<Rightarrow>
          if c = 101 \<or> c = 69 then
            (let (sg, r1) = (case r of d # r' \<Rightarrow> if d = 43 \<or> d = 45 then ([d], r') else ([], r)
                             | [] \<Rightarrow> ([], r))
             in if takeWhile is_digit r1 = [] then ([], s)
                else (c # sg @ takeWhile is_digit r1, dropWhile is_digit r1))
          else ([], s)
      | [] \<Rightarrow> ([], s))"

definition scan_int :: "pystr \<Rightarrow> (pystr \<times> pystr) option" where
  "scan_int s =
     (case s of
        c # r \<Rightarrow>
          if c = 48 then Some ([c], r)
          else if is_digit c then Some (takeWhile is_digit s, dropWhile is_digit s)
          else None
      | [] \<Rightarrow> None)"

text \<open>A number literal; \<^verbatim>\<open>int()\<close> of more than 4300 digits raises a plain \<^verbatim>\<open>ValueError\<close>.\<close>

definition scan_number :: "python \<Rightarrow> pystr \<Rightarrow> py_error + (pyval \<times> pystr)" where
  "scan_number py s =
     (let (sg, s1) = (case s of c # r \<Rightarrow> if c = 45 then ([c], r) else ([], s) | [] \<Rightarrow> ([], s))
      in case scan_int s1 of
           None \<Rightarrow> Inl JSONDecodeError
         | Some (ip, s2) \<Rightarrow>
             let (fp, s3) = scan_frac s2; (ep, s4) = scan_exp s3
             in if fp = [] \<and> ep = [] then
                  (if length ip > max_str_digits then Inl ValueError
                   else let n = int (digits_val 0 ip)
                        in Inr (PInt (if sg = [] then n else - n), s4))
                else Inr (PFloat (float_parse py (sg @ ip @ fp @ ep)), s4))"

section \<open>Parsing\<close>

text \<open>
  \<^verbatim>\<open>object_pairs_hook\<close> receives the pairs of an object, \<^verbatim>\<open>parse_constant\<close> the name of a
  non-standard number. The comparisons of lengths are for termination only: skipping white
  space and scanning a token never lengthen the text, so their failing branch is never taken.
\<close>

record json_hooks =
  object_pairs_hook :: "(pystr \<times> pyval) list \<Rightarrow> py_error + pyval"
  parse_constant :: "pystr \<Rightarrow> py_error + pyval"

definition starts :: "pystr \<Rightarrow> pystr \<Rightarrow> bool" where
  "starts p s \<longleftrightarrow> take (length p) s = p"

definition parse_scalar :: "python \<Rightarrow> json_hooks \<Rightarrow> pystr \<Rightarrow> py_error + (pyval \<times> pystr)" where
  "parse_scalar py h s =
     (if starts (ustr ''null'') s then Inr (PNone, drop 4 s)
      else if starts (ustr ''true'') s then Inr (PBool True, drop 4 s)
      else if starts (ustr ''false'') s then Inr (PBool False, drop 5 s)
      else if starts (ustr ''NaN'') s then
        bindE (parse_constant h (ustr ''NaN'')) (\<lambda>v. Inr (v, drop 3 s))
      else if starts (ustr ''Infinity'') s then
        bindE (parse_constant h (ustr ''Infinity'')) (\<lambda>v. Inr (v, drop 8 s))
      else if starts (ustr ''-Infinity'') s then
        bindE (parse_constant h (ustr ''-Infinity'')) (\<lambda>v. Inr (v, drop 9 s))
      else scan_number py s)"

function parse_value :: "python \<Rightarrow> json_hooks \<Rightarrow> nat \<Rightarrow> pystr \<Rightarrow> py_error + (pyval \<times> pystr)"
  and parse_elems :: "python \<Rightarrow> json_hooks \<Rightarrow> nat \<Rightarrow> pystr \<Rightarrow> py_error + (pyval list \<times> pystr)"
  and parse_members ::
    "python \<Rightarrow> json_hooks \<Rightarrow> nat \<Rightarrow> pystr \<Rightarrow> py_error + ((pystr \<times> pyval) list \<times> pystr)"
where
  "parse_value py h n [] = Inl JSONDecodeError"
| "parse_value py h n (c # s) =
     (if c = 34 then bindE (scan_str s) (\<lambda>(cs, r). Inr (PStr cs, r))
      else if c = 123 then
        (case n of 0 \<Rightarrow> Inl RecursionError
         | Suc m \<Rightarrow>
             (case skip_ws s of
                [] \<Rightarrow> Inl JSONDecodeError
              | d # r \<Rightarrow>
                  if d = 125 then bindE (object_pairs_hook h []) (\<lambda>v. Inr (v, r))
                  else if length (skip_ws s) < length (c # s) then
                    bindE (parse_members py h m (skip_ws s)) (\<lambda>(kvs, r').
                      bindE (object_pairs_hook h kvs) (\<lambda>v. Inr (v, r')))
                  else Inl JSONDecodeError))
      else if c = 91 then
        (case n of 0 \<Rightarrow> Inl RecursionError
         | Suc m \<Rightarrow>
             (case skip_ws s of
                [] \<Rightarrow> Inl JSONDecodeError
              | d # r \<Rightarrow>
                  if d = 93 then Inr (PList [], r)
                  else if length (skip_ws s) < length (c # s) then
                    bindE (parse_elems py h m (skip_ws s)) (\<lambda>(vs, r'). Inr (PList vs, r'))
                  else Inl JSONDecodeError))
      else parse_scalar py h (c # s))"
| "parse_elems py h n s =
     (case parse_value py h n s of
        Inl e \<Rightarrow> Inl e
      | Inr (v, r) \<Rightarrow>
          (case skip_ws r of
             [] \<Rightarrow> Inl JSONDecodeError
           | d # q \<Rightarrow>
               if d = 93 then Inr ([v], q)
               else if d = 44 then
                 (if length (skip_ws q) < length s then
                    bindE (parse_elems py h n (skip_ws q)) (\<lambda>(vs, r'). Inr (v # vs, r'))
                  else Inl JSONDecodeError)
               else Inl JSONDecodeError))"
| "parse_members py h n s =
     (case s of
        [] \<Rightarrow> Inl JSONDecodeError
      | c # s1 \<Rightarrow>
          if c \<noteq> 34 then Inl JSONDecodeError
          else
            (case scan_str s1 of
               Inl e \<Rightarrow> Inl e
             | Inr (k, s2) \<Rightarrow>
                 (case skip_ws s2 of
                    [] \<Rightarrow> Inl JSONDecodeError
                  | d # s3 \<Rightarrow>
                      if d \<noteq> 58 \<or> \<not> length (skip_ws s3) < length s then Inl JSONDecodeError
                      else
                        (case parse_value py h n (skip_ws s3) of
                           Inl e \<Rightarrow> Inl e
                         | Inr (v, r) \<Rightarrow>
                             (case skip_ws r of
                                [] \<Rightarrow> Inl JSONDecodeError
                              | d' # q \<Rightarrow>
                                  if d' = 125 then Inr ([(k, v)], q)
                                  else if d' = 44 then
                                    (if length (skip_ws q) < length s then
                                       bindE (parse_members py h n (skip_ws q))
                                         (\<lambda>(kvs, r'). Inr ((k, v) # kvs, r'))
                                     else Inl JSONDecodeError)
                                  else Inl JSONDecodeError)))))"
  by pat_completeness auto
termination
  by (relation "measure (\<lambda>x. case x of
        Inl (py, h, n, s) \<Rightarrow> 2 * length s
      | Inr (Inl (py, h, n, s)) \<Rightarrow> 2 * length s + 1
      | Inr (Inr (py, h, n, s)) \<Rightarrow> 2 * length s + 1)") auto

declare parse_value.simps(2) [simp del] parse_elems.simps [simp del] parse_members.simps [simp del]

definition loads :: "python \<Rightarrow> json_hooks \<Rightarrow> pystr \<Rightarrow> py_error + pyval" where
  "loads py h text =
     (if starts [0xFEFF] text then Inl JSONDecodeError
      else bindE (parse_value py h (loads_depth py) (skip_ws text)) (\<lambda>(v, r).
             if skip_ws r = [] then Inr v else Inl JSONDecodeError))"

end
