(* ===== verification/JsonRoundTrip.thy ===== *)
theory JsonRoundTrip
  imports Json
begin

text \<open>
  The round trip of the JSON layer: what \<open>dumps\<close> prints, \<open>loads\<close> reads back, up to the order
  of dictionary items. The number, string and container cases are separate lemmas; the
  container cases are about lists of already printed parts, so the mutual induction at the end
  only puts them together.
\<close>

section \<open>What the canonical text denotes\<close>

fun key_text :: "pykey \<Rightarrow> pystr" where
  "key_text (KStr s) = s"
| "key_text KOther = []"

fun canon :: "pyval \<Rightarrow> pyval" where
  "canon (PList xs) = PList (map canon xs)"
| "canon (PDict kvs) =
     PDict (sort_key (\<lambda>(k, v). key_text k) (map (\<lambda>(k, v). (k, canon v)) kvs))"
| "canon v = v"

text \<open>Every dictionary of a Python value has distinct keys.\<close>

fun dict_ok :: "pyval \<Rightarrow> bool" where
  "dict_ok (PList xs) = list_all dict_ok xs"
| "dict_ok (PDict kvs) = (distinct (map fst kvs) \<and> list_all (\<lambda>(k, v). dict_ok v) kvs)"
| "dict_ok v = True"

definition digit_text :: "pystr \<Rightarrow> bool" where
  "digit_text s \<longleftrightarrow> s \<noteq> [] \<and> list_all is_digit s"

text \<open>
  The shape of a float's text: an optional sign, an integer part without leading zeros, and a
  fraction or an exponent. \<open>python_ok\<close> is what the program relies on in CPython: \<^verbatim>\<open>repr\<close> of a
  finite float has this shape and \<^verbatim>\<open>float\<close> reads the same float back, and loading may nest at
  least as deep as dumping.
\<close>

definition float_text :: "pystr \<Rightarrow> bool" where
  "float_text t \<longleftrightarrow>
     (\<exists>sg ip fp ep. t = sg @ ip @ fp @ ep \<and> (sg = [] \<or> sg = [45])
        \<and> (ip = [48] \<or> (digit_text ip \<and> hd ip \<noteq> 48))
        \<and> (fp = [] \<or> (\<exists>ds. digit_text ds \<and> fp = 46 # ds))
        \<and> (ep = [] \<or> (\<exists>e s ds. (e = 101 \<or> e = 69) \<and> (s = [] \<or> s = [43] \<or> s = [45])
             \<and> digit_text ds \<and> ep = e # s @ ds))
        \<and> (fp \<noteq> [] \<or> ep \<noteq> []))"

definition python_ok :: "python \<Rightarrow> bool" where
  "python_ok py \<longleftrightarrow>
     (\<forall>w. float_isfinite w \<longrightarrow> float_text (float_repr py w) \<and> float_parse py (float_repr py w) = w)
     \<and> dumps_depth py \<le> loads_depth py"

lemma ustr_literals [simp]:
  "ustr ''null'' = [110, 117, 108, 108]"
  "ustr ''true'' = [116, 114, 117, 101]"
  "ustr ''false'' = [102, 97, 108, 115, 101]"
  "ustr ''NaN'' = [78, 97, 78]"
  "ustr ''Infinity'' = [73, 110, 102, 105, 110, 105, 116, 121]"
  "ustr ''-Infinity'' = [45, 73, 110, 102, 105, 110, 105, 116, 121]"
  by code_simp+

section \<open>Numbers\<close>

definition ends_number :: "pystr \<Rightarrow> bool" where
  "ends_number r \<longleftrightarrow>
     (case r of [] \<Rightarrow> True | c # _ \<Rightarrow> \<not> is_digit c \<and> c \<noteq> 46 \<and> c \<noteq> 101 \<and> c \<noteq> 69)"

definition not_digit_head :: "pystr \<Rightarrow> bool" where
  "not_digit_head r \<longleftrightarrow> (case r of [] \<Rightarrow> True | c # _ \<Rightarrow> \<not> is_digit c)"

lemma ends_number_not_digit: "ends_number r \<Longrightarrow> not_digit_head r"
  by (simp add: ends_number_def not_digit_head_def split: list.splits)

lemma takeWhile_digits:
  "list_all is_digit ds \<Longrightarrow> not_digit_head r \<Longrightarrow>
     takeWhile is_digit (ds @ r) = ds \<and> dropWhile is_digit (ds @ r) = r"
  by (induction ds) (auto simp: not_digit_head_def split: list.splits)

lemma digits_val_append: "digits_val acc (xs @ ys) = digits_val (digits_val acc xs) ys"
  by (induction xs arbitrary: acc) auto

lemma nat_digits_digits: "list_all is_digit (nat_digits n)"
proof (induction n rule: nat_digits.induct)
  case (1 n)
  have "n mod 10 < 10" by simp
  with 1 show ?case
    by (cases "n < 10") (auto simp: nat_digits.simps [of n] is_digit_def simp del: mod_less_divisor)
qed

lemma nat_digits_nonempty [simp]: "nat_digits n \<noteq> []"
  by (subst nat_digits.simps) simp

lemma nat_digits_val: "digits_val 0 (nat_digits n) = n"
proof (induction n rule: nat_digits.induct)
  case (1 n)
  then show ?case
    by (cases "n < 10") (simp_all add: nat_digits.simps [of n] digits_val_append)
qed

lemma nat_digits_hd: "0 < n \<Longrightarrow> hd (nat_digits n) \<noteq> 48"
proof (induction n rule: nat_digits.induct)
  case (1 n)
  then show ?case
    by (cases "n < 10") (simp_all add: nat_digits.simps [of n])
qed

lemma scan_int_digits:
  assumes "ip = [48] \<or> (digit_text ip \<and> hd ip \<noteq> 48)" and "not_digit_head r"
  shows "scan_int (ip @ r) = Some (ip, r)"
proof (cases "ip = [48]")
  case True
  then show ?thesis by (simp add: scan_int_def)
next
  case False
  with assms(1) obtain c ds where ip: "ip = c # ds" and "c \<noteq> 48" and "list_all is_digit ip"
    by (cases ip) (auto simp: digit_text_def)
  with takeWhile_digits [of ip r] assms(2) show ?thesis
    by (simp add: scan_int_def)
qed

lemma nat_digits_int_part:
  "nat_digits n = [48] \<or> (digit_text (nat_digits n) \<and> hd (nat_digits n) \<noteq> 48)"
  by (cases "n = 0") (auto simp: nat_digits.simps [of 0] digit_text_def nat_digits_digits nat_digits_hd)

lemma scan_nothing:
  "ends_number r \<Longrightarrow> scan_frac r = ([], r)" "ends_number r \<Longrightarrow> scan_exp r = ([], r)"
  by (auto simp: ends_number_def scan_frac_def scan_exp_def split: list.splits)

lemma digit_text_Cons: "digit_text ds \<Longrightarrow> \<exists>d r. ds = d # r \<and> is_digit d"
  by (cases ds) (auto simp: digit_text_def)

lemma scan_frac_digits:
  assumes "digit_text ds" and "not_digit_head r"
  shows "scan_frac (46 # ds @ r) = (46 # ds, r)"
proof -
  obtain d q where ds: "ds = d # q" and "is_digit d"
    using digit_text_Cons [OF assms(1)] by blast
  with takeWhile_digits [of ds r] assms show ?thesis
    by (simp add: scan_frac_def digit_text_def)
qed

lemma scan_exp_digits:
  assumes "e = 101 \<or> e = 69" and "s = [] \<or> s = [43] \<or> s = [45]" and "digit_text ds"
    and "not_digit_head r"
  shows "scan_exp (e # s @ ds @ r) = (e # s @ ds, r)"
proof -
  obtain d q where ds: "ds = d # q" and d: "is_digit d"
    using digit_text_Cons [OF assms(3)] by blast
  have "takeWhile is_digit (ds @ r) = ds" "dropWhile is_digit (ds @ r) = r"
    using takeWhile_digits [of ds r] assms(3,4) by (auto simp: digit_text_def)
  with assms(1,2) ds d show ?thesis
    by (auto simp: scan_exp_def is_digit_def)
qed

lemma starts_Nil [simp]: "starts [] s"
  and starts_Cons_Nil [simp]: "\<not> starts (c # p) []"
  and starts_Cons_Cons [simp]: "starts (c # p) (d # s) \<longleftrightarrow> c = d \<and> starts p s"
  by (auto simp: starts_def)

lemma is_digit_not_letter:
  "is_digit c \<Longrightarrow> c \<noteq> 110 \<and> c \<noteq> 116 \<and> c \<noteq> 102 \<and> c \<noteq> 78 \<and> c \<noteq> 73 \<and> c \<noteq> 45 \<and> c \<noteq> 34 \<and> c \<noteq> 123
     \<and> c \<noteq> 91"
  by (auto simp: is_digit_def)

text \<open>A signed number text goes through \<^verbatim>\<open>scan_once\<close> to the number scanner.\<close>

lemma parse_value_number:
  assumes "sg = [] \<or> sg = [45]" and "is_digit d"
  shows "parse_value py h n (sg @ d # s) = scan_number py (sg @ d # s)"
  using assms is_digit_not_letter [OF assms(2)]
  by (auto simp: parse_value.simps(2) parse_scalar_def)

lemma scan_number_split:
  assumes "sg = [] \<or> sg = [45]" and "scan_int (d # s) = Some (ip, u)" and "is_digit d"
    and "scan_frac u = (fp, v)" and "scan_exp v = (ep, w)"
  shows "scan_number py (sg @ d # s) =
     (if fp = [] \<and> ep = [] then
        (if length ip > max_str_digits then Inl ValueError
         else Inr (PInt (if sg = [] then int (digits_val 0 ip) else - int (digits_val 0 ip)), w))
      else Inr (PFloat (float_parse py (sg @ ip @ fp @ ep)), w))"
  using assms is_digit_not_letter [OF assms(3)]
  by (auto simp: scan_number_def Let_def)

lemma parse_int_text:
  assumes "int_repr i = Inr t" and "ends_number r"
  shows "parse_value py h n (t @ r) = Inr (PInt i, r)"
proof -
  define ip where "ip = nat_digits (nat \<bar>i\<bar>)"
  define sg :: pystr where "sg = (if i < 0 then [45] else [])"
  have t: "t = sg @ ip" and short: "\<not> length ip > max_str_digits"
    using assms(1) by (auto simp: int_repr_def ip_def sg_def Let_def split: if_splits)
  obtain d q where ip: "ip = d # q" and d: "is_digit d"
    using digit_text_Cons [of ip] nat_digits_digits by (auto simp: ip_def digit_text_def)
  have scan: "scan_int (ip @ r) = Some (ip, r)"
    using scan_int_digits [of ip r] nat_digits_int_part ends_number_not_digit [OF assms(2)]
    by (simp add: ip_def)
  have val: "digits_val 0 ip = nat \<bar>i\<bar>"
    by (simp add: ip_def nat_digits_val)
  have "scan_number py (sg @ d # (q @ r)) = Inr (PInt i, r)"
    using scan short val
    by (subst scan_number_split [where ip = ip and fp = "[]" and ep = "[]" and u = r and v = r
          and w = r])
       (auto simp: ip d scan_nothing [OF assms(2)] sg_def)
  then show ?thesis
    using parse_value_number [of sg d py h n "q @ r"] by (simp add: t ip d sg_def)
qed

lemma parse_float_text:
  assumes "float_text t" and "ends_number r"
  shows "parse_value py h n (t @ r) = Inr (PFloat (float_parse py t), r)"
proof -
  from assms(1) obtain sg ip fp ep where t: "t = sg @ ip @ fp @ ep" and sg: "sg = [] \<or> sg = [45]"
    and ip: "ip = [48] \<or> (digit_text ip \<and> hd ip \<noteq> 48)"
    and fp: "fp = [] \<or> (\<exists>ds. digit_text ds \<and> fp = 46 # ds)"
    and ep: "ep = [] \<or> (\<exists>e s ds. (e = 101 \<or> e = 69) \<and> (s = [] \<or> s = [43] \<or> s = [45])
             \<and> digit_text ds \<and> ep = e # s @ ds)" and ne: "fp \<noteq> [] \<or> ep \<noteq> []"
    unfolding float_text_def by blast
  obtain d q where dq: "ip = d # q" "is_digit d"
    using ip digit_text_Cons [of ip] by (auto simp: is_digit_def)
  have r: "not_digit_head r" using assms(2) by (rule ends_number_not_digit)
  have e: "scan_exp (ep @ r) = (ep, r)"
  proof (cases "ep = []")
    case True
    then show ?thesis using scan_nothing(2) [OF assms(2)] by simp
  next
    case False
    with ep obtain e s ds where ep': "ep = e # s @ ds" "e = 101 \<or> e = 69"
      "s = [] \<or> s = [43] \<or> s = [45]" "digit_text ds" by blast
    with scan_exp_digits [of e s ds r] r show ?thesis by simp
  qed
  have nd: "not_digit_head (ep @ r)"
    using ep r by (auto simp: not_digit_head_def is_digit_def)
  have f: "scan_frac (fp @ ep @ r) = (fp, ep @ r)"
  proof (cases "fp = []")
    case True
    have "scan_frac (ep @ r) = ([], ep @ r)"
      using ep scan_nothing(1) [OF assms(2)] by (auto simp: scan_frac_def split: list.splits)
    with True show ?thesis by simp
  next
    case False
    with fp scan_frac_digits nd show ?thesis by auto
  qed
  have "not_digit_head (fp @ ep @ r)"
    using fp nd by (auto simp: not_digit_head_def is_digit_def)
  with scan_int_digits ip have "scan_int (ip @ fp @ ep @ r) = Some (ip, fp @ ep @ r)" by blast
  then have "scan_number py (sg @ d # (q @ fp @ ep @ r)) = Inr (PFloat (float_parse py t), r)"
    using ne sg f e dq by (subst scan_number_split [where ip = ip and fp = fp and ep = ep
        and u = "fp @ ep @ r" and v = "ep @ r" and w = r]) (auto simp: t)
  then show ?thesis
    using parse_value_number [OF sg dq(2), of py h n "q @ fp @ ep @ r"] by (simp add: t dq(1))
qed

section \<open>Strings\<close>

lemma hex_value_digit: "d < 16 \<Longrightarrow> hex_value (hex_digit d) = Some d"
  by (auto simp: hex_value_def hex_digit_def is_digit_def)

lemma unicode_escape_control:
  assumes "c < 32"
  shows "unicode_escape (48 # 48 # hex_digit (c div 16) # hex_digit (c mod 16) # r) = Some (c, r)"
proof -
  have "hex_value 48 = Some 0" by (simp add: hex_value_def is_digit_def)
  moreover have "hex_value (hex_digit (c div 16)) = Some (c div 16)"
    "hex_value (hex_digit (c mod 16)) = Some (c mod 16)"
    using assms by (auto intro: hex_value_digit)
  ultimately have "hex4 (48 # 48 # hex_digit (c div 16) # hex_digit (c mod 16) # r) = Some (c, r)"
    by (simp add: hex4_def)
  with assms show ?thesis by (simp add: unicode_escape_def)
qed

lemma scan_escape_char:
  "scan_str (escape_char c @ s) = bindE (scan_str s) (\<lambda>(cs, q). Inr (c # cs, q))"
  using unicode_escape_control [of c s]
  by (auto simp: escape_char_def scan_str.simps(2) simple_escape_def)

lemma scan_str_dumps: "scan_str (concat (map escape_char s) @ 34 # r) = Inr (s, r)"
  by (induction s) (simp_all add: scan_escape_char scan_str.simps(2) [of 34])


section \<open>Containers\<close>

definition is_ws :: "nat \<Rightarrow> bool" where
  "is_ws c \<longleftrightarrow> c = 32 \<or> c = 9 \<or> c = 10 \<or> c = 13"

definition value_head :: "pystr \<Rightarrow> bool" where
  "value_head t \<longleftrightarrow>
     (case t of [] \<Rightarrow> False | c # _ \<Rightarrow> \<not> is_ws c \<and> c \<noteq> 93 \<and> c \<noteq> 125 \<and> c \<noteq> 0xFEFF)"

text \<open>\<open>reads py h n t v\<close>: at any nesting allowance from \<open>n\<close>, the parser reads \<open>t\<close> as \<open>v\<close>.\<close>

definition reads :: "python \<Rightarrow> json_hooks \<Rightarrow> nat \<Rightarrow> pystr \<Rightarrow> pyval \<Rightarrow> bool" where
  "reads py h n t v \<longleftrightarrow> value_head t \<and>
     (\<forall>m r. n \<le> m \<longrightarrow> ends_number r \<longrightarrow> parse_value py h m (t @ r) = Inr (v, r))"

definition item_reads ::
  "python \<Rightarrow> json_hooks \<Rightarrow> nat \<Rightarrow> pystr \<times> pystr \<Rightarrow> pykey \<times> pyval \<Rightarrow> bool" where
  "item_reads py h n it kv \<longleftrightarrow>
     fst kv = KStr (fst it) \<and> (\<exists>t. snd it = dumps_str (fst it) @ 58 # t \<and> reads py h n t (snd kv))"

lemma skip_ws_head:
  "\<not> is_ws c \<Longrightarrow> skip_ws (c # s) = c # s" "value_head t \<Longrightarrow> skip_ws (t @ r) = t @ r"
  by (auto simp: skip_ws_def is_ws_def value_head_def split: list.splits)

lemma skip_ws_punct [simp]:
  "skip_ws (44 # s) = 44 # s" "skip_ws (58 # s) = 58 # s" "skip_ws (93 # s) = 93 # s"
  "skip_ws (125 # s) = 125 # s" "skip_ws (34 # s) = 34 # s" "skip_ws [] = []"
  "skip_ws (91 # s) = 91 # s" "skip_ws (123 # s) = 123 # s"
  by (simp_all add: skip_ws_def)

lemma ends_number_punct [simp]:
  "ends_number []" "ends_number (44 # s)" "ends_number (93 # s)" "ends_number (125 # s)"
  by (simp_all add: ends_number_def is_digit_def)

lemma readsD: "reads py h n t v \<Longrightarrow> n \<le> m \<Longrightarrow> ends_number r \<Longrightarrow> parse_value py h m (t @ r) = Inr (v, r)"
  and reads_head: "reads py h n t v \<Longrightarrow> value_head t"
  by (auto simp: reads_def)

lemma value_head_not_Nil: "value_head t \<Longrightarrow> t \<noteq> []"
  by (auto simp: value_head_def)

lemma join_comma_Cons: "join_comma (x # xs) = x @ (if xs = [] then [] else 44 # join_comma xs)"
  by (cases xs) auto

lemma value_head_join:
  "value_head t \<Longrightarrow> value_head (join_comma (t # ts))"
  by (auto simp: join_comma_Cons value_head_def split: list.splits)

lemma parse_elems_join:
  assumes "list_all2 (reads py h n) ts vs" and "ts \<noteq> []" and "n \<le> m"
  shows "parse_elems py h m (join_comma ts @ 93 # r) = Inr (vs, r)"
  using assms
proof (induction ts arbitrary: vs)
  case Nil
  then show ?case by simp
next
  case (Cons t ts)
  then obtain v us where vs: "vs = v # us" and v: "reads py h n t v"
    and us: "list_all2 (reads py h n) ts us"
    by (auto simp: list_all2_Cons1)
  show ?case
  proof (cases "ts = []")
    case True
    with us vs v Cons.prems(3) show ?thesis
      by (subst parse_elems.simps) (simp add: readsD [of py h n t v m "93 # r"])
  next
    case False
    have "value_head (join_comma ts)"
      using False us by (cases ts) (auto simp: list_all2_Cons1 intro: value_head_join reads_head)
    with False us vs v Cons show ?thesis
      by (subst parse_elems.simps)
         (simp add: join_comma_Cons readsD [of py h n t v m "44 # join_comma ts @ 93 # r"]
            skip_ws_head)
  qed
qed

lemma scan_str_dumps_str: "scan_str (tl (dumps_str k) @ r) = Inr (k, r)"
  by (simp add: dumps_str_def scan_str_dumps)

lemma dumps_str_Cons: "dumps_str k = 34 # tl (dumps_str k)"
  by (simp add: dumps_str_def)

lemma parse_members_join:
  assumes "list_all2 (item_reads py h n) its kvs" and "its \<noteq> []" and "n \<le> m"
  shows "\<exists>pairs. parse_members py h m (join_comma (map snd its) @ 125 # r) = Inr (pairs, r)
           \<and> kvs = map (\<lambda>(k, v). (KStr k, v)) pairs"
  using assms
proof (induction its arbitrary: kvs)
  case Nil
  then show ?case by simp
next
  case (Cons it its)
  then obtain kv us where kvs: "kvs = kv # us" and it: "item_reads py h n it kv"
    and us: "list_all2 (item_reads py h n) its us"
    by (auto simp: list_all2_Cons1)
  from it obtain t where k: "fst kv = KStr (fst it)" and tx: "snd it = dumps_str (fst it) @ 58 # t"
    and t: "reads py h n t (snd kv)" by (auto simp: item_reads_def)
  let ?rest = "(if its = [] then [] else 44 # join_comma (map snd its)) @ 125 # r"
  let ?str = "join_comma (map snd (it # its)) @ 125 # r"
  have str: "?str = 34 # tl (dumps_str (fst it)) @ 58 # t @ ?rest"
    by (simp add: join_comma_Cons tx dumps_str_def)
  have val: "parse_value py h m (t @ ?rest) = Inr (snd kv, ?rest)"
    using t Cons.prems(3) by (simp add: readsD)
  have ws: "skip_ws (t @ ?rest) = t @ ?rest"
    using t by (intro skip_ws_head(2) reads_head)
  show ?case
  proof (cases "its = []")
    case True
    with us kvs k val ws show ?thesis
      by (subst str, subst parse_members.simps)
         (simp add: scan_str_dumps_str prod_eq_iff)
  next
    case False
    then obtain it' its' where its: "its = it' # its'" by (cases its) auto
    with us obtain t' where "snd it' = dumps_str (fst it') @ 58 # t'"
      by (auto simp: list_all2_Cons1 item_reads_def)
    then have ws': "skip_ws (join_comma (map snd its) @ 125 # r) = join_comma (map snd its) @ 125 # r"
      by (simp add: its join_comma_Cons dumps_str_def)
    from Cons.IH [OF us False Cons.prems(3)] obtain pairs where
      p: "parse_members py h m (join_comma (map snd its) @ 125 # r) = Inr (pairs, r)"
        "us = map (\<lambda>(k, v). (KStr k, v)) pairs" by blast
    from False kvs k val ws ws' p show ?thesis
      by (subst str, subst parse_members.simps)
         (auto simp: scan_str_dumps_str prod_eq_iff intro!: exI [of _ "(fst it, snd kv) # pairs"])
  qed
qed

lemma list_all2_insort_key:
  "list_all2 R xs ys \<Longrightarrow> R x y \<Longrightarrow> (\<And>a b. R a b \<Longrightarrow> f a = g b) \<Longrightarrow>
     list_all2 R (insort_key f x xs) (insort_key g y ys)"
  by (induction xs ys rule: list_all2_induct) auto

lemma list_all2_sort_key:
  "list_all2 R xs ys \<Longrightarrow> (\<And>a b. R a b \<Longrightarrow> f a = g b) \<Longrightarrow>
     list_all2 R (sort_key f xs) (sort_key g ys)"
  by (induction xs ys rule: list_all2_induct) (auto intro: list_all2_insort_key)

text \<open>The hooks under which an object with distinct keys is the dictionary of its pairs.\<close>

definition dict_hook :: "json_hooks \<Rightarrow> bool" where
  "dict_hook h \<longleftrightarrow>
     (\<forall>kvs. distinct (map fst kvs) \<longrightarrow>
        object_pairs_hook h kvs = Inr (PDict (map (\<lambda>(k, v). (KStr k, v)) kvs)))"

lemma int_repr_head: "int_repr i = Inr t \<Longrightarrow> value_head t"
  using nat_digits_digits [of "nat \<bar>i\<bar>"]
  by (auto simp: int_repr_def Let_def value_head_def is_ws_def is_digit_def
        split: if_splits list.splits)

lemma float_text_head: "float_text t \<Longrightarrow> value_head t"
  using digit_text_Cons
  by (fastforce simp: float_text_def value_head_def is_ws_def is_digit_def)

lemma reads_array:
  assumes "list_all2 (reads py h n) ts vs"
  shows "reads py h (Suc n) (91 # join_comma ts @ [93]) (PList vs)"
proof -
  have "parse_value py h m (91 # join_comma ts @ 93 # r) = Inr (PList vs, r)"
    if le: "Suc n \<le> m" for m r
  proof (cases "ts = []")
    case True
    with assms that show ?thesis by (cases m) (auto simp: parse_value.simps(2))
  next
    case False
    then obtain t us where ts: "ts = t # us" by (cases ts) auto
    with assms have "value_head t" by (auto simp: list_all2_Cons1 dest: reads_head)
    then have "value_head (join_comma ts)"
      unfolding ts by (rule value_head_join)
    moreover then obtain c q where "join_comma ts = c # q" "c \<noteq> 93"
      by (auto simp: value_head_def split: list.splits)
    moreover obtain k where "m = Suc k" "n \<le> k" using Suc_le_D [OF le] le by auto
    ultimately show ?thesis
      using parse_elems_join [OF assms False, of k r] skip_ws_head(2) [of "join_comma ts" "93 # r"]
      by (simp add: parse_value.simps(2))
  qed
  then show ?thesis by (simp add: reads_def value_head_def is_ws_def)
qed

lemma reads_object:
  assumes "list_all2 (item_reads py h n) its kvs" and "dict_hook h" and "distinct (map fst kvs)"
  shows "reads py h (Suc n) (123 # join_comma (map snd its) @ [125]) (PDict kvs)"
proof -
  have "parse_value py h m (123 # join_comma (map snd its) @ 125 # r) = Inr (PDict kvs, r)"
    if le: "Suc n \<le> m" for m r
  proof (cases "its = []")
    case True
    with assms that show ?thesis by (cases m) (auto simp: parse_value.simps(2) dict_hook_def)
  next
    case False
    then obtain it its' where its: "its = it # its'" by (cases its) auto
    with assms(1) obtain t where "snd it = dumps_str (fst it) @ 58 # t"
      by (auto simp: list_all2_Cons1 item_reads_def)
    then obtain q where q: "join_comma (map snd its) = 34 # q"
      by (simp add: its join_comma_Cons dumps_str_def)
    obtain k where k: "m = Suc k" "n \<le> k" using Suc_le_D [OF le] le by auto
    from parse_members_join [OF assms(1) False k(2), of r] obtain pairs where
      p: "parse_members py h k (join_comma (map snd its) @ 125 # r) = Inr (pairs, r)"
      and kvs: "kvs = map (\<lambda>(k, v). (KStr k, v)) pairs" by blast
    have "distinct (map fst pairs)"
      using assms(3) distinct_map [of KStr "map fst pairs"] by (simp add: kvs o_def case_prod_unfold)
    with p assms(2) k show ?thesis
      by (simp add: parse_value.simps(2) q dict_hook_def kvs)
  qed
  then show ?thesis by (simp add: reads_def value_head_def is_ws_def)
qed

section \<open>The round trip\<close>

lemma reads_word:
  assumes "t \<in> {ustr ''null'', ustr ''true'', ustr ''false''}"
    and "v = (if t = ustr ''null'' then PNone else PBool (t = ustr ''true''))"
  shows "reads py h n t v"
  using assms by (auto simp: reads_def value_head_def is_ws_def parse_value.simps(2) parse_scalar_def)

lemma reads_string: "reads py h n (dumps_str s) (PStr s)"
  by (simp add: reads_def value_head_def is_ws_def dumps_str_def parse_value.simps(2) scan_str_dumps)

lemma dumps_reads_aux:
  assumes "python_ok py" and "dict_hook h"
  shows "dumps_val py n v = Inr t \<Longrightarrow> dict_ok v \<Longrightarrow> reads py h n t (canon v)"
    and "dumps_list py n xs = Inr ts \<Longrightarrow> list_all dict_ok xs \<Longrightarrow>
      list_all2 (reads py h n) ts (map canon xs)"
    and "dumps_items py n kvs = Inr its \<Longrightarrow> list_all (\<lambda>(k, v). dict_ok v) kvs \<Longrightarrow>
      list_all2 (item_reads py h n) its (map (\<lambda>(k, v). (k, canon v)) kvs)"
  using assms(1)
proof (induction py n v and py n xs and py n kvs arbitrary: t and ts and its
    rule: dumps_val_dumps_list_dumps_items.induct)
  case (3 py n i)
  then show ?case by (simp add: reads_def parse_int_text int_repr_head)
next
  case (4 py n w)
  then show ?case
    by (auto simp: reads_def python_ok_def parse_float_text float_text_head split: if_splits)
next
  case (6 py n xs)
  then show ?case
    by (auto simp: bindE_Inr split: nat.splits intro: reads_array)
next
  case (7 py n kvs)
  then obtain m its where n: "n = Suc m" and its: "dumps_items py m kvs = Inr its"
    and t: "t = 123 # join_comma (map snd (sort_key fst its)) @ [125]"
    by (auto simp: bindE_Inr split: nat.splits)
  let ?kvs = "map (\<lambda>(k, v). (k, canon v)) kvs"
  have "list_all2 (item_reads py h m) its ?kvs"
    using "7.IH" [OF n its] "7.prems" by auto
  then have "list_all2 (item_reads py h m) (sort_key fst its) (sort_key (\<lambda>(k, v). key_text k) ?kvs)"
    by (rule list_all2_sort_key) (auto simp: item_reads_def)
  moreover have "distinct (map fst (sort_key (\<lambda>(k, v). key_text k) ?kvs))"
  proof -
    have "map fst ?kvs = map fst kvs" by (auto simp: case_prod_unfold)
    with "7.prems"(2) have "distinct (map fst ?kvs)" by (simp del: map_map)
    then show ?thesis
      by (metis distinct_map distinct_sort set_sort)
  qed
  ultimately show ?case
    unfolding n t canon.simps by (intro reads_object assms(2))
next
  case (10 py n x xs)
  then show ?case by (auto simp: bindE_Inr)
next
  case (12 py n k x r)
  then show ?case by (auto simp: bindE_Inr item_reads_def split: pykey.splits)
qed (auto intro: reads_word reads_string split: if_splits)

theorem loads_dumps:
  assumes "python_ok py" and "dict_hook h" and "dict_ok v" and "dumps py v = Inr t"
  shows "loads py h t = Inr (canon v)"
proof -
  have r: "reads py h (dumps_depth py) t (canon v)"
    using dumps_reads_aux(1) assms by (simp add: dumps_def)
  then have "value_head t" by (rule reads_head)
  with readsD [OF r, of "loads_depth py" "[]"] assms(1) skip_ws_head(2) [of t "[]"] show ?thesis
    by (auto simp: loads_def python_ok_def value_head_def split: list.splits)
qed


section \<open>The canonical form prints the same\<close>

definition item_dumps :: "python \<Rightarrow> nat \<Rightarrow> pykey \<times> pyval \<Rightarrow> pystr \<times> pystr \<Rightarrow> bool" where
  "item_dumps py n kv it \<longleftrightarrow>
     fst kv = KStr (fst it)
     \<and> (\<exists>t. dumps_val py n (snd kv) = Inr t \<and> snd it = dumps_str (fst it) @ 58 # t)"

lemma dumps_items_iff: "dumps_items py n kvs = Inr its \<longleftrightarrow> list_all2 (item_dumps py n) kvs its"
proof (induction kvs arbitrary: its)
  case Nil
  then show ?case by auto
next
  case (Cons kv kvs)
  obtain k x where kv: "kv = (k, x)" by (cases kv)
  show ?case
    by (cases k) (auto simp: kv bindE_Inr list_all2_Cons1 item_dumps_def Cons.IH)
qed

lemma dumps_canon_aux:
  shows "dumps_val py n v = Inr t \<Longrightarrow> dumps_val py n (canon v) = Inr t"
    and "dumps_list py n xs = Inr ts \<Longrightarrow> dumps_list py n (map canon xs) = Inr ts"
    and "dumps_items py n kvs = Inr its \<Longrightarrow>
      dumps_items py n (map (\<lambda>(k, v). (k, canon v)) kvs) = Inr its"
proof (induction py n v and py n xs and py n kvs arbitrary: t and ts and its
    rule: dumps_val_dumps_list_dumps_items.induct)
  case (7 py n kvs)
  then obtain m its where n: "n = Suc m" and its: "dumps_items py m kvs = Inr its"
    and t: "t = 123 # join_comma (map snd (sort_key fst its)) @ [125]"
    by (auto simp: bindE_Inr split: nat.splits)
  from "7.IH" [OF n its] have
    "list_all2 (item_dumps py m) (map (\<lambda>(k, v). (k, canon v)) kvs) its"
    by (simp add: dumps_items_iff)
  then have "list_all2 (item_dumps py m)
      (sort_key (\<lambda>(k, v). key_text k) (map (\<lambda>(k, v). (k, canon v)) kvs)) (sort_key fst its)"
    by (rule list_all2_sort_key) (auto simp: item_dumps_def)
  moreover have "sort_key fst (sort_key fst its) = sort_key fst its"
    by (rule sort_key_id_if_sorted) simp
  ultimately show ?case
    by (simp add: n t bindE_Inr dumps_items_iff [symmetric])
next
  case (12 py n k x r)
  then show ?case by (cases k) (auto simp: bindE_Inr)
qed (auto simp: bindE_Inr split: nat.splits)

lemma dumps_canon: "dumps py v = Inr t \<Longrightarrow> dumps py (canon v) = Inr t"
  by (simp add: dumps_def dumps_canon_aux(1))

lemma map_fst_canon [simp]: "map fst (map (\<lambda>(k, v). (k, canon v)) kvs) = map fst kvs"
  by (auto simp: case_prod_unfold)

lemma dict_ok_canon: "dict_ok v \<Longrightarrow> dict_ok (canon v)"
proof (induction v)
  case (PDict kvs)
  let ?kvs = "map (\<lambda>(k, v). (k, canon v)) kvs"
  have "distinct (map fst ?kvs)"
    using PDict.prems by (simp del: map_map)
  then have "distinct (map fst (sort_key (\<lambda>(k, v). key_text k) ?kvs))"
    by (metis distinct_map distinct_sort set_sort)
  moreover have "\<forall>(k, v) \<in> set ?kvs. dict_ok v"
    using PDict by (fastforce simp: list_all_iff)
  ultimately show ?case by (simp add: list_all_iff case_prod_unfold)
qed (auto simp: list_all_iff)

end
