(* ===== verification/Compat.thy ===== *)
theory Compat
  imports Prelude
begin

text \<open>
  The resolution of renamed arguments (\<^verbatim>\<open>src/reliomq/_compat.py\<close>). A deprecation warning is
  part of the result: the list of the old names a call warned about, in order, which is
  produced whether the call returns or raises.
\<close>

type_synonym 'a resolved = "string list \<times> (py_error + 'a)"

text \<open>\<open>eq\<close> is the \<^verbatim>\<open>==\<close> of the values.\<close>

definition resolve_renamed_argument ::
  "('a \<Rightarrow> 'a \<Rightarrow> bool) \<Rightarrow> 'a option \<Rightarrow> 'a option \<Rightarrow> string \<Rightarrow> 'a \<Rightarrow> py_error \<Rightarrow> 'a resolved" where
  "resolve_renamed_argument eq new_value old_value old_name dflt error_cls =
     (case old_value of
        Some old \<Rightarrow>
          ([old_name],
           if (case new_value of None \<Rightarrow> False | Some new \<Rightarrow> \<not> eq new old) then Inl error_cls else Inr old)
      | None \<Rightarrow> ([], Inr (case new_value of None \<Rightarrow> dflt | Some v \<Rightarrow> v)))"

fun supplied_legacy :: "('a option \<times> string) list \<Rightarrow> ('a \<times> string) list" where
  "supplied_legacy [] = []"
| "supplied_legacy ((v, nm) # r) =
     (case v of None \<Rightarrow> supplied_legacy r | Some x \<Rightarrow> (x, nm) # supplied_legacy r)"

definition resolve_renamed_argument_chain ::
  "('a \<Rightarrow> 'a \<Rightarrow> bool) \<Rightarrow> 'a option \<Rightarrow> string \<Rightarrow> ('a option \<times> string) list \<Rightarrow> 'a \<Rightarrow> py_error \<Rightarrow> 'a resolved" where
  "resolve_renamed_argument_chain eq new_value new_name legacy dflt error_cls =
     (let old = supplied_legacy legacy;
          supplied = (case new_value of None \<Rightarrow> [] | Some v \<Rightarrow> [(v, new_name)]) @ old
      in (map snd old,
          case supplied of
            [] \<Rightarrow> Inr dflt
          | (first_value, _) # rest \<Rightarrow>
              if list_ex (\<lambda>p. \<not> eq (fst p) first_value) rest then Inl error_cls
              else Inr first_value))"

section \<open>Properties\<close>

text \<open>Every value supplied to a call, in the order the chain looks at them.\<close>

definition supplied_values :: "'a option \<Rightarrow> ('a option \<times> string) list \<Rightarrow> 'a list" where
  "supplied_values new_value legacy =
     (case new_value of None \<Rightarrow> [] | Some v \<Rightarrow> [v]) @ List.map_filter fst legacy"

lemma map_fst_supplied_legacy: "map fst (supplied_legacy legacy) = List.map_filter fst legacy"
  by (induction legacy rule: supplied_legacy.induct)
     (auto simp: List.map_filter_simps split: option.splits)

lemma chain_supplied:
  "snd (resolve_renamed_argument_chain eq nv nn legacy d e) =
     (case supplied_values nv legacy of
        [] \<Rightarrow> Inr d | v # vs \<Rightarrow> if \<forall>x \<in> set vs. eq x v then Inr v else Inl e)"
proof (cases nv)
  case None
  then show ?thesis
    by (cases "supplied_legacy legacy")
       (fastforce simp: resolve_renamed_argument_chain_def Let_def supplied_values_def
          map_fst_supplied_legacy [symmetric] list_ex_iff)+
next
  case (Some v)
  then show ?thesis
    by (auto simp: resolve_renamed_argument_chain_def Let_def supplied_values_def
          map_fst_supplied_legacy [symmetric] list_ex_iff)
qed

text \<open>One deprecated name is a chain of length one, when equal values are the same.\<close>

lemma resolve_is_chain:
  "snd (resolve_renamed_argument (=) nv ov nm d e) = snd (resolve_renamed_argument_chain (=) nv nn [(ov, nm)] d e)"
  by (auto simp: resolve_renamed_argument_def chain_supplied supplied_values_def
        List.map_filter_simps split: option.splits)

end
