(* ===== verification/Protocol.thy ===== *)
theory Protocol
  imports JsonRoundTrip Compat
begin

text \<open>
  The wire protocol (\<^verbatim>\<open>src/reliomq/protocol.py\<close>): validation of topics, message ids and
  payloads, the three envelopes, and their strict JSON encoding and decoding. A classmethod
  takes the interpreter environment \<open>py\<close> as its first argument.
\<close>

section \<open>Validation\<close>

definition PROTOCOL_VERSION :: int where
  "PROTOCOL_VERSION = 1"

definition message_id_char :: "nat \<Rightarrow> bool" where
  "message_id_char c \<longleftrightarrow>
     (65 \<le> c \<and> c \<le> 90) \<or> (97 \<le> c \<and> c \<le> 122) \<or> (48 \<le> c \<and> c \<le> 57) \<or> c = 95 \<or> c = 45"

text \<open>\<^verbatim>\<open>MESSAGE_ID_PATTERN.fullmatch\<close>.\<close>

definition message_id_pattern :: "pystr \<Rightarrow> bool" where
  "message_id_pattern s \<longleftrightarrow> 1 \<le> length s \<and> length s \<le> 128 \<and> list_all message_id_char s"

definition validate_message_id :: "pyval \<Rightarrow> py_error + pystr" where
  "validate_message_id value =
     (case value of
        PStr s \<Rightarrow> if message_id_pattern s then Inr s else Inl ProtocolError
      | _ \<Rightarrow> Inl ProtocolError)"

definition validate_publish_topic :: "pyval \<Rightarrow> py_error + pystr" where
  "validate_publish_topic value =
     (case value of
        PStr s \<Rightarrow>
          if s = [] then Inl ProtocolError
          else if 0 \<in> set s \<or> 43 \<in> set s \<or> 35 \<in> set s then Inl ProtocolError
          else (case utf8_encode s of
                  None \<Rightarrow> Inl ProtocolError
                | Some encoded \<Rightarrow>
                    if length encoded > 65535 then Inl ProtocolError else Inr s)
      | _ \<Rightarrow> Inl ProtocolError)"

definition validate_version :: "pyval \<Rightarrow> py_error + int" where
  "validate_version value =
     (case value of
        PInt i \<Rightarrow> if i \<noteq> PROTOCOL_VERSION then Inl ProtocolError else Inr i
      | _ \<Rightarrow> Inl ProtocolError)"

definition validate_string :: "pystr \<Rightarrow> py_error + unit" where
  "validate_string s = (case utf8_encode s of None \<Rightarrow> Inl ProtocolError | Some _ \<Rightarrow> Inr ())"

text \<open>
  \<^verbatim>\<open>_validate_json_value\<close>: one call per value visited, each costing one level of recursion.
\<close>

fun validate_value :: "nat \<Rightarrow> pyval \<Rightarrow> py_error + unit"
  and validate_list :: "nat \<Rightarrow> pyval list \<Rightarrow> py_error + unit"
  and validate_items :: "nat \<Rightarrow> (pykey \<times> pyval) list \<Rightarrow> py_error + unit"
where
  "validate_value n v =
     (case n of 0 \<Rightarrow> Inl RecursionError
      | Suc m \<Rightarrow>
          (case v of
             PNone \<Rightarrow> Inr ()
           | PBool _ \<Rightarrow> Inr ()
           | PInt _ \<Rightarrow> Inr ()
           | PFloat w \<Rightarrow> if float_isfinite w then Inr () else Inl ProtocolError
           | PStr s \<Rightarrow> validate_string s
           | PList xs \<Rightarrow> validate_list m xs
           | PDict kvs \<Rightarrow> validate_items m kvs
           | POther \<Rightarrow> Inl ProtocolError))"
| "validate_list n [] = Inr ()"
| "validate_list n (x # xs) = bindE (validate_value n x) (\<lambda>_. validate_list n xs)"
| "validate_items n [] = Inr ()"
| "validate_items n ((k, x) # r) =
     (case k of KOther \<Rightarrow> Inl ProtocolError
      | KStr s \<Rightarrow> bindE (validate_string s) (\<lambda>_.
          bindE (validate_value n x) (\<lambda>_. validate_items n r)))"

declare validate_value.simps(1) [simp del]

definition validate_json_value :: "python \<Rightarrow> pyval \<Rightarrow> py_error + unit" where
  "validate_json_value py value =
     (case validate_value (validate_depth py) value of
        Inl RecursionError \<Rightarrow> Inl ProtocolError
      | r \<Rightarrow> r)"

section \<open>Strict JSON\<close>

text \<open>
  \<^verbatim>\<open>_canonical_bytes\<close>: whatever goes wrong in the encoder (\<^verbatim>\<open>TypeError\<close>, \<^verbatim>\<open>ValueError\<close>,
  \<^verbatim>\<open>UnicodeEncodeError\<close>, \<^verbatim>\<open>RecursionError\<close>) is a \<^verbatim>\<open>ProtocolError\<close>.
\<close>

definition canonical_bytes :: "python \<Rightarrow> pyval \<Rightarrow> py_error + bytes" where
  "canonical_bytes py value =
     (case dumps py value of
        Inl _ \<Rightarrow> Inl ProtocolError
      | Inr t \<Rightarrow> (case utf8_encode t of None \<Rightarrow> Inl ProtocolError | Some bs \<Rightarrow> Inr bs))"

definition reject_constant :: "pystr \<Rightarrow> py_error + pyval" where
  "reject_constant value = Inl ProtocolError"

fun without_duplicate_keys ::
  "(pystr \<times> pyval) list \<Rightarrow> (pykey \<times> pyval) list \<Rightarrow> py_error + pyval" where
  "without_duplicate_keys [] result = Inr (PDict result)"
| "without_duplicate_keys ((k, v) # pairs) result =
     (if KStr k \<in> set (map fst result) then Inl ProtocolError
      else without_duplicate_keys pairs (result @ [(KStr k, v)]))"

definition object_without_duplicate_keys :: "(pystr \<times> pyval) list \<Rightarrow> py_error + pyval" where
  "object_without_duplicate_keys pairs = without_duplicate_keys pairs []"

definition protocol_hooks :: json_hooks where
  "protocol_hooks = \<lparr>object_pairs_hook = object_without_duplicate_keys,
     parse_constant = reject_constant\<rparr>"

text \<open>
  Wire data is text or bytes (\<^verbatim>\<open>bytes\<close>, \<^verbatim>\<open>bytearray\<close> and \<^verbatim>\<open>memoryview\<close> are read alike).
  \<^verbatim>\<open>_decode_json\<close> converts \<^verbatim>\<open>JSONDecodeError\<close> and \<^verbatim>\<open>RecursionError\<close>; any other exception of
  \<^verbatim>\<open>json.loads\<close> passes through.
\<close>

datatype wire_data = WText pystr | WBytes bytes | WOther

definition decode_json :: "python \<Rightarrow> wire_data \<Rightarrow> py_error + pyval" where
  "decode_json py data =
     bindE (case data of
              WText t \<Rightarrow> Inr t
            | WBytes bs \<Rightarrow> (case utf8_decode bs of None \<Rightarrow> Inl ProtocolError | Some t \<Rightarrow> Inr t)
            | WOther \<Rightarrow> Inl ProtocolError)
       (\<lambda>text. case loads py protocol_hooks text of
                 Inl e \<Rightarrow> if e = JSONDecodeError \<or> e = RecursionError then Inl ProtocolError
                          else Inl e
               | Inr v \<Rightarrow> Inr v)"

definition dict_get :: "(pykey \<times> pyval) list \<Rightarrow> string \<Rightarrow> pyval" where
  "dict_get kvs name = (case map_of kvs (KStr (ustr name)) of None \<Rightarrow> PNone | Some v \<Rightarrow> v)"

text \<open>The items of an object that has exactly the expected keys.\<close>

definition require_schema :: "pyval \<Rightarrow> string list \<Rightarrow> py_error + (pykey \<times> pyval) list" where
  "require_schema value expected_keys =
     (case value of
        PDict kvs \<Rightarrow>
          if set (map fst kvs) \<noteq> set (map (KStr \<circ> ustr) expected_keys) then Inl ProtocolError
          else Inr kvs
      | _ \<Rightarrow> Inl ProtocolError)"

section \<open>Message identifiers\<close>

fun hex_text :: "nat \<Rightarrow> nat \<Rightarrow> pystr" where
  "hex_text 0 n = []"
| "hex_text (Suc k) n = hex_text k (n div 16) @ [hex_digit (n mod 16)]"

text \<open>\<^verbatim>\<open>uuid.uuid4().hex\<close>, of a UUID given as its 128 bits: 32 lower-case hexadecimal digits.\<close>

definition new_message_id :: "128 word \<Rightarrow> pystr" where
  "new_message_id uuid = hex_text 32 (unat uuid)"

definition truthy :: "pyval \<Rightarrow> bool" where
  "truthy v =
     (case v of
        PNone \<Rightarrow> False | PBool b \<Rightarrow> b | PInt i \<Rightarrow> i \<noteq> 0 | PFloat w \<Rightarrow> push_bit 1 w \<noteq> 0
      | PStr s \<Rightarrow> s \<noteq> [] | PList xs \<Rightarrow> xs \<noteq> [] | PDict kvs \<Rightarrow> kvs \<noteq> [] | POther \<Rightarrow> True)"

text \<open>\<^verbatim>\<open>_resolve_message_id\<close>: a fresh id only when neither keyword was given (or both are empty).\<close>

definition resolve_message_id ::
  "128 word \<Rightarrow> pyval option \<Rightarrow> pyval option \<Rightarrow> py_error + pyval" where
  "resolve_message_id uuid message_id event_id =
     (case (message_id, event_id) of
        (Some m, None) \<Rightarrow> Inr m
      | _ \<Rightarrow>
          bindE (snd (resolve_renamed_argument py_eq message_id event_id ''event_id'' (PStr [])
                   ProtocolError))
            (\<lambda>resolved. Inr (if truthy resolved then resolved else PStr (new_message_id uuid))))"

section \<open>The envelopes\<close>

record message_envelope =
  msg_topic :: pystr
  msg_payload :: pyval
  msg_id :: pystr
  msg_version :: int

record delivery_envelope =
  dlv_id :: pystr
  dlv_payload :: pyval
  dlv_version :: int

record delivery_ack =
  dack_id :: pystr
  dack_version :: int

text \<open>The constructors run \<^verbatim>\<open>__post_init__\<close>: the validators in their order.\<close>

definition MessageEnvelope ::
  "python \<Rightarrow> pyval \<Rightarrow> pyval \<Rightarrow> pyval \<Rightarrow> pyval \<Rightarrow> py_error + message_envelope" where
  "MessageEnvelope py topic payload message_id version =
     bindE (validate_publish_topic topic) (\<lambda>t.
     bindE (validate_message_id message_id) (\<lambda>m.
     bindE (validate_version version) (\<lambda>v.
     bindE (validate_json_value py payload) (\<lambda>_.
       Inr \<lparr>msg_topic = t, msg_payload = payload, msg_id = m, msg_version = v\<rparr>))))"

definition DeliveryEnvelope ::
  "python \<Rightarrow> pyval \<Rightarrow> pyval \<Rightarrow> pyval \<Rightarrow> py_error + delivery_envelope" where
  "DeliveryEnvelope py message_id payload version =
     bindE (validate_message_id message_id) (\<lambda>m.
     bindE (validate_version version) (\<lambda>v.
     bindE (validate_json_value py payload) (\<lambda>_.
       Inr \<lparr>dlv_id = m, dlv_payload = payload, dlv_version = v\<rparr>)))"

definition DeliveryAck :: "pyval \<Rightarrow> pyval \<Rightarrow> py_error + delivery_ack" where
  "DeliveryAck message_id version =
     bindE (validate_message_id message_id) (\<lambda>m.
     bindE (validate_version version) (\<lambda>v. Inr \<lparr>dack_id = m, dack_version = v\<rparr>))"

text \<open>
  The constructors themselves: the id is resolved first, and \<open>uuid\<close> is the one a fresh id takes.
  An absent \<^verbatim>\<open>version\<close> is \<open>PROTOCOL_VERSION\<close>, and an absent payload of a delivery is \<^verbatim>\<open>None\<close>.
\<close>

definition message_envelope_init ::
  "python \<Rightarrow> 128 word \<Rightarrow> pyval \<Rightarrow> pyval \<Rightarrow> pyval option \<Rightarrow> pyval option \<Rightarrow> pyval option
     \<Rightarrow> py_error + message_envelope" where
  "message_envelope_init py uuid topic payload message_id version event_id =
     bindE (resolve_message_id uuid message_id event_id) (\<lambda>resolved_id.
       MessageEnvelope py topic payload resolved_id (case version of None \<Rightarrow> PInt PROTOCOL_VERSION | Some v \<Rightarrow> v))"

definition delivery_envelope_init ::
  "python \<Rightarrow> 128 word \<Rightarrow> pyval option \<Rightarrow> pyval option \<Rightarrow> pyval option \<Rightarrow> pyval option
     \<Rightarrow> py_error + delivery_envelope" where
  "delivery_envelope_init py uuid message_id payload version event_id =
     bindE (resolve_message_id uuid message_id event_id) (\<lambda>resolved_id.
       DeliveryEnvelope py resolved_id (case payload of None \<Rightarrow> PNone | Some p \<Rightarrow> p)
         (case version of None \<Rightarrow> PInt PROTOCOL_VERSION | Some v \<Rightarrow> v))"

definition delivery_ack_init ::
  "128 word \<Rightarrow> pyval option \<Rightarrow> pyval option \<Rightarrow> pyval option \<Rightarrow> py_error + delivery_ack" where
  "delivery_ack_init uuid message_id version event_id =
     bindE (resolve_message_id uuid message_id event_id) (\<lambda>resolved_id.
       DeliveryAck resolved_id (case version of None \<Rightarrow> PInt PROTOCOL_VERSION | Some v \<Rightarrow> v))"

definition encode_message :: "python \<Rightarrow> message_envelope \<Rightarrow> py_error + bytes" where
  "encode_message py e =
     canonical_bytes py (PDict
       [(KStr (ustr ''version''), PInt (msg_version e)),
        (KStr (ustr ''event_id''), PStr (msg_id e)),
        (KStr (ustr ''topic''), PStr (msg_topic e)),
        (KStr (ustr ''payload''), msg_payload e)])"

definition decode_message :: "python \<Rightarrow> wire_data \<Rightarrow> py_error + message_envelope" where
  "decode_message py data =
     bindE (decode_json py data) (\<lambda>value.
     bindE (require_schema value [''version'', ''event_id'', ''topic'', ''payload'']) (\<lambda>kvs.
       MessageEnvelope py (dict_get kvs ''topic'') (dict_get kvs ''payload'')
         (dict_get kvs ''event_id'') (dict_get kvs ''version'')))"

definition encode_delivery :: "python \<Rightarrow> delivery_envelope \<Rightarrow> py_error + bytes" where
  "encode_delivery py e =
     canonical_bytes py (PDict
       [(KStr (ustr ''version''), PInt (dlv_version e)),
        (KStr (ustr ''event_id''), PStr (dlv_id e)),
        (KStr (ustr ''payload''), dlv_payload e)])"

definition decode_delivery :: "python \<Rightarrow> wire_data \<Rightarrow> py_error + delivery_envelope" where
  "decode_delivery py data =
     bindE (decode_json py data) (\<lambda>value.
     bindE (require_schema value [''version'', ''event_id'', ''payload'']) (\<lambda>kvs.
       DeliveryEnvelope py (dict_get kvs ''event_id'') (dict_get kvs ''payload'')
         (dict_get kvs ''version'')))"

definition encode_ack :: "python \<Rightarrow> delivery_ack \<Rightarrow> py_error + bytes" where
  "encode_ack py a =
     canonical_bytes py (PDict
       [(KStr (ustr ''version''), PInt (dack_version a)),
        (KStr (ustr ''event_id''), PStr (dack_id a))])"

definition decode_ack :: "python \<Rightarrow> wire_data \<Rightarrow> py_error + delivery_ack" where
  "decode_ack py data =
     bindE (decode_json py data) (\<lambda>value.
     bindE (require_schema value [''version'', ''event_id'']) (\<lambda>kvs.
       DeliveryAck (dict_get kvs ''event_id'') (dict_get kvs ''version'')))"

end
