(* ===== verification/ProtocolFacts.thy ===== *)
theory ProtocolFacts
  imports Protocol
begin

text \<open>
  Correctness of the wire protocol: decoding an encoded envelope gives the envelope back (with
  the payload's dictionaries in key order), everything a decoder accepts is a valid envelope
  whose dictionaries have distinct keys, and fresh message ids are valid.
\<close>

section \<open>Validation as a predicate\<close>

lemma bindE_unit: "bindE r f = Inr x \<longleftrightarrow> r = Inr () \<and> f () = Inr x"
  by (cases r) auto

lemma validate_list_iff: "validate_list n xs = Inr () \<longleftrightarrow> list_all (\<lambda>x. validate_value n x = Inr ()) xs"
  by (induction xs) (auto simp: bindE_unit)

definition item_valid :: "nat \<Rightarrow> pykey \<times> pyval \<Rightarrow> bool" where
  "item_valid n kv \<longleftrightarrow>
     (case fst kv of KOther \<Rightarrow> False | KStr s \<Rightarrow> validate_string s = Inr ())
     \<and> validate_value n (snd kv) = Inr ()"

lemma validate_items_iff: "validate_items n kvs = Inr () \<longleftrightarrow> list_all (item_valid n) kvs"
proof (induction kvs)
  case Nil
  then show ?case by simp
next
  case (Cons kv kvs)
  then show ?case
    by (cases kv; cases "fst kv") (auto simp: bindE_unit item_valid_def)
qed

lemma validate_canon: "validate_value n v = Inr () \<Longrightarrow> validate_value n (canon v) = Inr ()"
proof (induction v arbitrary: n)
  case (PList xs)
  then show ?case
    by (cases n) (auto simp: validate_value.simps(1) validate_list_iff list_all_iff)
next
  case (PDict kvs)
  then obtain m where n: "n = Suc m" and ok: "list_all (item_valid m) kvs"
    by (cases n) (auto simp: validate_value.simps(1) validate_items_iff)
  have "item_valid m (k, canon v)" if "(k, v) \<in> set kvs" for k v
    using ok that PDict.IH [of "(k, v)" v m] by (fastforce simp: list_all_iff item_valid_def)
  then show ?case
    by (auto simp: n validate_value.simps(1) validate_items_iff list_all_iff)
qed (simp_all add: validate_value.simps(1))

lemma validate_json_canon:
  "validate_json_value py v = Inr () \<Longrightarrow> validate_json_value py (canon v) = Inr ()"
  using validate_canon [of "validate_depth py" v]
  by (auto simp: validate_json_value_def split: sum.splits py_error.splits)

section \<open>Strict decoding of the canonical text\<close>

lemma without_duplicate_keys_distinct:
  "distinct (map fst kvs) \<Longrightarrow> (\<And>k. k \<in> set (map fst kvs) \<Longrightarrow> KStr k \<notin> set (map fst acc)) \<Longrightarrow>
     without_duplicate_keys kvs acc = Inr (PDict (acc @ map (\<lambda>(k, v). (KStr k, v)) kvs))"
  by (induction kvs acc rule: without_duplicate_keys.induct) auto

lemma dict_hook_protocol: "dict_hook protocol_hooks"
  by (simp add: dict_hook_def protocol_hooks_def object_without_duplicate_keys_def
        without_duplicate_keys_distinct)

lemma decode_canonical:
  assumes "python_ok py" and "dict_ok v" and "canonical_bytes py v = Inr bs"
  shows "decode_json py (WBytes bs) = Inr (canon v)"
proof -
  from assms(3) obtain t where t: "dumps py v = Inr t" "utf8_encode t = Some bs"
    by (auto simp: canonical_bytes_def split: sum.splits option.splits)
  with loads_dumps [OF assms(1) dict_hook_protocol assms(2) t(1)] utf8_decode_encode
  show ?thesis by (simp add: decode_json_def)
qed

lemma canonical_canon: "canonical_bytes py v = Inr bs \<Longrightarrow> canonical_bytes py (canon v) = Inr bs"
  by (auto simp: canonical_bytes_def dumps_canon split: sum.splits)

lemma ustr_fields [simp]:
  "ustr ''version'' = [118, 101, 114, 115, 105, 111, 110]"
  "ustr ''event_id'' = [101, 118, 101, 110, 116, 95, 105, 100]"
  "ustr ''topic'' = [116, 111, 112, 105, 99]"
  "ustr ''payload'' = [112, 97, 121, 108, 111, 97, 100]"
  by code_simp+

text \<open>The items of the canonical form of a dictionary: the same keys, canonical values.\<close>

lemma map_of_canon:
  assumes "canon (PDict kvs) = PDict kvs'" and "distinct (map fst kvs)"
  shows "map_of kvs' k = map_option canon (map_of kvs k)" and "set (map fst kvs') = set (map fst kvs)"
proof -
  let ?m = "map (\<lambda>(k, v). (k, canon v)) kvs"
  have kvs': "kvs' = sort_key (\<lambda>(k, v). key_text k) ?m" using assms(1) by simp
  have d: "distinct (map fst ?m)" using assms(2) by (simp del: map_map)
  then have "distinct (map fst kvs')"
    unfolding kvs' by (metis distinct_map distinct_sort set_sort)
  with d have "map_of kvs' = map_of ?m"
    by (subst map_of_inject_set) (simp_all add: kvs' del: map_map)
  then show "map_of kvs' k = map_option canon (map_of kvs k)"
    by (simp add: map_of_map case_prod_unfold [symmetric])
  show "set (map fst kvs') = set (map fst kvs)"
    by (simp add: kvs' del: map_map set_map) (simp add: image_image case_prod_unfold)
qed

text \<open>
  One envelope shape: the fields of an object whose canonical bytes were received pass the
  schema check, and each field reads as the canonical form of what was sent.
\<close>

lemma receive_fields:
  assumes "python_ok py" and "dict_ok (PDict kvs)" and "canonical_bytes py (PDict kvs) = Inr bs"
    and "set (map fst kvs) = set (map (KStr \<circ> ustr) names)"
  shows "\<exists>kvs'. bindE (decode_json py (WBytes bs)) (\<lambda>v. bindE (require_schema v names) f) = f kvs'
           \<and> (\<forall>nm v. map_of kvs (KStr (ustr nm)) = Some v \<longrightarrow> dict_get kvs' nm = canon v)"
proof -
  obtain kvs' where c: "canon (PDict kvs) = PDict kvs'" by simp
  from assms(2) have d: "distinct (map fst kvs)" by simp
  have "require_schema (PDict kvs') names = Inr kvs'"
    using map_of_canon(2) [OF c d] assms(4) by (simp add: require_schema_def del: set_map)
  with decode_canonical [OF assms(1,2,3)] c map_of_canon(1) [OF c d] show ?thesis
    by (intro exI [of _ kvs']) (simp add: dict_get_def del: canon.simps)
qed

section \<open>Envelope round trips\<close>

definition valid_message :: "python \<Rightarrow> message_envelope \<Rightarrow> bool" where
  "valid_message py e \<longleftrightarrow>
     MessageEnvelope py (PStr (msg_topic e)) (msg_payload e) (PStr (msg_id e)) (PInt (msg_version e))
       = Inr e \<and> dict_ok (msg_payload e)"

definition valid_delivery :: "python \<Rightarrow> delivery_envelope \<Rightarrow> bool" where
  "valid_delivery py e \<longleftrightarrow>
     DeliveryEnvelope py (PStr (dlv_id e)) (dlv_payload e) (PInt (dlv_version e)) = Inr e
     \<and> dict_ok (dlv_payload e)"

definition valid_ack :: "delivery_ack \<Rightarrow> bool" where
  "valid_ack a \<longleftrightarrow> DeliveryAck (PStr (dack_id a)) (PInt (dack_version a)) = Inr a"

definition canon_message :: "message_envelope \<Rightarrow> message_envelope" where
  "canon_message e = e\<lparr>msg_payload := canon (msg_payload e)\<rparr>"

lemma canon_message_simps [simp]:
  "msg_id (canon_message e) = msg_id e" "msg_topic (canon_message e) = msg_topic e"
  "msg_version (canon_message e) = msg_version e"
  "msg_payload (canon_message e) = canon (msg_payload e)"
  by (simp_all add: canon_message_def)

lemma MessageEnvelope_canon:
  "MessageEnvelope py t p m v = Inr e \<Longrightarrow> MessageEnvelope py t (canon p) m v = Inr (canon_message e)"
  by (auto simp: MessageEnvelope_def bindE_Inr canon_message_def validate_json_canon)

lemma valid_message_canon: "valid_message py e \<Longrightarrow> valid_message py (canon_message e)"
  by (simp add: valid_message_def MessageEnvelope_canon dict_ok_canon)

lemma decode_encode_message:
  assumes "python_ok py" and "valid_message py e" and "encode_message py e = Inr bs"
  shows "decode_message py (WBytes bs) = Inr (canon_message e)"
proof -
  from assms(2) have d: "dict_ok (msg_payload e)"
    and v: "MessageEnvelope py (PStr (msg_topic e)) (msg_payload e) (PStr (msg_id e))
      (PInt (msg_version e)) = Inr e" by (auto simp: valid_message_def)
  let ?f = "\<lambda>kvs. MessageEnvelope py (dict_get kvs ''topic'') (dict_get kvs ''payload'')
    (dict_get kvs ''event_id'') (dict_get kvs ''version'')"
  let ?kvs = "[(KStr (ustr ''version''), PInt (msg_version e)),
    (KStr (ustr ''event_id''), PStr (msg_id e)), (KStr (ustr ''topic''), PStr (msg_topic e)),
    (KStr (ustr ''payload''), msg_payload e)]"
  have "\<exists>kvs'. decode_message py (WBytes bs) = ?f kvs' \<and>
      (\<forall>nm v. map_of ?kvs (KStr (ustr nm)) = Some v \<longrightarrow> dict_get kvs' nm = canon v)"
    unfolding decode_message_def
    using assms(3) d by (intro receive_fields [OF assms(1)]) (auto simp: encode_message_def)
  then obtain kvs' where m: "decode_message py (WBytes bs) = ?f kvs'"
    and g: "map_of ?kvs (KStr (ustr nm)) = Some v \<Longrightarrow> dict_get kvs' nm = canon v" for nm v by blast
  have "dict_get kvs' ''topic'' = PStr (msg_topic e)" using g [of "''topic''"] by simp
  moreover have "dict_get kvs' ''payload'' = canon (msg_payload e)" using g [of "''payload''"] by simp
  moreover have "dict_get kvs' ''event_id'' = PStr (msg_id e)" using g [of "''event_id''"] by simp
  moreover have "dict_get kvs' ''version'' = PInt (msg_version e)" using g [of "''version''"] by simp
  ultimately show ?thesis using m MessageEnvelope_canon [OF v] by simp
qed

lemma decode_encode_delivery:
  assumes "python_ok py" and "valid_delivery py e" and "encode_delivery py e = Inr bs"
  shows "decode_delivery py (WBytes bs) = Inr (e\<lparr>dlv_payload := canon (dlv_payload e)\<rparr>)"
proof -
  from assms(2) have d: "dict_ok (dlv_payload e)"
    and v: "DeliveryEnvelope py (PStr (dlv_id e)) (dlv_payload e) (PInt (dlv_version e)) = Inr e"
    by (auto simp: valid_delivery_def)
  let ?f = "\<lambda>kvs. DeliveryEnvelope py (dict_get kvs ''event_id'') (dict_get kvs ''payload'')
    (dict_get kvs ''version'')"
  let ?kvs = "[(KStr (ustr ''version''), PInt (dlv_version e)),
    (KStr (ustr ''event_id''), PStr (dlv_id e)), (KStr (ustr ''payload''), dlv_payload e)]"
  have "\<exists>kvs'. decode_delivery py (WBytes bs) = ?f kvs' \<and>
      (\<forall>nm v. map_of ?kvs (KStr (ustr nm)) = Some v \<longrightarrow> dict_get kvs' nm = canon v)"
    unfolding decode_delivery_def
    using assms(3) d by (intro receive_fields [OF assms(1)]) (auto simp: encode_delivery_def)
  then obtain kvs' where m: "decode_delivery py (WBytes bs) = ?f kvs'"
    and g: "map_of ?kvs (KStr (ustr nm)) = Some v \<Longrightarrow> dict_get kvs' nm = canon v" for nm v by blast
  have "dict_get kvs' ''payload'' = canon (dlv_payload e)" using g [of "''payload''"] by simp
  moreover have "dict_get kvs' ''event_id'' = PStr (dlv_id e)" using g [of "''event_id''"] by simp
  moreover have "dict_get kvs' ''version'' = PInt (dlv_version e)" using g [of "''version''"] by simp
  ultimately show ?thesis
    using m v by (cases e) (auto simp: DeliveryEnvelope_def bindE_Inr validate_json_canon)
qed

lemma decode_encode_ack:
  assumes "python_ok py" and "valid_ack a" and "encode_ack py a = Inr bs"
  shows "decode_ack py (WBytes bs) = Inr a"
proof -
  let ?f = "\<lambda>kvs. DeliveryAck (dict_get kvs ''event_id'') (dict_get kvs ''version'')"
  let ?kvs = "[(KStr (ustr ''version''), PInt (dack_version a)),
    (KStr (ustr ''event_id''), PStr (dack_id a))]"
  have "\<exists>kvs'. decode_ack py (WBytes bs) = ?f kvs' \<and>
      (\<forall>nm v. map_of ?kvs (KStr (ustr nm)) = Some v \<longrightarrow> dict_get kvs' nm = canon v)"
    unfolding decode_ack_def
    using assms(3) by (intro receive_fields [OF assms(1)]) (auto simp: encode_ack_def)
  then obtain kvs' where m: "decode_ack py (WBytes bs) = ?f kvs'"
    and g: "map_of ?kvs (KStr (ustr nm)) = Some v \<Longrightarrow> dict_get kvs' nm = canon v" for nm v by blast
  have "dict_get kvs' ''event_id'' = PStr (dack_id a)" using g [of "''event_id''"] by simp
  moreover have "dict_get kvs' ''version'' = PInt (dack_version a)" using g [of "''version''"] by simp
  ultimately show ?thesis using m assms(2) by (simp add: valid_ack_def)
qed


lemma encode_canon_message: "encode_message py e = Inr bs \<Longrightarrow> encode_message py (canon_message e) = Inr bs"
proof -
  assume a: "encode_message py e = Inr bs"
  let ?kvs = "\<lambda>p. [(KStr (ustr ''version''), PInt (msg_version e)),
    (KStr (ustr ''event_id''), PStr (msg_id e)), (KStr (ustr ''topic''), PStr (msg_topic e)),
    (KStr (ustr ''payload''), p)]"
  obtain t its where t: "dumps_items py (dumps_depth py - 1) (?kvs (msg_payload e)) = Inr its"
    "utf8_encode t = Some bs" "0 < dumps_depth py"
    "t = 123 # join_comma (map snd (sort_key fst its)) @ [125]"
    using a by (auto simp: encode_message_def canonical_bytes_def dumps_def bindE_Inr
        split: sum.splits option.splits nat.splits)
  have "dumps_items py (dumps_depth py - 1) (?kvs (canon (msg_payload e))) = Inr its"
    using dumps_canon_aux(3) [OF t(1)] by simp
  with t show ?thesis
    by (cases "dumps_depth py") (simp_all add: encode_message_def canonical_bytes_def dumps_def)
qed

section \<open>What a decoder accepts is valid\<close>

definition hook_dict_ok :: "json_hooks \<Rightarrow> bool" where
  "hook_dict_ok h \<longleftrightarrow>
     (\<forall>kvs v. object_pairs_hook h kvs = Inr v \<longrightarrow> list_all (\<lambda>(k, v). dict_ok v) kvs \<longrightarrow> dict_ok v)
     \<and> (\<forall>t v. parse_constant h t = Inr v \<longrightarrow> dict_ok v)"

lemma hook_dict_okD:
  "hook_dict_ok h \<Longrightarrow> object_pairs_hook h kvs = Inr v \<Longrightarrow> list_all (\<lambda>(k, v). dict_ok v) kvs \<Longrightarrow>
     dict_ok v"
  "hook_dict_ok h \<Longrightarrow> parse_constant h t = Inr v \<Longrightarrow> dict_ok v"
  by (auto simp: hook_dict_ok_def)

lemma scan_number_dict_ok: "scan_number py s = Inr (v, r) \<Longrightarrow> dict_ok v"
  by (auto simp: scan_number_def Let_def split: option.splits prod.splits if_splits)

lemma parse_scalar_dict_ok: "hook_dict_ok h \<Longrightarrow> parse_scalar py h s = Inr (v, r) \<Longrightarrow> dict_ok v"
  by (auto simp: parse_scalar_def hook_dict_ok_def bindE_Inr split: if_splits
      dest: scan_number_dict_ok)

lemma parse_dict_ok:
  shows "hook_dict_ok h \<Longrightarrow> parse_value py h n s = Inr (v, r) \<Longrightarrow> dict_ok v"
    and "hook_dict_ok h \<Longrightarrow> parse_elems py h n s = Inr (vs, r) \<Longrightarrow> list_all dict_ok vs"
    and "hook_dict_ok h \<Longrightarrow> parse_members py h n s = Inr (kvs, r) \<Longrightarrow>
      list_all (\<lambda>(k, v). dict_ok v) kvs"
proof (induction py h n s and py h n s and py h n s arbitrary: v r and vs r and kvs r
    rule: parse_value_parse_elems_parse_members.induct)
  case (1 py h n)
  then show ?case by simp
next
  case (2 py h n c s)
  then show ?case
    by (auto simp: parse_value.simps(2) bindE_Inr
        split: if_splits nat.splits list.splits
        dest: parse_scalar_dict_ok intro: hook_dict_okD(1))
next
  case (3 py h n s)
  then show ?case
    by (subst (asm) parse_elems.simps)
       (auto simp: bindE_Inr split: if_splits sum.splits list.splits)
next
  case (4 py h n s)
  then show ?case
    by (subst (asm) parse_members.simps)
       (auto simp: bindE_Inr split: if_splits sum.splits list.splits)
qed

lemma without_duplicate_keys_ok:
  "without_duplicate_keys kvs acc = Inr v \<Longrightarrow> distinct (map fst acc) \<Longrightarrow>
     list_all (\<lambda>(k, v). dict_ok v) acc \<Longrightarrow> list_all (\<lambda>(k, v). dict_ok v) kvs \<Longrightarrow> dict_ok v"
  by (induction kvs acc rule: without_duplicate_keys.induct) (auto split: if_splits)

lemma protocol_hooks_dict_ok: "hook_dict_ok protocol_hooks"
  by (auto simp: hook_dict_ok_def protocol_hooks_def reject_constant_def
      object_without_duplicate_keys_def intro: without_duplicate_keys_ok)

lemma loads_dict_ok: "hook_dict_ok h \<Longrightarrow> loads py h t = Inr v \<Longrightarrow> dict_ok v"
  by (auto simp: loads_def bindE_Inr split: if_splits dest: parse_dict_ok(1))

lemma decode_json_Inr:
  "decode_json py w = Inr v \<longleftrightarrow>
     (\<exists>t. (w = WText t \<or> (\<exists>bs. w = WBytes bs \<and> utf8_decode bs = Some t))
        \<and> loads py protocol_hooks t = Inr v)"
proof (cases w)
  case (WText t)
  then show ?thesis by (cases "loads py protocol_hooks t") (auto simp: decode_json_def)
next
  case (WBytes bs)
  show ?thesis
  proof (cases "utf8_decode bs")
    case None
    with WBytes show ?thesis by (simp add: decode_json_def)
  next
    case (Some t)
    with WBytes show ?thesis by (cases "loads py protocol_hooks t") (auto simp: decode_json_def)
  qed
next
  case WOther
  then show ?thesis by (simp add: decode_json_def)
qed

lemma decode_json_dict_ok: "decode_json py w = Inr v \<Longrightarrow> dict_ok v"
  using loads_dict_ok [OF protocol_hooks_dict_ok] by (auto simp: decode_json_Inr)

lemma require_schema_Inr: "require_schema v names = Inr kvs \<Longrightarrow> v = PDict kvs"
  by (cases v) (auto simp: require_schema_def split: if_splits)

lemma decode_message_valid: "decode_message py w = Inr e \<Longrightarrow> valid_message py e"
proof -
  assume "decode_message py w = Inr e"
  then obtain kvs where v: "decode_json py w = Inr (PDict kvs)"
    and e: "MessageEnvelope py (dict_get kvs ''topic'') (dict_get kvs ''payload'')
      (dict_get kvs ''event_id'') (dict_get kvs ''version'') = Inr e"
    by (auto simp: decode_message_def bindE_Inr dest!: require_schema_Inr)
  from decode_json_dict_ok [OF v] have "dict_ok (dict_get kvs ''payload'')"
    by (auto simp: dict_get_def list_all_iff split: option.splits dest!: map_of_SomeD)
  with e show ?thesis
    by (auto simp: valid_message_def MessageEnvelope_def bindE_Inr validate_publish_topic_def
        validate_message_id_def validate_version_def split: pyval.splits if_splits option.splits)
qed

section \<open>Fresh message ids\<close>

lemma length_hex_text [simp]: "length (hex_text k n) = k"
  by (induction k arbitrary: n) auto

lemma hex_digit_id_char: "d < 16 \<Longrightarrow> message_id_char (hex_digit d)"
  by (auto simp: hex_digit_def message_id_char_def)

lemma hex_text_id_chars: "list_all message_id_char (hex_text k n)"
  by (induction k arbitrary: n) (auto simp: hex_digit_id_char)

lemma new_message_id_pattern: "message_id_pattern (new_message_id u)"
  by (simp add: message_id_pattern_def new_message_id_def hex_text_id_chars)

lemma hex_digit_inj: "c < 16 \<Longrightarrow> d < 16 \<Longrightarrow> hex_digit c = hex_digit d \<Longrightarrow> c = d"
  by (auto simp: hex_digit_def split: if_splits)

lemma hex_text_inj:
  "m < 16 ^ k \<Longrightarrow> n < 16 ^ k \<Longrightarrow> hex_text k m = hex_text k n \<Longrightarrow> m = n"
proof (induction k arbitrary: m n)
  case 0
  then show ?case by simp
next
  case (Suc k)
  have "m div 16 < 16 ^ k" "n div 16 < 16 ^ k"
    using Suc.prems by (auto simp: less_mult_imp_div_less mult.commute)
  with Suc have "m div 16 = n div 16" by simp
  moreover have "m mod 16 = n mod 16"
    using Suc.prems(3) by (auto intro: hex_digit_inj)
  ultimately show ?case by (metis div_mult_mod_eq)
qed

lemma new_message_id_inj: "new_message_id u = new_message_id v \<Longrightarrow> u = v"
proof -
  assume a: "new_message_id u = new_message_id v"
  have "unat u < 16 ^ 32" "unat v < 16 ^ 32"
    using unsigned_less [of u] unsigned_less [of v] by simp_all
  with a have "unat u = unat v" unfolding new_message_id_def by (intro hex_text_inj)
  then show ?thesis by (rule unsigned_word_eqI)
qed

end
