(* ===== verification/Samples.thy ===== *)
theory Samples
  imports ProtocolFacts "HOL-Library.Code_Target_Numeral"
begin

text \<open>
  Concrete values for the witnesses. \<open>sample_python\<close> is an interpreter whose floats are printed as
  the decimal number of their bit pattern; \<open>sample_message\<close> has a nested payload whose keys are
  not in order.
\<close>

definition sample_python :: python where
  "sample_python = \<lparr>float_repr = (\<lambda>w. nat_digits (unat w) @ [46, 48]),
     float_parse = (\<lambda>t. of_nat (digits_val 0 (take (length t - 2) t))),
     validate_depth = 20, dumps_depth = 20, loads_depth = 20\<rparr>"

lemma sample_python_ok [simp]: "python_ok sample_python"
proof -
  have "float_text (nat_digits n @ [46, 48])" for n
    unfolding float_text_def
    by (rule exI [of _ "[]"], rule exI [of _ "nat_digits n"], rule exI [of _ "[46, 48]"], rule exI [of _ "[]"])
       (use nat_digits_int_part [of n] in \<open>auto simp: digit_text_def is_digit_def intro!: exI [of _ "[48]"]\<close>)
  then show ?thesis by (simp add: python_ok_def sample_python_def nat_digits_val)
qed

definition sample_message :: message_envelope where
  "sample_message = \<lparr>msg_topic = ustr ''a/b'', msg_payload = PDict [(KStr (ustr ''y''), PInt 12),
     (KStr (ustr ''x''), PList [PNone, PBool True, PStr [233]])], msg_id = ustr ''m-1'', msg_version = 1\<rparr>"

lemma sample_valid [simp]: "valid_message sample_python sample_message"
proof -
  have "MessageEnvelope sample_python (PStr (msg_topic sample_message)) (msg_payload sample_message)
      (PStr (msg_id sample_message)) (PInt (msg_version sample_message)) = Inr sample_message"
    by code_simp
  moreover have "dict_ok (msg_payload sample_message)" by (simp add: sample_message_def ustr_def)
  ultimately show ?thesis by (simp add: valid_message_def)
qed

definition sample_bytes :: bytes where
  "sample_bytes = (case encode_message sample_python sample_message of Inl _ \<Rightarrow> [] | Inr b \<Rightarrow> b)"

lemma sample_encode [simp]: "encode_message sample_python sample_message = Inr sample_bytes"
proof -
  have "\<not> raised (encode_message sample_python sample_message)" by code_simp
  then show ?thesis by (cases "encode_message sample_python sample_message") (simp_all add: sample_bytes_def)
qed

end
