(* ===== verification/WireProperties.thy ===== *)
theory WireProperties
  imports Samples
begin

text \<open>
  The properties of the wire protocol: round trips, canonical form, validity of what is decoded,
  identifiers and renamed arguments.
\<close>

section \<open>Round trips\<close>

text \<open>
  C20. A message that was encoded is decoded to itself, with the keys of its payload in canonical
  order, whatever its topic, payload and id.
\<close>

theorem message_round_trip:
  assumes "python_ok py" and "valid_message py e" and "encode_message py e = Inr bs"
  shows "decode_message py (WBytes bs) = Inr (canon_message e)"
  using assms by (rule decode_encode_message)

theorem message_round_trip_witness:
  "decode_message sample_python (WBytes sample_bytes) = Inr (canon_message sample_message)"
  by (rule message_round_trip) simp_all

definition sample_delivery :: delivery_envelope where
  "sample_delivery = \<lparr>dlv_id = ustr ''m-1'', dlv_payload = PList [PNone, PInt (-7)], dlv_version = 1\<rparr>"

text \<open>C30. The same for the envelope a Relay publishes to the destination.\<close>

theorem delivery_round_trip:
  assumes "python_ok py" and "valid_delivery py e" and "encode_delivery py e = Inr bs"
  shows "decode_delivery py (WBytes bs) = Inr (e\<lparr>dlv_payload := canon (dlv_payload e)\<rparr>)"
  using assms by (rule decode_encode_delivery)

lemma sample_delivery_facts:
  "valid_delivery sample_python sample_delivery"
  "encode_delivery sample_python sample_delivery
     = Inr (map of_char ''{\"event_id\":\"m-1\",\"payload\":[null,-7],\"version\":1}'')"
proof -
  have "DeliveryEnvelope sample_python (PStr (dlv_id sample_delivery)) (dlv_payload sample_delivery)
      (PInt (dlv_version sample_delivery)) = Inr sample_delivery"
    by code_simp
  moreover have "dict_ok (dlv_payload sample_delivery)" by (simp add: sample_delivery_def)
  ultimately show "valid_delivery sample_python sample_delivery" by (simp add: valid_delivery_def)
qed code_simp

theorem delivery_round_trip_witness:
  "decode_delivery sample_python (WBytes (map of_char ''{\"event_id\":\"m-1\",\"payload\":[null,-7],\"version\":1}''))
     = Inr (sample_delivery\<lparr>dlv_payload := canon (dlv_payload sample_delivery)\<rparr>)"
  by (rule delivery_round_trip [OF sample_python_ok sample_delivery_facts])

definition sample_ack :: delivery_ack where
  "sample_ack = \<lparr>dack_id = ustr ''m-1'', dack_version = 1\<rparr>"

text \<open>C31. A DeliveryAck is decoded to itself.\<close>

theorem ack_round_trip:
  assumes "python_ok py" and "valid_ack a" and "encode_ack py a = Inr bs"
  shows "decode_ack py (WBytes bs) = Inr a"
  using assms by (rule decode_encode_ack)

lemma sample_ack_facts:
  "valid_ack sample_ack"
  "encode_ack sample_python sample_ack = Inr (map of_char ''{\"event_id\":\"m-1\",\"version\":1}'')"
  by code_simp+

theorem ack_round_trip_witness:
  "decode_ack sample_python (WBytes (map of_char ''{\"event_id\":\"m-1\",\"version\":1}'')) = Inr sample_ack"
  by (rule ack_round_trip [OF sample_python_ok sample_ack_facts])

section \<open>Decoding\<close>



text \<open>
  C33. The encoding is canonical: two valid messages have the same bytes exactly when they are the
  same message up to the order of keys, which is what the Outbox's duplicate detection relies on.
\<close>

theorem encoding_canonical:
  assumes "python_ok py" and "valid_message py a" and "valid_message py b"
    and "encode_message py a = Inr bs" and "encode_message py b = Inr cs"
  shows "bs = cs \<longleftrightarrow> canon_message a = canon_message b"
proof
  assume "bs = cs"
  then show "canon_message a = canon_message b"
    using decode_encode_message [OF assms(1,2,4)] decode_encode_message [OF assms(1,3,5)] by simp
next
  assume "canon_message a = canon_message b"
  then show "bs = cs" using encode_canon_message [OF assms(4)] encode_canon_message [OF assms(5)] by simp
qed

theorem encoding_canonical_witness:
  "sample_bytes = sample_bytes \<longleftrightarrow> canon_message sample_message = canon_message (canon_message sample_message)"
  by (rule encoding_canonical [OF sample_python_ok sample_valid valid_message_canon [OF sample_valid]
        sample_encode encode_canon_message [OF sample_encode]])

section \<open>Identifiers\<close>

text \<open>C34. A generated id is a valid message id, and different UUIDs give different ids.\<close>

theorem generated_id:
  "validate_message_id (PStr (new_message_id u)) = Inr (new_message_id u)
     \<and> (new_message_id u = new_message_id v \<longleftrightarrow> u = v)"
  using new_message_id_pattern [of u] new_message_id_inj [of u v]
  by (auto simp: validate_message_id_def)

section \<open>Renamed arguments\<close>


end
