(* ===== verification/Framing.thy ===== *)
theory Framing
  imports ProtocolFacts
begin

text \<open>
  The byte format of a segment file (\<^verbatim>\<open>src/reliomq/outbox.py\<close>): a 16-byte segment header, then
  records framed by magic, length and CRC-32. \<open>scan_records\<close> is the scanning loop of
  \<^verbatim>\<open>_scan_segment\<close>. The facts say that scanning what the writer framed gives back the
  envelopes at their offsets, and that cutting the file anywhere inside a record is noticed as a
  torn tail at the start of that record.
\<close>

section \<open>CRC-32\<close>

text \<open>\<^verbatim>\<open>zlib.crc32\<close>: the reflected polynomial, one bit at a time.\<close>

fun crc_bits :: "nat \<Rightarrow> 32 word \<Rightarrow> 32 word" where
  "crc_bits 0 c = c"
| "crc_bits (Suc k) c =
     crc_bits k (if c AND 1 = 1 then drop_bit 1 c XOR 0xEDB88320 else drop_bit 1 c)"

definition crc32 :: "bytes \<Rightarrow> 32 word" where
  "crc32 bs = foldl (\<lambda>c b. crc_bits 8 (c XOR ucast b)) 0xFFFFFFFF bs XOR 0xFFFFFFFF"

section \<open>Headers and frames\<close>

definition ascii :: "string \<Rightarrow> bytes" where
  "ascii s = map of_char s"

definition SEGMENT_MAGIC :: bytes where
  "SEGMENT_MAGIC = ascii ''RLMQSEG1''"

definition RECORD_MAGIC :: bytes where
  "RECORD_MAGIC = ascii ''MSG1''"

definition SEGMENT_HEADER_SIZE :: nat where
  "SEGMENT_HEADER_SIZE = 16"

definition RECORD_HEADER_SIZE :: nat where
  "RECORD_HEADER_SIZE = 12"

definition MAX_RECORD_BYTES :: nat where
  "MAX_RECORD_BYTES = 2 ^ 32 - 1"

definition MAX_SEGMENT_ID :: nat where
  "MAX_SEGMENT_ID = 2 ^ 64 - 1"

definition encode_segment_header :: "nat \<Rightarrow> bytes" where
  "encode_segment_header segment_id = SEGMENT_MAGIC @ be_bytes 8 segment_id"

definition encode_frame :: "bytes \<Rightarrow> py_error + bytes" where
  "encode_frame payload =
     (if length payload > MAX_RECORD_BYTES then Inl OutboxError
      else Inr (RECORD_MAGIC @ be_bytes 4 (length payload) @ be_bytes 4 (unat (crc32 payload)) @ payload))"

text \<open>\<^verbatim>\<open>Outbox.record_size\<close>.\<close>

definition record_size :: "python \<Rightarrow> message_envelope \<Rightarrow> py_error + nat" where
  "record_size py envelope =
     bindE (encode_message py envelope) (\<lambda>payload.
       if length payload > MAX_RECORD_BYTES then Inl OutboxError
       else Inr (RECORD_HEADER_SIZE + length payload))"

section \<open>Scanning\<close>

record stored =
  st_id :: pystr
  st_seg :: nat
  st_start :: nat
  st_end :: nat

text \<open>
  The loop of \<^verbatim>\<open>_scan_segment\<close> from an offset, on the bytes from there to the end of the file:
  the entries found and the offset of a torn tail, if there is one. An exception of the envelope
  decoder other than \<^verbatim>\<open>ProtocolError\<close> is not caught by the code and passes through.
\<close>

definition unpack_record_header :: "bytes \<Rightarrow> bytes \<times> nat \<times> nat" where
  "unpack_record_header raw = (take 4 raw, be_val (take 4 (drop 4 raw)), be_val (take 4 (drop 8 raw)))"

function scan_records ::
  "python \<Rightarrow> nat \<Rightarrow> nat \<Rightarrow> bytes \<Rightarrow> py_error + (stored list \<times> nat option)" where
  "scan_records py segment_id offset rest =
     (if rest = [] then Inr ([], None)
      else if length (take RECORD_HEADER_SIZE rest) \<noteq> RECORD_HEADER_SIZE then Inr ([], Some offset)
      else
        (let (magic, payload_size, expected_crc) = unpack_record_header (take RECORD_HEADER_SIZE rest);
             body = drop RECORD_HEADER_SIZE rest;
             payload = take payload_size body
         in if magic \<noteq> RECORD_MAGIC then Inl OutboxError
            else if payload_size > length body then Inr ([], Some offset)
            else if unat (crc32 payload) \<noteq> expected_crc then Inl OutboxError
            else (case decode_message py (WBytes payload) of
                    Inl e \<Rightarrow> if e = ProtocolError then Inl OutboxError else Inl e
                  | Inr envelope \<Rightarrow>
                      bindE (scan_records py segment_id (offset + RECORD_HEADER_SIZE + payload_size)
                               (drop payload_size body))
                        (\<lambda>(entries, torn_at).
                           Inr (\<lparr>st_id = msg_id envelope, st_seg = segment_id, st_start = offset,
                                  st_end = offset + RECORD_HEADER_SIZE + payload_size\<rparr> # entries,
                                torn_at)))))"
  by pat_completeness auto
termination
  by (relation "measure (\<lambda>(py, sid, off, rest). length rest)") (auto simp: RECORD_HEADER_SIZE_def)

declare scan_records.simps [simp del]

text \<open>The header check at the start of the scan.\<close>

definition check_segment_header :: "nat \<Rightarrow> bytes \<Rightarrow> py_error + unit" where
  "check_segment_header segment_id data =
     (let header = take SEGMENT_HEADER_SIZE data
      in if length header \<noteq> SEGMENT_HEADER_SIZE then Inl OutboxError
         else if take 8 header \<noteq> SEGMENT_MAGIC \<or> be_val (drop 8 header) \<noteq> segment_id
         then Inl OutboxError else Inr ())"

section \<open>Frames of valid envelopes\<close>

lemma length_ascii [simp]: "length (ascii s) = length s"
  by (simp add: ascii_def)

lemma magic_lengths [simp]: "length SEGMENT_MAGIC = 8" "length RECORD_MAGIC = 4"
  by (simp_all add: SEGMENT_MAGIC_def RECORD_MAGIC_def)

text \<open>\<open>frame_of py e f\<close>: \<open>f\<close> is the frame the writer produces for the valid envelope \<open>e\<close>.\<close>

definition frame_of :: "python \<Rightarrow> message_envelope \<Rightarrow> bytes \<Rightarrow> bool" where
  "frame_of py e f \<longleftrightarrow>
     valid_message py e \<and> (\<exists>payload. encode_message py e = Inr payload \<and> encode_frame payload = Inr f)"

lemma encode_frame_Inr:
  "encode_frame p = Inr f \<longleftrightarrow> length p \<le> MAX_RECORD_BYTES \<and>
     f = RECORD_MAGIC @ be_bytes 4 (length p) @ be_bytes 4 (unat (crc32 p)) @ p"
  by (auto simp: encode_frame_def)

lemma length_encode_frame: "encode_frame p = Inr f \<Longrightarrow> length f = RECORD_HEADER_SIZE + length p"
  by (auto simp: encode_frame_Inr RECORD_HEADER_SIZE_def)

lemma frame_of_length: "frame_of py e f \<Longrightarrow> RECORD_HEADER_SIZE \<le> length f"
  by (auto simp: frame_of_def dest: length_encode_frame)

lemma frame_of_not_Nil: "frame_of py e f \<Longrightarrow> f \<noteq> []"
  by (auto simp: frame_of_def encode_frame_Inr RECORD_MAGIC_def ascii_def)

lemma unpack_frame:
  assumes "encode_frame p = Inr f"
  shows "unpack_record_header (take RECORD_HEADER_SIZE (f @ r)) = (RECORD_MAGIC, length p, unat (crc32 p))"
proof -
  have "length p < 256 ^ 4"
    using assms by (simp add: encode_frame_Inr MAX_RECORD_BYTES_def)
  moreover have "unat (crc32 p) < 256 ^ 4"
    using unsigned_less [of "crc32 p"] by simp
  ultimately show ?thesis
    using assms by (auto simp: encode_frame_Inr unpack_record_header_def RECORD_HEADER_SIZE_def)
qed

lemma drop_frame_header:
  "encode_frame p = Inr f \<Longrightarrow> drop RECORD_HEADER_SIZE (f @ r) = p @ r"
  by (auto simp: encode_frame_Inr RECORD_HEADER_SIZE_def)

lemma scan_records_frame:
  assumes "python_ok py" and "frame_of py e f"
  shows "scan_records py sid off (f @ r) =
     bindE (scan_records py sid (off + length f) r)
       (\<lambda>(entries, torn). Inr (\<lparr>st_id = msg_id e, st_seg = sid, st_start = off,
          st_end = off + length f\<rparr> # entries, torn))"
proof -
  from assms(2) obtain p where v: "valid_message py e" and p: "encode_message py e = Inr p"
    and f: "encode_frame p = Inr f" by (auto simp: frame_of_def)
  have len: "length f = RECORD_HEADER_SIZE + length p" using f by (rule length_encode_frame)
  have dec: "decode_message py (WBytes p) = Inr (canon_message e)"
    using decode_encode_message [OF assms(1) v p] .
  have "f @ r \<noteq> []" "f \<noteq> []" using frame_of_not_Nil [OF assms(2)] by auto
  moreover have "length (take RECORD_HEADER_SIZE (f @ r)) = RECORD_HEADER_SIZE" using len by simp
  ultimately show ?thesis
    using unpack_frame [OF f, of r] drop_frame_header [OF f, of r] dec len
    by (subst scan_records.simps) (simp add: add.assoc)
qed

section \<open>Segments of frames\<close>

text \<open>The entries of a sequence of frames laid out from an offset.\<close>

fun entries_from :: "nat \<Rightarrow> nat \<Rightarrow> (message_envelope \<times> bytes) list \<Rightarrow> stored list" where
  "entries_from sid off [] = []"
| "entries_from sid off ((e, f) # efs) =
     \<lparr>st_id = msg_id e, st_seg = sid, st_start = off, st_end = off + length f\<rparr>
       # entries_from sid (off + length f) efs"

definition frames_ok :: "python \<Rightarrow> (message_envelope \<times> bytes) list \<Rightarrow> bool" where
  "frames_ok py efs \<longleftrightarrow> list_all (\<lambda>(e, f). frame_of py e f) efs"

abbreviation blob :: "(message_envelope \<times> bytes) list \<Rightarrow> bytes" where
  "blob efs \<equiv> concat (map snd efs)"

lemma frames_ok_simps [simp]:
  "frames_ok py []" "frames_ok py ((e, f) # efs) \<longleftrightarrow> frame_of py e f \<and> frames_ok py efs"
  "frames_ok py (efs @ efs') \<longleftrightarrow> frames_ok py efs \<and> frames_ok py efs'"
  by (simp_all add: frames_ok_def)

lemma entries_from_append:
  "entries_from sid off (xs @ ys) =
     entries_from sid off xs @ entries_from sid (off + length (blob xs)) ys"
  by (induction sid off xs rule: entries_from.induct) (auto simp: add.assoc)

lemma length_entries_from [simp]: "length (entries_from sid off efs) = length efs"
  by (induction sid off efs rule: entries_from.induct) auto

lemma map_id_entries_from [simp]: "map st_id (entries_from sid off efs) = map (msg_id \<circ> fst) efs"
  by (induction sid off efs rule: entries_from.induct) auto

lemma entries_from_seg: "x \<in> set (entries_from sid off efs) \<Longrightarrow> st_seg x = sid"
  by (induction sid off efs rule: entries_from.induct) auto

lemma entries_from_range:
  "x \<in> set (entries_from sid off efs) \<Longrightarrow> off \<le> st_start x \<and> st_end x \<le> off + length (blob efs)"
  by (induction sid off efs rule: entries_from.induct) fastforce+

text \<open>A strict prefix of one frame is a torn tail.\<close>

lemma scan_records_torn:
  assumes "frame_of py e f" and "k < length f"
  shows "scan_records py sid off (take k f) = Inr ([], if k = 0 then None else Some off)"
proof -
  from assms(1) obtain p where f: "encode_frame p = Inr f" by (auto simp: frame_of_def)
  have len: "length f = RECORD_HEADER_SIZE + length p" using f by (rule length_encode_frame)
  consider "k = 0" | "0 < k" "k < RECORD_HEADER_SIZE" | "RECORD_HEADER_SIZE \<le> k" by linarith
  then show ?thesis
  proof cases
    case 1
    then show ?thesis by (simp add: scan_records.simps)
  next
    case 2
    with assms(2) have "take k f \<noteq> []" by auto
    with 2 assms(2) show ?thesis by (subst scan_records.simps) (simp add: min_def)
  next
    case 3
    then have t: "take RECORD_HEADER_SIZE (take k f) = take RECORD_HEADER_SIZE (f @ [])"
      by (simp add: min_def)
    have "take k f \<noteq> []" "0 < k" using 3 assms(2) by (auto simp: RECORD_HEADER_SIZE_def)
    moreover have "length (drop RECORD_HEADER_SIZE (take k f)) < length p"
      using 3 assms(2) len by simp
    ultimately show ?thesis
      using 3 assms(2) len unpack_frame [OF f, of "[]"]
      by (subst scan_records.simps) (simp add: t min_def)
  qed
qed

lemma scan_records_blob:
  assumes "python_ok py" and "frames_ok py efs"
  shows "scan_records py sid off (blob efs @ r) =
     bindE (scan_records py sid (off + length (blob efs)) r)
       (\<lambda>(entries, torn). Inr (entries_from sid off efs @ entries, torn))"
  using assms(2)
proof (induction efs arbitrary: off)
  case Nil
  then show ?case by (cases "scan_records py sid off r") auto
next
  case (Cons ef efs)
  obtain e f where ef: "ef = (e, f)" by (cases ef)
  with Cons.prems have "frame_of py e f" "frames_ok py efs" by auto
  with scan_records_frame [OF assms(1), of e f sid off "blob efs @ r"] Cons.IH
  show ?case
    by (cases "scan_records py sid (off + length f + length (blob efs)) r")
       (auto simp: ef add.assoc split: prod.splits)
qed

text \<open>
  Cutting a sequence of frames at any byte: the complete frames before the cut, and a torn tail
  exactly when the cut is inside a frame.
\<close>

lemma cut_blob:
  "n \<le> length (blob efs) \<Longrightarrow>
     \<exists>k j. k \<le> length efs \<and> take n (blob efs) = blob (take k efs) @ j
       \<and> (j = [] \<or> (k < length efs \<and> (\<exists>m. 0 < m \<and> m < length (snd (efs ! k)) \<and> j = take m (snd (efs ! k)))))"
proof (induction efs arbitrary: n)
  case Nil
  then show ?case by simp
next
  case (Cons ef efs)
  show ?case
  proof (cases "n < length (snd ef)")
    case True
    then show ?thesis
      by (intro exI [of _ 0] exI [of _ "take n (snd ef)"]) auto
  next
    case False
    with Cons.prems Cons.IH [of "n - length (snd ef)"] have "\<exists>k j. k \<le> length efs
      \<and> take (n - length (snd ef)) (blob efs) = blob (take k efs) @ j
      \<and> (j = [] \<or> (k < length efs \<and> (\<exists>m. 0 < m \<and> m < length (snd (efs ! k)) \<and> j = take m (snd (efs ! k)))))"
      by auto
    then obtain k j where "k \<le> length efs"
      "take (n - length (snd ef)) (blob efs) = blob (take k efs) @ j"
      "j = [] \<or> (k < length efs \<and> (\<exists>m. 0 < m \<and> m < length (snd (efs ! k)) \<and> j = take m (snd (efs ! k))))"
      by blast
    with False show ?thesis
      by (intro exI [of _ "Suc k"] exI [of _ j]) auto
  qed
qed

lemma check_encoded_header:
  "sid \<le> MAX_SEGMENT_ID \<Longrightarrow> check_segment_header sid (encode_segment_header sid @ r) = Inr ()"
  by (auto simp: check_segment_header_def encode_segment_header_def SEGMENT_HEADER_SIZE_def Let_def
        MAX_SEGMENT_ID_def)

lemma length_encode_segment_header [simp]:
  "length (encode_segment_header sid) = SEGMENT_HEADER_SIZE"
  by (simp add: encode_segment_header_def SEGMENT_HEADER_SIZE_def)

end
