(* ===== verification/Disk.thy ===== *)
theory Disk
  imports Framing
begin

text \<open>
  The storage directory of an Outbox and the operating-system calls on it. A segment file has
  its contents as seen by reads and the number of leading bytes known to be on stable storage.
  Directory entries have their own durability: until a directory barrier succeeds, a crash may
  undo the creation or removal of a segment name and the replacement of the checkpoint. Every
  call consumes one outcome of a script, so a theorem about any script is about any pattern of
  I/O failures. Temporary files are not represented: their names never match what recovery
  looks for.
\<close>

section \<open>State\<close>

text \<open>
  \<open>IoErr k\<close> is a failing call, after \<open>k\<close> bytes when it is a write; \<open>IoUnsupported\<close> is the
  failure \<^verbatim>\<open>_fsync_directory\<close> tolerates (\<^verbatim>\<open>EINVAL\<close>, \<^verbatim>\<open>ENOTSUP\<close>, \<^verbatim>\<open>ENOSYS\<close>) and an ordinary
  failure of any other call.
\<close>

datatype io = IoOk | IoErr nat | IoUnsupported

record seg_file =
  contents :: bytes
  synced :: nat

text \<open>
  \<open>ckpt_maybe\<close> lists the checkpoint contents a crash may leave, \<open>segs_settled\<close> the segment
  names of the last directory barrier, \<open>seg_ghosts\<close> the segments unlinked since then.
\<close>

record disk =
  fmt_file :: "bytes option"
  ckpt_file :: "bytes option"
  seg_files :: "(nat \<times> seg_file) list"
  ckpt_maybe :: "bytes option list"
  segs_settled :: "nat list"
  seg_ghosts :: "(nat \<times> seg_file) list"
  io_script :: "io list"

section \<open>Calls\<close>

definition next_io :: "disk \<Rightarrow> io \<times> disk" where
  "next_io d = (case io_script d of [] \<Rightarrow> (IoOk, d) | i # r \<Rightarrow> (i, d\<lparr>io_script := r\<rparr>))"

text \<open>A call with no effect of its own: it succeeds or raises \<^verbatim>\<open>OSError\<close>.\<close>

definition os_call :: "(disk, unit) proc" where
  "os_call d = (case next_io d of (i, d') \<Rightarrow> (if i = IoOk then Inr () else Inl OSError, d'))"

definition settle :: "disk \<Rightarrow> disk" where
  "settle d = d\<lparr>ckpt_maybe := [ckpt_file d], segs_settled := map fst (seg_files d), seg_ghosts := []\<rparr>"

definition fsync_directory :: "(disk, unit) proc" where
  "fsync_directory d =
     (case next_io d of (i, d') \<Rightarrow>
        (case i of IoOk \<Rightarrow> (Inr (), settle d') | IoUnsupported \<Rightarrow> (Inr (), d')
         | IoErr _ \<Rightarrow> (Inl OSError, d')))"

definition lookup_seg :: "nat \<Rightarrow> disk \<Rightarrow> seg_file option" where
  "lookup_seg sid d = map_of (seg_files d) sid"

definition update_seg :: "nat \<Rightarrow> seg_file \<Rightarrow> disk \<Rightarrow> disk" where
  "update_seg sid f d = d\<lparr>seg_files := AList.update sid f (seg_files d)\<rparr>"

text \<open>\<^verbatim>\<open>os.fsync\<close> on a segment: everything in the file is on stable storage.\<close>

definition fsync_seg :: "nat \<Rightarrow> (disk, unit) proc" where
  "fsync_seg sid d =
     (case lookup_seg sid d of
        None \<Rightarrow> (Inl OSError, d)
      | Some f \<Rightarrow>
          andThen os_call (\<lambda>_ d'. (Inr (), update_seg sid (f\<lparr>synced := length (contents f)\<rparr>) d')) d)"

definition truncate_seg :: "nat \<Rightarrow> nat \<Rightarrow> (disk, unit) proc" where
  "truncate_seg sid n d =
     (case lookup_seg sid d of
        None \<Rightarrow> (Inl OSError, d)
      | Some f \<Rightarrow>
          andThen os_call (\<lambda>_ d'. (Inr (), update_seg sid
            (f\<lparr>contents := take n (contents f), synced := min (synced f) n\<rparr>) d')) d)"

text \<open>A write at the end of a segment: a failing one leaves part of the data behind.\<close>

definition write_seg :: "nat \<Rightarrow> bytes \<Rightarrow> (disk, unit) proc" where
  "write_seg sid b d =
     (case lookup_seg sid d of
        None \<Rightarrow> (Inl OSError, d)
      | Some f \<Rightarrow>
          (case next_io d of (i, d') \<Rightarrow>
             (case i of
                IoOk \<Rightarrow> (Inr (), update_seg sid (f\<lparr>contents := contents f @ b\<rparr>) d')
              | IoErr k \<Rightarrow> (Inl OSError, update_seg sid (f\<lparr>contents := contents f @ take k b\<rparr>) d')
              | IoUnsupported \<Rightarrow> (Inl OSError, d'))))"

text \<open>\<^verbatim>\<open>mkstemp\<close>, write and flush, fsync of a temporary file.\<close>

definition write_temporary :: "(disk, unit) proc" where
  "write_temporary = andThen os_call (\<lambda>_. andThen os_call (\<lambda>_. os_call))"

definition unlink_seg :: "nat \<Rightarrow> (disk, unit) proc" where
  "unlink_seg sid d =
     (case lookup_seg sid d of
        None \<Rightarrow> (Inr (), d)
      | Some f \<Rightarrow>
          andThen os_call (\<lambda>_ d'. (Inr (), d'\<lparr>seg_files := AList.delete sid (seg_files d'),
            seg_ghosts := (sid, f) # seg_ghosts d'\<rparr>)) d)"

section \<open>What the calls leave alone\<close>

lemma next_io_frame:
  "next_io d = (i, d') \<Longrightarrow> seg_files d' = seg_files d \<and> ckpt_file d' = ckpt_file d
     \<and> fmt_file d' = fmt_file d \<and> ckpt_maybe d' = ckpt_maybe d \<and> segs_settled d' = segs_settled d
     \<and> seg_ghosts d' = seg_ghosts d"
  by (auto simp: next_io_def split: list.splits)

text \<open>\<open>same_store d d'\<close>: nothing but the script of outcomes and the directory barrier moved.\<close>

definition same_store :: "disk \<Rightarrow> disk \<Rightarrow> bool" where
  "same_store d d' \<longleftrightarrow> seg_files d' = seg_files d \<and> ckpt_file d' = ckpt_file d
     \<and> fmt_file d' = fmt_file d"

lemma same_store_refl [simp]: "same_store d d"
  by (simp add: same_store_def)

lemma same_store_trans: "same_store a b \<Longrightarrow> same_store b c \<Longrightarrow> same_store a c"
  by (simp add: same_store_def)

lemma os_call_same: "os_call d = (r, d') \<Longrightarrow> same_store d d'"
  by (auto simp: os_call_def same_store_def dest: next_io_frame split: prod.splits)

lemma fsync_directory_same: "fsync_directory d = (r, d') \<Longrightarrow> same_store d d'"
  by (auto simp: fsync_directory_def same_store_def settle_def dest: next_io_frame
      split: prod.splits io.splits)

lemma write_temporary_same: "write_temporary d = (r, d') \<Longrightarrow> same_store d d'"
  by (auto simp: write_temporary_def andThen_def split: prod.splits sum.splits
      dest!: os_call_same intro: same_store_trans)

lemma same_store_lookup: "same_store d d' \<Longrightarrow> lookup_seg sid d' = lookup_seg sid d"
  by (simp add: same_store_def lookup_seg_def)

lemma lookup_update_seg [simp]:
  "lookup_seg sid (update_seg sid' f d) = (if sid = sid' then Some f else lookup_seg sid d)"
  by (simp add: lookup_seg_def update_seg_def update_conv')

lemma update_seg_other [simp]:
  "ckpt_file (update_seg sid f d) = ckpt_file d" "fmt_file (update_seg sid f d) = fmt_file d"
  by (simp_all add: update_seg_def)

end
