(* ===== verification/Outbox.thy ===== *)
theory Outbox
  imports Disk
begin

text \<open>
  The segmented Outbox (\<^verbatim>\<open>src/reliomq/outbox.py\<close>): its runtime state, reading, appending with
  rotation, the head cursor, its checkpoint and the removal of consumed segments. The class's
  lock serialises the methods, so each is one function on the state; the directory is a field
  of the state, and a raised exception leaves the state it had reached.
\<close>

section \<open>State\<close>

record segment =
  byte_size :: nat
  record_count :: nat

record cursor =
  cur_seg :: nat
  cur_off :: nat

record append_result =
  appended_count :: nat
  bytes_written :: nat
  rotated :: bool

record outbox =
  segment_max_bytes :: nat
  segment_max_records :: nat
  segments :: "(nat \<times> segment) list"
  pending :: "stored list"
  pending_by_id :: "pystr \<Rightarrow> stored option"
  volatile_completed_ids :: "pystr set"
  volatile_cursor :: cursor
  checkpoint_cursor :: cursor
  checkpoint_generation :: nat
  checkpoint_needs_rewrite :: bool
  data_sync_pending :: bool
  data_sync_generation :: nat
  disk :: disk

type_synonym 'a ob_proc = "(outbox, 'a) proc"

text \<open>A call on the directory; its \<^verbatim>\<open>OSError\<close> becomes an \<^verbatim>\<open>OutboxError\<close>.\<close>

definition on_disk :: "(disk, 'a) proc \<Rightarrow> 'a ob_proc" where
  "on_disk m ob =
     (case m (disk ob) of (r, d) \<Rightarrow>
        (case r of Inl e \<Rightarrow> Inl (if e = OSError then OutboxError else e) | Inr x \<Rightarrow> Inr x,
         ob\<lparr>disk := d\<rparr>))"

definition require :: "bool \<Rightarrow> py_error \<Rightarrow> 'a ob_proc \<Rightarrow> 'a ob_proc" where
  "require c e m = (if c then m else throw e)"

definition get_state :: "outbox ob_proc" where
  "get_state ob = (Inr ob, ob)"

definition modify :: "(outbox \<Rightarrow> outbox) \<Rightarrow> unit ob_proc" where
  "modify f ob = (Inr (), f ob)"

text \<open>\<^verbatim>\<open>_active_segment_locked\<close>: the highest numbered segment.\<close>

definition max_key :: "(nat \<times> 'a) list \<Rightarrow> nat" where
  "max_key al = foldr max (map fst al) 0"

definition active_id :: "outbox \<Rightarrow> nat" where
  "active_id ob = max_key (segments ob)"

definition active_segment :: "outbox \<Rightarrow> segment" where
  "active_segment ob = (case map_of (segments ob) (active_id ob) of
     Some s \<Rightarrow> s | None \<Rightarrow> \<lparr>byte_size = 0, record_count = 0\<rparr>)"

definition cursor_end :: "outbox \<Rightarrow> cursor" where
  "cursor_end ob = \<lparr>cur_seg = active_id ob, cur_off = byte_size (active_segment ob)\<rparr>"

section \<open>Reading\<close>

definition read_envelope_locked :: "python \<Rightarrow> stored \<Rightarrow> message_envelope ob_proc" where
  "read_envelope_locked py item =
     andThen (on_disk os_call) (\<lambda>_ ob.
       case lookup_seg (st_seg item) (disk ob) of
         None \<Rightarrow> throw OutboxError ob
       | Some f \<Rightarrow>
           (let n = st_end item - st_start item;
                raw = take n (drop (st_start item) (contents f));
                (magic, size, crc) = unpack_record_header (take RECORD_HEADER_SIZE raw);
                payload = drop RECORD_HEADER_SIZE raw
            in if length raw \<noteq> n then throw OutboxError ob
               else if length (take RECORD_HEADER_SIZE raw) \<noteq> RECORD_HEADER_SIZE
               then throw OutboxError ob
               else if magic \<noteq> RECORD_MAGIC \<or> size \<noteq> length payload \<or> unat (crc32 payload) \<noteq> crc
               then throw OutboxError ob
               else (case decode_message py (WBytes payload) of
                       Inl e \<Rightarrow> throw (if e = ProtocolError then OutboxError else e) ob
                     | Inr envelope \<Rightarrow>
                         if msg_id envelope \<noteq> st_id item then throw OutboxError ob
                         else ret envelope ob)))"

fun read_all :: "python \<Rightarrow> stored list \<Rightarrow> message_envelope list ob_proc" where
  "read_all py [] = ret []"
| "read_all py (x # xs) =
     andThen (read_envelope_locked py x) (\<lambda>e. andThen (read_all py xs) (\<lambda>es. ret (e # es)))"

definition outbox_load :: "python \<Rightarrow> message_envelope list ob_proc" where
  "outbox_load py = andThen get_state (\<lambda>ob. read_all py (pending ob))"

definition pending_ids :: "outbox \<Rightarrow> pystr list" where
  "pending_ids ob = map st_id (pending ob)"

definition outbox_get :: "python \<Rightarrow> pystr \<Rightarrow> message_envelope option ob_proc" where
  "outbox_get py message_id =
     andThen (lift_pure (validate_message_id (PStr message_id))) (\<lambda>_ ob.
       case pending_by_id ob message_id of
         None \<Rightarrow> ret None ob
       | Some item \<Rightarrow> andThen (read_envelope_locked py item) (\<lambda>e. ret (Some e)) ob)"

definition peek_oldest :: "python \<Rightarrow> message_envelope option ob_proc" where
  "peek_oldest py ob =
     (case pending ob of
        [] \<Rightarrow> ret None ob
      | x # _ \<Rightarrow> andThen (read_envelope_locked py x) (\<lambda>e. ret (Some e)) ob)"

definition outbox_size :: "outbox \<Rightarrow> nat" where
  "outbox_size ob = length (pending ob)"

definition outbox_contains :: "pyval \<Rightarrow> outbox \<Rightarrow> py_error + bool" where
  "outbox_contains message_id ob =
     bindE (validate_message_id message_id) (\<lambda>m. Inr (pending_by_id ob m \<noteq> None))"

section \<open>Data sync\<close>

definition sync_data_locked :: "unit ob_proc" where
  "sync_data_locked ob =
     (if \<not> data_sync_pending ob then ret () ob
      else andThen (on_disk os_call) (\<lambda>_.
             andThen (on_disk (fsync_seg (active_id ob))) (\<lambda>_.
               modify (\<lambda>s. s\<lparr>data_sync_pending := False,
                 data_sync_generation := Suc (data_sync_generation s)\<rparr>))) ob)"

definition outbox_sync :: "unit ob_proc" where
  "outbox_sync = sync_data_locked"

section \<open>Rotation\<close>

definition would_rotate_locked :: "outbox \<Rightarrow> nat \<Rightarrow> bool" where
  "would_rotate_locked ob frame_size =
     (let s = active_segment ob
      in if record_count s = 0 then False
         else record_count s \<ge> segment_max_records ob
              \<or> byte_size s + frame_size > segment_max_bytes ob)"

text \<open>The new segment file appears by renaming a synced temporary, then the directory is synced.\<close>

definition install_segment_file :: "nat \<Rightarrow> (disk, unit) proc" where
  "install_segment_file sid =
     andThen write_temporary (\<lambda>_. andThen os_call (\<lambda>_ d.
       fsync_directory (update_seg sid \<lparr>contents = encode_segment_header sid,
         synced = SEGMENT_HEADER_SIZE\<rparr> d)))"

definition rotate_locked :: "unit ob_proc" where
  "rotate_locked =
     andThen sync_data_locked (\<lambda>_ ob.
       let next_id = active_id ob + 1 in
       if next_id > MAX_SEGMENT_ID then throw OutboxError ob
       else if lookup_seg next_id (disk ob) \<noteq> None then throw OutboxError ob
       else andThen (on_disk (install_segment_file next_id)) (\<lambda>_.
              modify (\<lambda>s.
                let s' = s\<lparr>segments := AList.update next_id
                           \<lparr>byte_size = SEGMENT_HEADER_SIZE, record_count = 0\<rparr> (segments s)\<rparr>
                in if pending s' = []
                   then s'\<lparr>volatile_cursor := \<lparr>cur_seg = next_id, cur_off = SEGMENT_HEADER_SIZE\<rparr>\<rparr>
                   else s')) ob)"

section \<open>The checkpoint\<close>

definition cursor_after_oldest_locked :: "outbox \<Rightarrow> cursor" where
  "cursor_after_oldest_locked ob =
     (case pending ob of
        _ # following # _ \<Rightarrow> \<lparr>cur_seg = st_seg following, cur_off = st_start following\<rparr>
      | _ \<Rightarrow> cursor_end ob)"

definition normalized_volatile_cursor_locked :: "outbox \<Rightarrow> cursor" where
  "normalized_volatile_cursor_locked ob =
     (case pending ob of
        head # _ \<Rightarrow> \<lparr>cur_seg = st_seg head, cur_off = st_start head\<rparr>
      | [] \<Rightarrow> cursor_end ob)"

definition canonical_json :: "python \<Rightarrow> pyval \<Rightarrow> py_error + bytes" where
  "canonical_json py value =
     (case dumps py value of
        Inl _ \<Rightarrow> Inl OutboxError
      | Inr t \<Rightarrow> (case utf8_encode t of None \<Rightarrow> Inl OutboxError | Some bs \<Rightarrow> Inr bs))"

definition checkpoint_text :: "python \<Rightarrow> nat \<Rightarrow> cursor \<Rightarrow> py_error + bytes" where
  "checkpoint_text py generation c =
     bindE (canonical_json py (PDict
       [(KStr (ustr ''version''), PInt 1),
        (KStr (ustr ''generation''), PInt (int generation)),
        (KStr (ustr ''segment_id''), PInt (int (cur_seg c))),
        (KStr (ustr ''byte_offset''), PInt (int (cur_off c)))]))
       (\<lambda>bs. Inr (bs @ [10]))"

definition install_checkpoint_file :: "bytes \<Rightarrow> (disk, unit) proc" where
  "install_checkpoint_file encoded =
     andThen write_temporary (\<lambda>_. andThen os_call (\<lambda>_ d.
       fsync_directory (d\<lparr>ckpt_file := Some encoded, ckpt_maybe := Some encoded # ckpt_maybe d\<rparr>)))"

definition persist_checkpoint_locked :: "python \<Rightarrow> cursor \<Rightarrow> unit ob_proc" where
  "persist_checkpoint_locked py c ob =
     (let generation = checkpoint_generation ob + 1
      in andThen (lift_pure (checkpoint_text py generation c)) (\<lambda>encoded.
           andThen (on_disk (install_checkpoint_file encoded)) (\<lambda>_.
             modify (\<lambda>s. s\<lparr>checkpoint_generation := generation,
               checkpoint_needs_rewrite := False\<rparr>))) ob)"

text \<open>
  Removal of the segments before the persisted cursor, oldest first. A failing \<^verbatim>\<open>unlink\<close> keeps its
  segment, and no failure is raised: the checkpoint is already safe.
\<close>

fun unlink_each :: "nat list \<Rightarrow> outbox \<Rightarrow> bool \<times> outbox" where
  "unlink_each [] ob = (False, ob)"
| "unlink_each (sid # sids) ob =
     (case unlink_seg sid (disk ob) of
        (Inl _, d) \<Rightarrow> unlink_each sids (ob\<lparr>disk := d\<rparr>)
      | (Inr _, d) \<Rightarrow>
          (True, snd (unlink_each sids (ob\<lparr>disk := d, segments := AList.delete sid (segments ob)\<rparr>))))"

definition cleanup_completed_segments_locked :: "outbox \<Rightarrow> outbox" where
  "cleanup_completed_segments_locked ob =
     (let removable = filter (\<lambda>sid. sid < cur_seg (checkpoint_cursor ob) \<and> sid < active_id ob)
                        (sort (map fst (segments ob)));
          (removed_any, ob') = unlink_each removable ob
      in if removed_any then ob'\<lparr>disk := snd (fsync_directory (disk ob'))\<rparr> else ob')"

definition checkpoint :: "python \<Rightarrow> unit ob_proc" where
  "checkpoint py =
     andThen sync_data_locked (\<lambda>_ ob.
       let c = normalized_volatile_cursor_locked ob in
       andThen (if c \<noteq> checkpoint_cursor ob \<or> checkpoint_needs_rewrite ob
                then andThen (persist_checkpoint_locked py c)
                       (\<lambda>_. modify (\<lambda>s. s\<lparr>checkpoint_cursor := c\<rparr>))
                else ret ())
         (\<lambda>_. modify (\<lambda>s. cleanup_completed_segments_locked
            (s\<lparr>volatile_cursor := c, volatile_completed_ids := {}\<rparr>))) ob)"

definition completed_closed_segment_pending :: "outbox \<Rightarrow> bool" where
  "completed_closed_segment_pending ob =
     list_ex (\<lambda>sid. sid < cur_seg (normalized_volatile_cursor_locked ob) \<and> sid < active_id ob)
       (map fst (segments ob))"

section \<open>Removing the head\<close>

definition pop_head :: "cursor \<Rightarrow> bool \<Rightarrow> pystr \<Rightarrow> outbox \<Rightarrow> outbox" where
  "pop_head c sync mid ob =
     (case pending ob of
        [] \<Rightarrow> ob
      | removed # rest \<Rightarrow>
          (let ob' = ob\<lparr>pending := rest,
                        pending_by_id := (pending_by_id ob)(st_id removed := None),
                        volatile_cursor := c\<rparr>
           in if sync
              then cleanup_completed_segments_locked
                     (ob'\<lparr>checkpoint_cursor := c, volatile_completed_ids := {}\<rparr>)
              else ob'\<lparr>volatile_completed_ids := insert mid (volatile_completed_ids ob')\<rparr>))"

definition remove_oldest :: "python \<Rightarrow> message_envelope \<Rightarrow> bool \<Rightarrow> bool ob_proc" where
  "remove_oldest py expected sync =
     andThen (lift_pure (encode_message py expected)) (\<lambda>expected_bytes ob.
       case pending ob of
         [] \<Rightarrow> ret False ob
       | oldest # _ \<Rightarrow>
           if st_id oldest \<noteq> msg_id expected then ret False ob
           else andThen (read_envelope_locked py oldest) (\<lambda>e.
                  andThen (lift_pure (encode_message py e)) (\<lambda>b ob'.
                    if b \<noteq> expected_bytes then ret False ob'
                    else let next_cursor = cursor_after_oldest_locked ob' in
                      andThen (if sync then andThen sync_data_locked
                                              (\<lambda>_. persist_checkpoint_locked py next_cursor)
                               else ret ())
                        (\<lambda>_. andThen (modify (pop_head next_cursor sync (msg_id expected)))
                           (\<lambda>_. ret True)) ob')) ob)"

section \<open>Appending\<close>

text \<open>
  The first loop of \<^verbatim>\<open>_append_many_locked\<close>: every envelope is encoded and snapshotted, exact
  repetitions inside the batch or of a pending message are skipped, and a reused id with
  different content raises.
\<close>

fun prepare_batch ::
  "python \<Rightarrow> message_envelope list \<Rightarrow> (pystr \<Rightarrow> bytes option) \<Rightarrow> (message_envelope \<times> bytes) list ob_proc"
where
  "prepare_batch py [] batch_by_id = ret []"
| "prepare_batch py (e # es) batch_by_id =
     andThen (lift_pure (encode_message py e)) (\<lambda>encoded.
     andThen (lift_pure (decode_message py (WBytes encoded))) (\<lambda>snapshot.
       (case batch_by_id (msg_id e) of
          Some earlier \<Rightarrow>
            if earlier \<noteq> encoded then throw OutboxError else prepare_batch py es batch_by_id
        | None \<Rightarrow>
            andThen get_state (\<lambda>ob.
              case pending_by_id ob (msg_id e) of
                Some existing \<Rightarrow>
                  andThen (read_envelope_locked py existing) (\<lambda>x.
                  andThen (lift_pure (encode_message py x)) (\<lambda>b.
                    if b \<noteq> encoded then throw OutboxError
                    else prepare_batch py es (batch_by_id(msg_id e \<mapsto> encoded))))
              | None \<Rightarrow>
                  andThen (lift_pure (encode_frame encoded)) (\<lambda>frame.
                  andThen (prepare_batch py es (batch_by_id(msg_id e \<mapsto> encoded))) (\<lambda>rest.
                    ret ((snapshot, frame) # rest)))))))"

text \<open>
  The choice of a chunk, with the segment's free records and bytes as Python integers (they may
  be negative): an oversized envelope is accepted alone.
\<close>

fun choose_chunk ::
  "int \<Rightarrow> int \<Rightarrow> nat \<Rightarrow> int \<Rightarrow> (message_envelope \<times> bytes) list \<Rightarrow> (message_envelope \<times> bytes) list"
where
  "choose_chunk available_records available_bytes n chunk_bytes [] = []"
| "choose_chunk available_records available_bytes n chunk_bytes ((e, frame) # r) =
     (let frame_size = int (length frame) in
      if n \<noteq> 0 \<and> (int n \<ge> available_records \<or> chunk_bytes + frame_size > available_bytes) then []
      else if n = 0 \<and> frame_size > available_bytes then [(e, frame)]
      else if int n \<ge> available_records \<or> chunk_bytes + frame_size > available_bytes then []
      else (e, frame) # choose_chunk available_records available_bytes (Suc n)
                          (chunk_bytes + frame_size) r)"

text \<open>The file part of \<^verbatim>\<open>_write_chunk_locked\<close>: on a failed write or fsync the file is cut back.\<close>

definition write_chunk_file :: "nat \<Rightarrow> nat \<Rightarrow> bytes \<Rightarrow> bool \<Rightarrow> (disk, unit) proc" where
  "write_chunk_file sid original_size data sync =
     andThen os_call (\<lambda>_ d.
       case lookup_seg sid d of
         None \<Rightarrow> throw OSError d
       | Some f \<Rightarrow>
           if length (contents f) \<noteq> original_size then throw OutboxError d
           else (case andThen (write_seg sid data) (\<lambda>_. if sync then fsync_seg sid else ret ()) d of
                   (Inr _, d') \<Rightarrow> (Inr (), d')
                 | (Inl e, d') \<Rightarrow>
                     (Inl e, snd (andThen (truncate_seg sid original_size)
                                    (\<lambda>_. if sync then fsync_seg sid else ret ()) d'))))"

definition record_chunk :: "(message_envelope \<times> bytes) list \<Rightarrow> bool \<Rightarrow> outbox \<Rightarrow> outbox" where
  "record_chunk chunk sync ob =
     (let sid = active_id ob; s = active_segment ob;
          items = entries_from sid (byte_size s) chunk
      in ob\<lparr>pending := pending ob @ items,
            pending_by_id := foldl (\<lambda>m x. m(st_id x \<mapsto> x)) (pending_by_id ob) items,
            segments := AList.update sid
              \<lparr>byte_size = byte_size s + length (blob chunk),
                record_count = record_count s + length chunk\<rparr> (segments ob),
            data_sync_pending := \<not> sync,
            data_sync_generation := (if sync then Suc (data_sync_generation ob)
                                     else data_sync_generation ob)\<rparr>)"

definition write_chunk_locked :: "(message_envelope \<times> bytes) list \<Rightarrow> bool \<Rightarrow> unit ob_proc" where
  "write_chunk_locked chunk sync ob =
     andThen (on_disk (write_chunk_file (active_id ob) (byte_size (active_segment ob)) (blob chunk) sync))
       (\<lambda>_. modify (record_chunk chunk sync)) ob"

text \<open>
  The second loop. Each turn takes at least one record or rotates to an empty segment, so twice
  the number of records plus one is enough fuel; the fuel's end is never reached from a state
  with positive limits (lemma \<open>append_loop_effect\<close>).
\<close>

definition rotate_if_needed :: "nat \<Rightarrow> bool ob_proc" where
  "rotate_if_needed frame_size ob =
     (if would_rotate_locked ob frame_size then andThen rotate_locked (\<lambda>_. ret True) ob
      else ret False ob)"

definition next_chunk :: "outbox \<Rightarrow> (message_envelope \<times> bytes) list \<Rightarrow> (message_envelope \<times> bytes) list" where
  "next_chunk ob remaining =
     choose_chunk (int (segment_max_records ob) - int (record_count (active_segment ob)))
       (int (segment_max_bytes ob) - int (byte_size (active_segment ob))) 0 0 remaining"

fun append_loop ::
  "nat \<Rightarrow> bool \<Rightarrow> (message_envelope \<times> bytes) list \<Rightarrow> append_result \<Rightarrow> append_result ob_proc"
where
  "append_loop 0 sync remaining res = throw RuntimeError"
| "append_loop (Suc fuel) sync remaining res =
     (if remaining = [] then ret res
      else andThen (rotate_if_needed (length (snd (hd remaining)))) (\<lambda>r1.
           andThen get_state (\<lambda>ob.
             let chunk = next_chunk ob remaining; more = drop (length chunk) remaining;
                 res1 = res\<lparr>rotated := rotated res \<or> r1\<rparr>
             in if chunk = [] then
                  andThen rotate_locked (\<lambda>_. append_loop fuel sync remaining (res1\<lparr>rotated := True\<rparr>))
                else
                  andThen (write_chunk_locked chunk (sync \<or> more \<noteq> [])) (\<lambda>_.
                    let res2 = res1\<lparr>appended_count := appended_count res1 + length chunk,
                                    bytes_written := bytes_written res1 + length (blob chunk)\<rparr>
                    in if more \<noteq> [] then
                         andThen rotate_locked (\<lambda>_. append_loop fuel sync more (res2\<lparr>rotated := True\<rparr>))
                       else append_loop fuel sync more res2))))"

definition no_append :: append_result where
  "no_append = \<lparr>appended_count = 0, bytes_written = 0, rotated = False\<rparr>"

definition append_many_locked ::
  "python \<Rightarrow> message_envelope list \<Rightarrow> bool \<Rightarrow> append_result ob_proc" where
  "append_many_locked py batch sync =
     (if batch = [] then
        andThen (if sync then sync_data_locked else ret ()) (\<lambda>_. ret no_append)
      else
        andThen (\<lambda>ob. if list_ex (\<lambda>e. msg_id e \<in> volatile_completed_ids ob) batch
                      then checkpoint py ob else ret () ob) (\<lambda>_.
        andThen (prepare_batch py batch Map.empty) (\<lambda>unique_new.
          if unique_new = [] then
            andThen (if sync then sync_data_locked else ret ()) (\<lambda>_. ret no_append)
          else append_loop (2 * length unique_new + 1) sync unique_new no_append)))"

definition append_many :: "python \<Rightarrow> message_envelope list \<Rightarrow> bool \<Rightarrow> append_result ob_proc" where
  "append_many py envelopes sync = append_many_locked py envelopes sync"

definition outbox_append :: "python \<Rightarrow> message_envelope \<Rightarrow> bool \<Rightarrow> bool ob_proc" where
  "outbox_append py envelope sync ob =
     (if pending_by_id ob (msg_id envelope) \<noteq> None then ret False ob
      else andThen (append_many_locked py [envelope] sync) (\<lambda>res. ret (appended_count res = 1)) ob)"

definition compact :: "python \<Rightarrow> unit ob_proc" where
  "compact py = checkpoint py"

end
