(* ===== verification/OutboxOpen.thy ===== *)
theory OutboxOpen
  imports Outbox
begin

text \<open>
  Opening an existing storage directory (\<^verbatim>\<open>Outbox.__init__\<close> and its helpers in
  \<^verbatim>\<open>src/reliomq/outbox.py\<close>): checking the format file, scanning the segments with the repair of a
  torn tail, and reading the checkpoint conservatively. Choosing and creating the directory is in
  theory Storage.
\<close>

section \<open>Metadata files\<close>

text \<open>\<^verbatim>\<open>json.loads\<close> without hooks: later duplicates win, the constants are floats.\<close>

definition default_hooks :: json_hooks where
  "default_hooks =
     \<lparr>object_pairs_hook = (\<lambda>kvs. Inr (PDict (foldl (\<lambda>al (k, v). AList.update (KStr k) v al) [] kvs))),
      parse_constant = (\<lambda>name. Inr (PFloat
        (if name = ustr ''NaN'' then 0x7FF8000000000000
         else if name = ustr ''Infinity'' then 0x7FF0000000000000 else 0xFFF0000000000000)))\<rparr>"

definition read_metadata :: "python \<Rightarrow> bytes \<Rightarrow> py_error + pyval" where
  "read_metadata py bs =
     (case utf8_decode bs of None \<Rightarrow> Inl UnicodeError | Some t \<Rightarrow> loads py default_hooks t)"

text \<open>\<^verbatim>\<open>value == 1\<close> in Python, where \<^verbatim>\<open>True == 1 == 1.0\<close>.\<close>

definition equals_one :: "pyval \<Rightarrow> bool" where
  "equals_one v = (case v of PInt i \<Rightarrow> i = 1 | PBool b \<Rightarrow> b | PFloat w \<Rightarrow> w = 0x3FF0000000000000 | _ \<Rightarrow> False)"

definition same_keys :: "(pykey \<times> pyval) list \<Rightarrow> string list \<Rightarrow> bool" where
  "same_keys kvs names \<longleftrightarrow> set (map fst kvs) = set (map (KStr \<circ> ustr) names)"

definition FORMAT_NAME :: pystr where
  "FORMAT_NAME = ustr ''reliomq-segmented-outbox''"

definition supported_format :: "pyval \<Rightarrow> bool" where
  "supported_format v =
     (case v of
        PDict kvs \<Rightarrow> same_keys kvs [''format'', ''version'']
          \<and> dict_get kvs ''format'' = PStr FORMAT_NAME \<and> equals_one (dict_get kvs ''version'')
      | _ \<Rightarrow> False)"

definition validate_format_file :: "python \<Rightarrow> unit ob_proc" where
  "validate_format_file py =
     andThen (on_disk os_call) (\<lambda>_ ob.
       case fmt_file (disk ob) of
         None \<Rightarrow> throw OutboxError ob
       | Some bs \<Rightarrow>
           (case read_metadata py bs of
              Inl e \<Rightarrow> throw (if e = UnicodeError \<or> e = JSONDecodeError then OutboxError else e) ob
            | Inr value \<Rightarrow> if supported_format value then ret () ob else throw OutboxError ob))"

text \<open>The checkpoint's schema: exactly four keys, an integer version and naturals.\<close>

definition natural_int :: "pyval \<Rightarrow> py_error + nat" where
  "natural_int v = (case v of PInt i \<Rightarrow> if i < 0 then Inl ValueError else Inr (nat i) | _ \<Rightarrow> Inl ValueError)"

definition parse_checkpoint :: "python \<Rightarrow> bytes \<Rightarrow> py_error + (nat \<times> cursor)" where
  "parse_checkpoint py bs =
     bindE (read_metadata py bs) (\<lambda>value.
       case value of
         PDict kvs \<Rightarrow>
           if \<not> same_keys kvs [''version'', ''generation'', ''segment_id'', ''byte_offset'']
           then Inl ValueError
           else if dict_get kvs ''version'' \<noteq> PInt 1 then Inl ValueError
           else bindE (natural_int (dict_get kvs ''generation'')) (\<lambda>g.
                bindE (natural_int (dict_get kvs ''segment_id'')) (\<lambda>s.
                bindE (natural_int (dict_get kvs ''byte_offset'')) (\<lambda>b.
                  Inr (g, \<lparr>cur_seg = s, cur_off = b\<rparr>))))
       | _ \<Rightarrow> Inl ValueError)"

definition min_key :: "(nat \<times> 'a) list \<Rightarrow> nat" where
  "min_key al = foldr min (map fst al) (fst (hd al))"

definition earliest_cursor :: "outbox \<Rightarrow> cursor" where
  "earliest_cursor ob = \<lparr>cur_seg = min_key (segments ob), cur_off = SEGMENT_HEADER_SIZE\<rparr>"

definition replay_from_earliest :: "cursor ob_proc" where
  "replay_from_earliest ob =
     ret (earliest_cursor ob) (ob\<lparr>checkpoint_generation := 0, checkpoint_needs_rewrite := True\<rparr>)"

definition read_checkpoint_conservatively :: "python \<Rightarrow> cursor ob_proc" where
  "read_checkpoint_conservatively py =
     andThen (on_disk os_call) (\<lambda>_ ob.
       case ckpt_file (disk ob) of
         None \<Rightarrow> replay_from_earliest ob
       | Some bs \<Rightarrow>
           (case parse_checkpoint py bs of
              Inr (g, c) \<Rightarrow> ret c (ob\<lparr>checkpoint_generation := g, checkpoint_needs_rewrite := False\<rparr>)
            | Inl e \<Rightarrow>
                if e = UnicodeError \<or> e = JSONDecodeError \<or> e = ValueError
                then replay_from_earliest ob else throw e ob))"

section \<open>Scanning the segments\<close>

definition repair_torn_tail :: "nat \<Rightarrow> nat \<Rightarrow> (disk, unit) proc" where
  "repair_torn_tail sid torn_at = andThen (truncate_seg sid torn_at) (\<lambda>_. fsync_seg sid)"

definition scan_segment :: "python \<Rightarrow> nat \<Rightarrow> bool \<Rightarrow> (segment \<times> stored list) ob_proc" where
  "scan_segment py sid active =
     andThen (on_disk os_call) (\<lambda>_ ob.
       case lookup_seg sid (disk ob) of
         None \<Rightarrow> throw OutboxError ob
       | Some f \<Rightarrow>
           (case bindE (check_segment_header sid (contents f))
                   (\<lambda>_. scan_records py sid SEGMENT_HEADER_SIZE (drop SEGMENT_HEADER_SIZE (contents f))) of
              Inl e \<Rightarrow> throw e ob
            | Inr (entries, None) \<Rightarrow>
                andThen (on_disk os_call) (\<lambda>_.
                  ret (\<lparr>byte_size = length (contents f), record_count = length entries\<rparr>, entries)) ob
            | Inr (entries, Some torn_at) \<Rightarrow>
                if \<not> active then throw OutboxError ob
                else andThen (on_disk (repair_torn_tail sid torn_at)) (\<lambda>_.
                       ret (\<lparr>byte_size = torn_at, record_count = length entries\<rparr>, entries)) ob))"

fun scan_all :: "python \<Rightarrow> nat \<Rightarrow> nat list \<Rightarrow> stored list ob_proc" where
  "scan_all py active [] = ret []"
| "scan_all py active (sid # sids) =
     andThen (scan_segment py sid (sid = active)) (\<lambda>(s, entries) ob.
       if sid \<in> set (map fst (segments ob)) then throw OutboxError ob
       else andThen (modify (\<lambda>ob. ob\<lparr>segments := AList.update sid s (segments ob)\<rparr>)) (\<lambda>_.
              andThen (scan_all py active sids) (\<lambda>more. ret (entries @ more))) ob)"

text \<open>The offsets of a segment the checkpoint may name.\<close>

definition boundaries :: "outbox \<Rightarrow> stored list \<Rightarrow> nat \<Rightarrow> nat set" where
  "boundaries ob entries sid =
     {SEGMENT_HEADER_SIZE} \<union> set (map (byte_size \<circ> snd) (filter (\<lambda>kv. fst kv = sid) (segments ob)))
     \<union> set (concat (map (\<lambda>x. [st_start x, st_end x]) (filter (\<lambda>x. st_seg x = sid) entries)))"

definition checkpoint_known :: "outbox \<Rightarrow> stored list \<Rightarrow> cursor \<Rightarrow> bool" where
  "checkpoint_known ob entries c \<longleftrightarrow>
     cur_seg c \<in> set (map fst (segments ob)) \<and> cur_off c \<in> boundaries ob entries (cur_seg c)"

text \<open>The surviving segments from the checkpoint on have consecutive numbers.\<close>

fun consecutive :: "nat list \<Rightarrow> bool" where
  "consecutive (a # b # r) \<longleftrightarrow> b = a + 1 \<and> consecutive (b # r)"
| "consecutive _ \<longleftrightarrow> True"

definition no_gap :: "outbox \<Rightarrow> cursor \<Rightarrow> bool" where
  "no_gap ob c =
     (let surviving = sort (filter (\<lambda>sid. cur_seg c \<le> sid) (map fst (segments ob)))
      in surviving \<noteq> [] \<and> hd surviving = cur_seg c \<and> consecutive surviving)"

definition at_or_after :: "cursor \<Rightarrow> stored \<Rightarrow> bool" where
  "at_or_after c x \<longleftrightarrow>
     st_seg x > cur_seg c \<or> (st_seg x = cur_seg c \<and> st_start x \<ge> cur_off c)"

definition index_pending :: "stored list \<Rightarrow> pystr \<Rightarrow> stored option" where
  "index_pending items = foldl (\<lambda>m x. m(st_id x \<mapsto> x)) Map.empty items"

definition segment_ids :: "disk \<Rightarrow> nat list" where
  "segment_ids d = sort (map fst (seg_files d))"

text \<open>The last part of the load: the records from the head on become the queue.\<close>

definition adopt_pending :: "stored list \<Rightarrow> cursor \<Rightarrow> unit ob_proc" where
  "adopt_pending entries c ob =
     (let pend = filter (at_or_after c) entries in
      if \<not> no_gap ob c then throw OutboxError ob
      else if \<not> distinct (map st_id pend) then throw OutboxError ob
      else modify (\<lambda>ob. let ob' = ob\<lparr>pending := pend, pending_by_id := index_pending pend,
                                     checkpoint_cursor := c\<rparr>
                        in ob'\<lparr>volatile_cursor := normalized_volatile_cursor_locked ob',
                               volatile_completed_ids := {}, data_sync_pending := False\<rparr>) ob)"

definition load_segmented_storage :: "python \<Rightarrow> unit ob_proc" where
  "load_segmented_storage py =
     andThen (validate_format_file py) (\<lambda>_.
     andThen (on_disk os_call) (\<lambda>_ ob.
       let ids = segment_ids (disk ob) in
       if list_ex (\<lambda>sid. sid = 0 \<or> sid > MAX_SEGMENT_ID) ids then throw OutboxError ob
       else if ids = [] then throw OutboxError ob
       else
         andThen (scan_all py (last ids) ids) (\<lambda>entries.
         andThen (read_checkpoint_conservatively py) (\<lambda>read_cursor ob.
           andThen (if checkpoint_known ob entries read_cursor then ret read_cursor
                    else replay_from_earliest)
             (adopt_pending entries) ob)) ob))"

section \<open>Opening an existing storage directory\<close>

definition new_outbox :: "nat \<Rightarrow> nat \<Rightarrow> disk \<Rightarrow> outbox" where
  "new_outbox max_bytes max_records d =
     \<lparr>segment_max_bytes = max_bytes, segment_max_records = max_records, segments = [], pending = [],
      pending_by_id = Map.empty, volatile_completed_ids = {},
      volatile_cursor = \<lparr>cur_seg = 1, cur_off = SEGMENT_HEADER_SIZE\<rparr>,
      checkpoint_cursor = \<lparr>cur_seg = 1, cur_off = SEGMENT_HEADER_SIZE\<rparr>,
      checkpoint_generation = 0, checkpoint_needs_rewrite = False,
      data_sync_pending = False, data_sync_generation = 0, disk = d\<rparr>"

text \<open>The barrier on a directory above the storage directory has no effect on the storage.\<close>

definition fsync_ancestor :: "(disk, unit) proc" where
  "fsync_ancestor d =
     (case next_io d of (i, d') \<Rightarrow> (case i of IoErr _ \<Rightarrow> Inl OSError | _ \<Rightarrow> Inr (), d'))"

fun fsync_ancestors :: "nat \<Rightarrow> (disk, unit) proc" where
  "fsync_ancestors 0 = ret ()"
| "fsync_ancestors (Suc n) = andThen fsync_ancestor (\<lambda>_. fsync_ancestors n)"

text \<open>The body of \<^verbatim>\<open>__init__\<close> after the directory is chosen; \<open>depth\<close> is its number of parents.\<close>

definition open_storage :: "python \<Rightarrow> nat \<Rightarrow> unit ob_proc" where
  "open_storage py depth =
     andThen (load_segmented_storage py) (\<lambda>_.
     andThen (modify (\<lambda>ob. ob\<lparr>data_sync_pending := record_count (active_segment ob) > 0\<rparr>)) (\<lambda>_.
     andThen sync_data_locked (\<lambda>_.
     andThen (on_disk fsync_directory) (\<lambda>_. on_disk (fsync_ancestors depth)))))"

definition outbox_open :: "python \<Rightarrow> nat \<Rightarrow> nat \<Rightarrow> nat \<Rightarrow> disk \<Rightarrow> (py_error + outbox) \<times> disk" where
  "outbox_open py depth max_bytes max_records d =
     (case open_storage py depth (new_outbox max_bytes max_records d) of
        (Inl e, ob) \<Rightarrow> (Inl e, disk ob) | (Inr _, ob) \<Rightarrow> (Inr ob, disk ob))"

end
