(* ===== verification/OutboxInv.thy ===== *)
theory OutboxInv
  imports OutboxOpen "HOL-Library.Sublist"
begin

text \<open>
  The representation invariant of an Outbox. A layout is the list of its segments, oldest first,
  each with the envelopes framed in it; the segment files hold these frames, the index in memory
  holds their offsets, and a cursor splits them into consumed and pending records.
\<close>

section \<open>Layouts\<close>

type_synonym frames = "(message_envelope \<times> bytes) list"
type_synonym layout = "(nat \<times> frames) list"

definition seg_size :: "frames \<Rightarrow> nat" where
  "seg_size efs = SEGMENT_HEADER_SIZE + length (blob efs)"

definition seg_items :: "nat \<Rightarrow> nat \<Rightarrow> frames \<Rightarrow> (stored \<times> message_envelope) list" where
  "seg_items sid off efs = zip (entries_from sid off efs) (map (canon_message \<circ> fst) efs)"

definition items :: "layout \<Rightarrow> (stored \<times> message_envelope) list" where
  "items lay = concat (map (\<lambda>(sid, efs). seg_items sid SEGMENT_HEADER_SIZE efs) lay)"

definition segment_index :: "layout \<Rightarrow> (nat \<times> segment) list" where
  "segment_index lay =
     map (\<lambda>(sid, efs). (sid, \<lparr>byte_size = seg_size efs, record_count = length efs\<rparr>)) lay"

definition layout_ok :: "python \<Rightarrow> layout \<Rightarrow> bool" where
  "layout_ok py lay \<longleftrightarrow> lay \<noteq> [] \<and> sorted_wrt (<) (map fst lay)
     \<and> (\<forall>(sid, efs) \<in> set lay. 0 < sid \<and> sid \<le> MAX_SEGMENT_ID \<and> frames_ok py efs)"

definition boundary :: "layout \<Rightarrow> cursor \<Rightarrow> bool" where
  "boundary lay c \<longleftrightarrow> (\<exists>efs k. (cur_seg c, efs) \<in> set lay \<and> k \<le> length efs
     \<and> cur_off c = SEGMENT_HEADER_SIZE + length (blob (take k efs)))"

definition after :: "cursor \<Rightarrow> layout \<Rightarrow> (stored \<times> message_envelope) list" where
  "after c lay = filter (at_or_after c \<circ> fst) (items lay)"

definition position :: "stored \<Rightarrow> cursor" where
  "position x = \<lparr>cur_seg = st_seg x, cur_off = st_start x\<rparr>"

definition end_of :: "layout \<Rightarrow> cursor" where
  "end_of lay = \<lparr>cur_seg = fst (last lay), cur_off = seg_size (snd (last lay))\<rparr>"

definition cursor_le :: "cursor \<Rightarrow> cursor \<Rightarrow> bool" where
  "cursor_le a b \<longleftrightarrow> cur_seg a < cur_seg b \<or> (cur_seg a = cur_seg b \<and> cur_off a \<le> cur_off b)"

lemma cursor_le_refl [simp]: "cursor_le a a"
  by (simp add: cursor_le_def)

lemma cursor_le_trans: "cursor_le a b \<Longrightarrow> cursor_le b c \<Longrightarrow> cursor_le a c"
  by (auto simp: cursor_le_def)

lemma items_simps [simp]:
  "items [] = []" "items ((sid, efs) # lay) = seg_items sid SEGMENT_HEADER_SIZE efs @ items lay"
  "items (lay @ lay') = items lay @ items lay'"
  by (simp_all add: items_def)

lemma length_seg_items [simp]: "length (seg_items sid off efs) = length efs"
  by (simp add: seg_items_def)

lemma seg_items_Nil [simp]: "seg_items sid off [] = []"
  by (simp add: seg_items_def)

lemma seg_items_Cons [simp]:
  "seg_items sid off ((e, f) # efs) =
     (\<lparr>st_id = msg_id e, st_seg = sid, st_start = off, st_end = off + length f\<rparr>, canon_message e)
       # seg_items sid (off + length f) efs"
  by (simp add: seg_items_def)

lemma seg_items_append:
  "seg_items sid off (xs @ ys) = seg_items sid off xs @ seg_items sid (off + length (blob xs)) ys"
  by (induction xs arbitrary: off) (auto simp: add.assoc)

lemma fst_seg_items: "map fst (seg_items sid off efs) = entries_from sid off efs"
  by (simp add: seg_items_def)

lemma fst_items: "map fst (items lay) = concat (map (\<lambda>(sid, efs). entries_from sid SEGMENT_HEADER_SIZE efs) lay)"
  by (induction lay) (auto simp: fst_seg_items)

text \<open>An item of a segment comes from one of its frames.\<close>

lemma seg_itemsD:
  "(x, e) \<in> set (seg_items sid off efs) \<Longrightarrow>
     \<exists>pre e' f post. efs = pre @ (e', f) # post \<and> e = canon_message e' \<and> st_id x = msg_id e'
       \<and> st_seg x = sid \<and> st_start x = off + length (blob pre)
       \<and> st_end x = off + length (blob pre) + length f"
proof (induction efs arbitrary: off)
  case Nil
  then show ?case by simp
next
  case (Cons ef efs)
  obtain a b where ef: "ef = (a, b)" by (cases ef)
  show ?case
  proof (cases "(x, e) \<in> set (seg_items sid (off + length b) efs)")
    case True
    from Cons.IH [OF this] obtain pre e' f post where "efs = pre @ (e', f) # post" "e = canon_message e'"
      "st_id x = msg_id e'" "st_seg x = sid" "st_start x = off + length b + length (blob pre)"
      "st_end x = off + length b + length (blob pre) + length f" by blast
    then show ?thesis using ef
      by (intro exI [of _ "(a, b) # pre"] exI [of _ e'] exI [of _ f] exI [of _ post]) (simp add: ef)
  next
    case False
    with Cons.prems ef show ?thesis by (intro exI [of _ "[]"]) auto
  qed
qed

lemma itemsD:
  "(x, e) \<in> set (items lay) \<Longrightarrow>
     \<exists>efs. (st_seg x, efs) \<in> set lay \<and> (x, e) \<in> set (seg_items (st_seg x) SEGMENT_HEADER_SIZE efs)"
proof (induction lay)
  case Nil
  then show ?case by simp
next
  case (Cons sefs lay)
  obtain s efs where sefs: "sefs = (s, efs)" by (cases sefs)
  show ?case
  proof (cases "(x, e) \<in> set (items lay)")
    case True
    with Cons.IH show ?thesis by auto
  next
    case False
    with Cons.prems sefs have "(x, e) \<in> set (seg_items s SEGMENT_HEADER_SIZE efs)" by simp
    moreover from seg_itemsD [OF this] have "st_seg x = s" by auto
    ultimately show ?thesis using sefs by auto
  qed
qed

section \<open>Order\<close>

definition precedes :: "stored \<Rightarrow> stored \<Rightarrow> bool" where
  "precedes x y \<longleftrightarrow> st_seg x < st_seg y \<or> (st_seg x = st_seg y \<and> st_start x < st_start y)"

lemma at_or_after_position: "at_or_after (position x) y \<longleftrightarrow> \<not> precedes y x"
  by (auto simp: at_or_after_def position_def precedes_def)

lemma at_or_after_mono: "at_or_after c x \<Longrightarrow> precedes x y \<Longrightarrow> at_or_after c y"
  by (auto simp: at_or_after_def precedes_def)

lemma at_or_after_le: "cursor_le c c' \<Longrightarrow> at_or_after c' x \<Longrightarrow> at_or_after c x"
  by (auto simp: at_or_after_def cursor_le_def)

lemma seg_items_sorted:
  "frames_ok py efs \<Longrightarrow> sorted_wrt (\<lambda>a b. precedes (fst a) (fst b)) (seg_items sid off efs)"
proof (induction efs arbitrary: off)
  case Nil
  then show ?case by simp
next
  case (Cons ef efs)
  obtain e f where ef: "ef = (e, f)" by (cases ef)
  with Cons.prems have "f \<noteq> []" using frame_of_not_Nil by fastforce
  then have "off < st_start x \<and> st_seg x = sid" if "(x, m) \<in> set (seg_items sid (off + length f) efs)" for x m
    using seg_itemsD [OF that] by auto
  with Cons ef show ?case by (fastforce simp: precedes_def)
qed

lemma items_sorted:
  "sorted_wrt (<) (map fst lay) \<Longrightarrow> \<forall>(sid, efs) \<in> set lay. frames_ok py efs \<Longrightarrow>
     sorted_wrt (\<lambda>a b. precedes (fst a) (fst b)) (items lay)"
proof (induction lay)
  case Nil
  then show ?case by simp
next
  case (Cons sefs lay)
  obtain s efs where sefs: "sefs = (s, efs)" by (cases sefs)
  have "precedes x y" if x: "(x, a) \<in> set (seg_items s SEGMENT_HEADER_SIZE efs)"
    and y: "(y, b) \<in> set (items lay)" for x a y b
  proof -
    from itemsD [OF y] Cons.prems(1) sefs have "s < st_seg y" by force
    moreover from seg_itemsD [OF x] have "st_seg x = s" by auto
    ultimately show ?thesis by (simp add: precedes_def)
  qed
  with Cons sefs seg_items_sorted [of py efs s SEGMENT_HEADER_SIZE] show ?case
    by (auto simp: sorted_wrt_append)
qed

lemma layout_sorted: "layout_ok py lay \<Longrightarrow> sorted_wrt (\<lambda>a b. precedes (fst a) (fst b)) (items lay)"
  by (rule items_sorted [of _ py]) (auto simp: layout_ok_def)

text \<open>Filtering a sorted list by an upward closed predicate keeps a suffix of it.\<close>

lemma filter_upward:
  "sorted_wrt R xs \<Longrightarrow> (\<And>x y. P x \<Longrightarrow> R x y \<Longrightarrow> P y) \<Longrightarrow>
     \<exists>zs. xs = zs @ filter P xs \<and> (\<forall>z \<in> set zs. \<not> P z)"
proof (induction xs)
  case Nil
  then show ?case by simp
next
  case (Cons x xs)
  show ?case
  proof (cases "P x")
    case True
    with Cons.prems have "\<forall>y \<in> set xs. P y" by auto
    with True show ?thesis by (intro exI [of _ "[]"]) (simp add: filter_id_conv)
  next
    case False
    from Cons.prems have "sorted_wrt R xs" by simp
    then have "\<exists>zs. xs = zs @ filter P xs \<and> (\<forall>z \<in> set zs. \<not> P z)"
      by (rule Cons.IH) (rule Cons.prems(2))
    then obtain zs where "xs = zs @ filter P xs" "\<forall>z \<in> set zs. \<not> P z" by blast
    with False show ?thesis by (intro exI [of _ "x # zs"]) auto
  qed
qed

lemma after_suffix:
  assumes "layout_ok py lay"
  shows "\<exists>zs. items lay = zs @ after c lay \<and> (\<forall>z \<in> set zs. \<not> at_or_after c (fst z))"
  using filter_upward [OF layout_sorted [OF assms], of "at_or_after c \<circ> fst"] at_or_after_mono
  by (fastforce simp: after_def)

text \<open>A cursor at a record keeps exactly that record and the later ones.\<close>

lemma after_position:
  assumes ok: "layout_ok py lay" and s: "after c lay = xs @ (x, e) # ys"
  shows "after (position x) lay = (x, e) # ys"
proof -
  from after_suffix [OF ok] obtain zs where "items lay = zs @ after c lay" by blast
  with s have i: "items lay = (zs @ xs) @ (x, e) # ys" by simp
  from layout_sorted [OF ok] i have
    "\<forall>a \<in> set (zs @ xs). precedes (fst a) x" "\<forall>a \<in> set ys. precedes x (fst a)"
    by (auto simp: sorted_wrt_append)
  then have "filter (at_or_after (position x) \<circ> fst) (zs @ xs) = []"
    "filter (at_or_after (position x) \<circ> fst) ys = ys"
    by (auto simp: filter_empty_conv filter_id_conv at_or_after_position precedes_def)
  with i show ?thesis by (auto simp: after_def at_or_after_position precedes_def)
qed

lemma position_boundary: "(x, e) \<in> set (items lay) \<Longrightarrow> boundary lay (position x)"
proof -
  assume "(x, e) \<in> set (items lay)"
  from itemsD [OF this] obtain efs where "(st_seg x, efs) \<in> set lay"
    "(x, e) \<in> set (seg_items (st_seg x) SEGMENT_HEADER_SIZE efs)" by blast
  moreover from seg_itemsD [OF this(2)] obtain pre ef post where "efs = pre @ ef # post"
    "st_start x = SEGMENT_HEADER_SIZE + length (blob pre)" by auto
  ultimately show ?thesis
    unfolding boundary_def position_def by (intro exI [of _ efs] exI [of _ "length pre"]) simp
qed

lemma blob_take_le: "length (blob (take k efs)) \<le> length (blob efs)"
  by (metis append_take_drop_id concat_append le_add1 length_append map_append)

lemma boundary_le_size:
  "boundary lay c \<Longrightarrow> \<exists>efs. (cur_seg c, efs) \<in> set lay \<and> cur_off c \<le> seg_size efs"
  unfolding boundary_def seg_size_def using blob_take_le by (metis add_left_mono)

lemma end_boundary: "lay \<noteq> [] \<Longrightarrow> boundary lay (end_of lay)"
  unfolding boundary_def end_of_def seg_size_def
  by (intro exI [of _ "snd (last lay)"] exI [of _ "length (snd (last lay))"]) simp

text \<open>The last segment of a layout.\<close>

lemma layout_cases:
  assumes "layout_ok py lay"
  obtains front sid efs where "lay = front @ [(sid, efs)]" "\<forall>(s, _) \<in> set front. s < sid"
    "0 < sid" "sid \<le> MAX_SEGMENT_ID" "frames_ok py efs" "fst (last lay) = sid" "snd (last lay) = efs"
proof -
  from assms have "lay \<noteq> []" by (simp add: layout_ok_def)
  then obtain front sid efs where lay: "lay = front @ [(sid, efs)]"
    by (metis append_butlast_last_id surj_pair)
  moreover from assms lay have "\<forall>(s, _) \<in> set front. s < sid"
    by (auto simp: layout_ok_def sorted_wrt_append)
  ultimately show ?thesis using that assms by (auto simp: layout_ok_def)
qed

lemma layout_unique:
  "layout_ok py lay \<Longrightarrow> (s, a) \<in> set lay \<Longrightarrow> (s, b) \<in> set lay \<Longrightarrow> a = b"
  using eq_key_imp_eq_value [of lay s a b] by (simp add: layout_ok_def strict_sorted_iff)

lemma boundary_le_end:
  assumes "layout_ok py lay" and "boundary lay c"
  shows "cursor_le c (end_of lay)"
proof -
  from layout_cases [OF assms(1)] obtain front sid efs where lay: "lay = front @ [(sid, efs)]"
    and lt: "\<forall>(s, _) \<in> set front. s < sid" by metis
  from boundary_le_size [OF assms(2)] obtain efs' where c: "(cur_seg c, efs') \<in> set lay"
    "cur_off c \<le> seg_size efs'" by blast
  then show ?thesis
    using lay lt by (auto simp: cursor_le_def end_of_def)
qed

lemma after_end:
  assumes "layout_ok py lay"
  shows "after (end_of lay) lay = []"
proof -
  have "\<not> at_or_after (end_of lay) x" if "(x, e) \<in> set (items lay)" for x e
  proof -
    from itemsD [OF that] obtain efs where s: "(st_seg x, efs) \<in> set lay"
      "(x, e) \<in> set (seg_items (st_seg x) SEGMENT_HEADER_SIZE efs)" by blast
    from seg_itemsD [OF s(2)] obtain pre e' f post where f: "efs = pre @ (e', f) # post"
      "st_start x = SEGMENT_HEADER_SIZE + length (blob pre)" by auto
    from s(1) assms f(1) have "frame_of py e' f" by (auto simp: layout_ok_def)
    then have "f \<noteq> []" by (rule frame_of_not_Nil)
    then have lt: "st_start x < seg_size efs" using f by (simp add: seg_size_def)
    from layout_cases [OF assms] obtain front sid efs' where lay: "lay = front @ [(sid, efs')]"
      "\<forall>(s, _) \<in> set front. s < sid" by metis
    with s(1) lt show ?thesis by (auto simp: at_or_after_def end_of_def)
  qed
  then show ?thesis by (auto simp: after_def filter_empty_conv)
qed

end
