(* ===== verification/OutboxOps.thy ===== *)
theory OutboxOps
  imports OutboxInv
begin

text \<open>
  The invariant of an Outbox and what each of its operations does to the queue it stands for,
  for every pattern of I/O failures: \<open>outbox_inv\<close> is what every operation keeps, whether it
  returns or raises; \<open>durable_inv\<close> is what the operations that return keep and what recovery
  after a crash rests on.
\<close>

section \<open>Calls that only consume an outcome\<close>

definition quiet :: "disk \<Rightarrow> disk \<Rightarrow> bool" where
  "quiet d d' \<longleftrightarrow> (\<exists>n. d' = d\<lparr>io_script := drop n (io_script d)\<rparr>)"

lemma quiet_refl [simp]: "quiet d d"
  unfolding quiet_def by (intro exI [of _ 0]) simp

lemma quiet_trans: "quiet a b \<Longrightarrow> quiet b c \<Longrightarrow> quiet a c"
proof -
  assume "quiet a b" "quiet b c"
  then obtain m n where "b = a\<lparr>io_script := drop m (io_script a)\<rparr>" "c = b\<lparr>io_script := drop n (io_script b)\<rparr>"
    by (auto simp: quiet_def)
  then show ?thesis unfolding quiet_def by (intro exI [of _ "n + m"]) simp
qed

lemma next_io_quiet: "next_io d = (i, d') \<Longrightarrow> quiet d d'"
  unfolding quiet_def next_io_def
  by (cases "io_script d") (auto intro: exI [of _ 0] exI [of _ 1])

lemma os_call_quiet: "os_call d = (r, d') \<Longrightarrow> quiet d d' \<and> (r = Inr () \<or> r = Inl OSError)"
  by (auto simp: os_call_def dest: next_io_quiet split: prod.splits if_splits)

lemma write_temporary_quiet:
  "write_temporary d = (r, d') \<Longrightarrow> quiet d d' \<and> (r = Inr () \<or> r = Inl OSError)"
  by (auto simp: write_temporary_def andThen_def split: prod.splits sum.splits
      dest!: os_call_quiet intro: quiet_trans)

lemma quiet_fields:
  "quiet d d' \<Longrightarrow> fmt_file d' = fmt_file d" "quiet d d' \<Longrightarrow> ckpt_file d' = ckpt_file d"
  "quiet d d' \<Longrightarrow> seg_files d' = seg_files d" "quiet d d' \<Longrightarrow> ckpt_maybe d' = ckpt_maybe d"
  "quiet d d' \<Longrightarrow> segs_settled d' = segs_settled d" "quiet d d' \<Longrightarrow> seg_ghosts d' = seg_ghosts d"
  "quiet d d' \<Longrightarrow> set (io_script d') \<subseteq> set (io_script d)"
  by (auto simp: quiet_def dest: in_set_dropD)

lemma quiet_lookup: "quiet d d' \<Longrightarrow> lookup_seg sid d' = lookup_seg sid d"
  by (simp add: lookup_seg_def quiet_fields)

lemma no_script_calls:
  "io_script d = [] \<Longrightarrow> next_io d = (IoOk, d)" "io_script d = [] \<Longrightarrow> os_call d = (Inr (), d)"
  by (simp_all add: next_io_def os_call_def)

lemma on_disk_eq:
  "m (disk ob) = (r, d') \<Longrightarrow>
     on_disk m ob = (case r of Inl e \<Rightarrow> Inl (if e = OSError then OutboxError else e) | Inr x \<Rightarrow> Inr x,
       ob\<lparr>disk := d'\<rparr>)"
  by (simp add: on_disk_def)

lemma on_disk_cases:
  assumes "on_disk m ob = (r, ob')"
  obtains r' d' where "m (disk ob) = (r', d')" "ob' = ob\<lparr>disk := d'\<rparr>"
    "r = (case r' of Inl e \<Rightarrow> Inl (if e = OSError then OutboxError else e) | Inr x \<Rightarrow> Inr x)"
  using assms by (cases "m (disk ob)") (auto simp: on_disk_def)

lemma disk_update_same [simp]: "ob\<lparr>disk := disk ob\<rparr> = ob"
  by simp

section \<open>The invariants\<close>

definition seg_holds :: "disk \<Rightarrow> nat \<Rightarrow> frames \<Rightarrow> bool" where
  "seg_holds d sid efs \<longleftrightarrow>
     (\<exists>f. lookup_seg sid d = Some f \<and> synced f \<le> length (contents f)
        \<and> take (seg_size efs) (contents f) = encode_segment_header sid @ blob efs)"

definition disk_inv :: "layout \<Rightarrow> disk \<Rightarrow> bool" where
  "disk_inv lay d \<longleftrightarrow> (\<forall>(sid, efs) \<in> set lay. seg_holds d sid efs)"

definition ids_after :: "cursor \<Rightarrow> layout \<Rightarrow> pystr list" where
  "ids_after c lay = map (st_id \<circ> fst) (after c lay)"

text \<open>
  Acknowledged records the checkpoint has not passed yet lie between the two cursors; their ids
  are \<open>volatile_completed_ids\<close>, and no id occurs twice from the checkpoint on.
\<close>

definition memory_inv :: "python \<Rightarrow> layout \<Rightarrow> outbox \<Rightarrow> bool" where
  "memory_inv py lay ob \<longleftrightarrow>
     0 < segment_max_bytes ob \<and> 0 < segment_max_records ob
     \<and> layout_ok py lay \<and> segments ob = segment_index lay
     \<and> boundary lay (volatile_cursor ob) \<and> boundary lay (checkpoint_cursor ob)
     \<and> cursor_le (checkpoint_cursor ob) (volatile_cursor ob)
     \<and> pending ob = map fst (after (volatile_cursor ob) lay)
     \<and> pending_by_id ob = index_pending (pending ob)
     \<and> distinct (ids_after (checkpoint_cursor ob) lay)
     \<and> (\<forall>(x, e) \<in> set (after (checkpoint_cursor ob) lay).
          at_or_after (volatile_cursor ob) x \<or> st_id x \<in> volatile_completed_ids ob)
     \<and> consecutive (filter (\<lambda>s. cur_seg (checkpoint_cursor ob) \<le> s) (map fst lay))"

definition outbox_inv :: "python \<Rightarrow> layout \<Rightarrow> outbox \<Rightarrow> bool" where
  "outbox_inv py lay ob \<longleftrightarrow> memory_inv py lay ob \<and> disk_inv lay (disk ob)"

text \<open>What \<^verbatim>\<open>load\<close> returns when no call of the operating system fails.\<close>

definition queue :: "python \<Rightarrow> outbox \<Rightarrow> message_envelope list" where
  "queue py ob =
     (case outbox_load py (ob\<lparr>disk := (disk ob)\<lparr>io_script := []\<rparr>\<rparr>) of (Inr q, _) \<Rightarrow> q | _ \<Rightarrow> [])"

definition contents_of :: "layout \<Rightarrow> outbox \<Rightarrow> message_envelope list" where
  "contents_of lay ob = map snd (after (volatile_cursor ob) lay)"

lemma disk_inv_quiet: "disk_inv lay d \<Longrightarrow> quiet d d' \<Longrightarrow> disk_inv lay d'"
  by (simp add: disk_inv_def seg_holds_def quiet_lookup)

lemma memory_inv_disk [simp]: "memory_inv py lay (ob\<lparr>disk := d\<rparr>) = memory_inv py lay ob"
  by (simp add: memory_inv_def)

lemma outbox_inv_quiet:
  "outbox_inv py lay ob \<Longrightarrow> quiet (disk ob) d' \<Longrightarrow> outbox_inv py lay (ob\<lparr>disk := d'\<rparr>)"
  by (auto simp: outbox_inv_def intro: disk_inv_quiet)

section \<open>Reading\<close>

lemma take_drop_take: "n + k \<le> m \<Longrightarrow> take k (drop n (take m xs)) = take k (drop n xs)"
  by (simp add: drop_take)

lemma seg_holds_record:
  assumes "seg_holds d sid efs" and "efs = pre @ (e, f) # post"
  shows "\<exists>sf. lookup_seg sid d = Some sf
    \<and> take (length f) (drop (SEGMENT_HEADER_SIZE + length (blob pre)) (contents sf)) = f"
proof -
  from assms(1) obtain sf where sf: "lookup_seg sid d = Some sf"
    "take (seg_size efs) (contents sf) = encode_segment_header sid @ blob efs"
    by (auto simp: seg_holds_def)
  have "take (length f) (drop (SEGMENT_HEADER_SIZE + length (blob pre)) (contents sf))
      = take (length f) (drop (SEGMENT_HEADER_SIZE + length (blob pre)) (take (seg_size efs) (contents sf)))"
    by (rule take_drop_take [symmetric]) (simp add: seg_size_def assms(2))
  also have "\<dots> = f" unfolding sf(2) by (simp add: assms(2))
  finally show ?thesis using sf(1) by blast
qed

text \<open>\<open>reading ob v res\<close>: the result of an operation that reads \<open>v\<close> or fails, changing nothing.\<close>

definition reading :: "outbox \<Rightarrow> 'a \<Rightarrow> (py_error + 'a) \<times> outbox \<Rightarrow> bool" where
  "reading ob v res \<longleftrightarrow>
     (\<exists>d'. quiet (disk ob) d' \<and> snd res = ob\<lparr>disk := d'\<rparr>)
     \<and> (fst res = Inr v \<or> fst res = Inl OutboxError)
     \<and> (io_script (disk ob) = [] \<longrightarrow> fst res = Inr v)"

lemma reading_ret: "reading ob v (ret v ob)"
  by (auto simp: reading_def intro: exI [of _ "disk ob"])

lemma quiet_no_calls: "quiet d d' \<Longrightarrow> io_script d = [] \<Longrightarrow> d' = d"
  by (auto simp: quiet_def)

lemma reading_andThen:
  assumes m: "reading ob v (m ob)"
    and f: "\<And>d. quiet (disk ob) d \<Longrightarrow> reading (ob\<lparr>disk := d\<rparr>) w (f v (ob\<lparr>disk := d\<rparr>))"
  shows "reading ob w (andThen m f ob)"
proof -
  from m obtain d where d: "quiet (disk ob) d" "snd (m ob) = ob\<lparr>disk := d\<rparr>" by (auto simp: reading_def)
  from f [OF d(1)] obtain d' where d': "quiet d d'" "snd (f v (ob\<lparr>disk := d\<rparr>)) = ob\<lparr>disk := d'\<rparr>"
    by (auto simp: reading_def)
  have script: "io_script d = []" if "io_script (disk ob) = []"
    using that quiet_no_calls [OF d(1)] by simp
  show ?thesis
  proof (cases "fst (m ob)")
    case (Inl a)
    then have "andThen m f ob = (Inl a, ob\<lparr>disk := d\<rparr>)"
      by (intro andThen_Inl) (simp add: prod_eq_iff d(2))
    with m Inl d(1) show ?thesis by (auto simp: reading_def)
  next
    case (Inr a)
    with m have "m ob = (Inr v, ob\<lparr>disk := d\<rparr>)" by (auto simp: reading_def prod_eq_iff d(2))
    then have "andThen m f ob = f v (ob\<lparr>disk := d\<rparr>)" by (rule andThen_Inr)
    with f [OF d(1)] quiet_trans [OF d(1) d'(1)] d'(2) script show ?thesis by (auto simp: reading_def)
  qed
qed

lemma reading_map:
  "reading ob v (m ob) \<Longrightarrow> reading ob (g v) (andThen m (\<lambda>x. ret (g x)) ob)"
  by (rule reading_andThen) (auto intro: reading_ret simp del: ret_apply)

lemma read_envelope:
  assumes py: "python_ok py" and inv: "outbox_inv py lay ob" and x: "(x, e) \<in> set (items lay)"
  shows "reading ob e (read_envelope_locked py x ob)"
proof -
  from itemsD [OF x] obtain efs where s: "(st_seg x, efs) \<in> set lay"
    "(x, e) \<in> set (seg_items (st_seg x) SEGMENT_HEADER_SIZE efs)" by blast
  from seg_itemsD [OF s(2)] obtain pre e' f post where efs: "efs = pre @ (e', f) # post"
    and e: "e = canon_message e'" "st_id x = msg_id e'"
    and st: "st_start x = SEGMENT_HEADER_SIZE + length (blob pre)"
      "st_end x = SEGMENT_HEADER_SIZE + length (blob pre) + length f" by blast
  from inv s(1) have "seg_holds (disk ob) (st_seg x) efs" "layout_ok py lay"
    by (auto simp: outbox_inv_def memory_inv_def disk_inv_def)
  with s(1) have holds: "seg_holds (disk ob) (st_seg x) efs" and fok: "frames_ok py efs"
    by (auto simp: layout_ok_def)
  from fok efs have "frame_of py e' f" by auto
  then obtain p where p: "valid_message py e'" "encode_message py e' = Inr p" "encode_frame p = Inr f"
    by (auto simp: frame_of_def)
  have len: "length f = RECORD_HEADER_SIZE + length p" using p(3) by (rule length_encode_frame)
  have dec: "decode_message py (WBytes p) = Inr (canon_message e')"
    using decode_encode_message [OF py p(1,2)] .
  from seg_holds_record [OF holds efs] obtain sf where sf: "lookup_seg (st_seg x) (disk ob) = Some sf"
    "take (length f) (drop (SEGMENT_HEADER_SIZE + length (blob pre)) (contents sf)) = f" by blast
  obtain r0 d0 where c: "os_call (disk ob) = (r0, d0)" by (cases "os_call (disk ob)")
  have q: "quiet (disk ob) d0" "r0 = Inr () \<or> r0 = Inl OSError" using os_call_quiet [OF c] by auto
  have n: "st_end x - st_start x = length f" using st by simp
  have h: "unpack_record_header (take RECORD_HEADER_SIZE f) = (RECORD_MAGIC, length p, unat (crc32 p))"
    "drop RECORD_HEADER_SIZE f = p"
    using unpack_frame [OF p(3), of "[]"] drop_frame_header [OF p(3), of "[]"] by simp_all
  have look: "lookup_seg (st_seg x) d0 = Some sf" using sf(1) q(1) by (simp add: quiet_lookup)
  note od = on_disk_eq [where m = os_call and ob = ob, OF c]
  have "read_envelope_locked py x ob
      = (case r0 of Inr _ \<Rightarrow> Inr e | Inl _ \<Rightarrow> Inl OutboxError, ob\<lparr>disk := d0\<rparr>)"
    unfolding read_envelope_locked_def andThen_def od
    using q(2) look sf(2) n st(1) h dec e len
    by (auto simp: Let_def)
  with q c show ?thesis
    by (auto simp: reading_def no_script_calls)
qed

lemma read_all_items:
  assumes py: "python_ok py"
  shows "outbox_inv py lay ob \<Longrightarrow> set its \<subseteq> set (items lay) \<Longrightarrow>
    reading ob (map snd its) (read_all py (map fst its) ob)"
proof (induction its arbitrary: ob)
  case Nil
  then show ?case by (simp add: reading_ret del: ret_apply)
next
  case (Cons xe its)
  obtain x e where xe: "xe = (x, e)" by (cases xe)
  have "(x, e) \<in> set (items lay)" and its: "set its \<subseteq> set (items lay)" using Cons.prems(2) xe by auto
  from read_envelope [OF py Cons.prems(1) this(1)] show ?case
    unfolding xe list.map fst_conv snd_conv read_all.simps
  proof (rule reading_andThen)
    fix d assume "quiet (disk ob) d"
    with Cons.prems(1) have "outbox_inv py lay (ob\<lparr>disk := d\<rparr>)" by (rule outbox_inv_quiet)
    from Cons.IH [OF this its]
    show "reading (ob\<lparr>disk := d\<rparr>) (e # map snd its)
      (andThen (read_all py (map fst its)) (\<lambda>es. ret (e # es)) (ob\<lparr>disk := d\<rparr>))"
      by (rule reading_map)
  qed
qed

lemma after_subset: "set (after c lay) \<subseteq> set (items lay)"
  by (auto simp: after_def)

lemma pending_items: "outbox_inv py lay ob \<Longrightarrow> pending ob = map fst (after (volatile_cursor ob) lay)"
  by (simp add: outbox_inv_def memory_inv_def)

lemma outbox_load_contents:
  assumes "python_ok py" and "outbox_inv py lay ob"
  shows "reading ob (contents_of lay ob) (outbox_load py ob)"
  using read_all_items [OF assms after_subset] pending_items [OF assms(2)]
  by (simp add: outbox_load_def andThen_def get_state_def contents_of_def)

lemma quiet_no_script: "quiet d (d\<lparr>io_script := []\<rparr>)"
  unfolding quiet_def by (intro exI [of _ "length (io_script d)"]) simp

lemma queue_contents:
  assumes "python_ok py" and "outbox_inv py lay ob"
  shows "queue py ob = contents_of lay ob"
proof -
  let ?ob = "ob\<lparr>disk := (disk ob)\<lparr>io_script := []\<rparr>\<rparr>"
  have "outbox_inv py lay ?ob" by (rule outbox_inv_quiet [OF assms(2) quiet_no_script])
  from outbox_load_contents [OF assms(1) this] show ?thesis
    by (auto simp: queue_def reading_def contents_of_def split: prod.splits)
qed

section \<open>The active segment\<close>

lemma foldr_max_ge: "x \<in> set xs \<Longrightarrow> x \<le> foldr max xs (0 :: nat)"
  by (induction xs) auto

lemma foldr_max_le: "\<forall>x \<in> set xs. x \<le> m \<Longrightarrow> foldr max xs (0 :: nat) \<le> m"
  by (induction xs) auto

lemma keys_segment_index [simp]: "map fst (segment_index lay) = map fst lay"
  by (simp add: segment_index_def split_def)

lemma max_key_index:
  assumes "layout_ok py lay"
  shows "max_key (segment_index lay) = fst (last lay)"
proof -
  from layout_cases [OF assms] obtain front sid efs where lay: "lay = front @ [(sid, efs)]"
    "\<forall>(s, _) \<in> set front. s < sid" by metis
  then have "\<forall>x \<in> set (map fst lay). x \<le> sid" "sid \<in> set (map fst lay)" by fastforce+
  then have "foldr max (map fst lay) 0 = sid"
    by (intro le_antisym foldr_max_le foldr_max_ge)
  then show ?thesis unfolding max_key_def keys_segment_index by (simp add: lay)
qed

lemma active_facts:
  assumes "memory_inv py lay ob"
  shows "active_id ob = fst (last lay)"
    and "active_segment ob = \<lparr>byte_size = seg_size (snd (last lay)), record_count = length (snd (last lay))\<rparr>"
    and "cursor_end ob = end_of lay"
proof -
  from assms have ok: "layout_ok py lay" and seg: "segments ob = segment_index lay"
    by (auto simp: memory_inv_def)
  show a: "active_id ob = fst (last lay)" using max_key_index [OF ok] by (simp add: active_id_def seg)
  from ok have "distinct (map fst (segment_index lay))" "last lay \<in> set lay"
    by (auto simp: layout_ok_def strict_sorted_iff)
  then have "map_of (segment_index lay) (fst (last lay))
      = Some \<lparr>byte_size = seg_size (snd (last lay)), record_count = length (snd (last lay))\<rparr>"
    by (force simp: segment_index_def intro: map_of_is_SomeI)
  then show s: "active_segment ob
      = \<lparr>byte_size = seg_size (snd (last lay)), record_count = length (snd (last lay))\<rparr>"
    by (simp add: active_segment_def a seg)
  show "cursor_end ob = end_of lay" by (simp add: cursor_end_def end_of_def a s)
qed

section \<open>Durability\<close>

text \<open>
  \<open>durable_inv\<close>: the files hold exactly the layout, every closed segment and every appended
  byte no sync is pending for is on stable storage, the directory entries are settled, what a
  crash may bring back is harmless, and every checkpoint a crash may leave is readable and not
  before the checkpoint in memory, nor after the head. It speaks of file systems that can sync directories.
\<close>

definition seg_exact :: "disk \<Rightarrow> nat \<Rightarrow> frames \<Rightarrow> bool \<Rightarrow> bool" where
  "seg_exact d sid efs full \<longleftrightarrow>
     (\<exists>f. lookup_seg sid d = Some f \<and> contents f = encode_segment_header sid @ blob efs
        \<and> SEGMENT_HEADER_SIZE \<le> synced f \<and> (full \<longrightarrow> length (contents f) \<le> synced f))"

definition checkpoint_good :: "python \<Rightarrow> layout \<Rightarrow> cursor \<Rightarrow> cursor \<Rightarrow> disk \<Rightarrow> bytes option \<Rightarrow> bool" where
  "checkpoint_good py lay ck vol d t \<longleftrightarrow>
     (\<exists>g c b. t = Some b \<and> checkpoint_text py g c = Inr b \<and> boundary lay c \<and> cursor_le ck c \<and> cursor_le c vol
        \<and> (\<exists>f. lookup_seg (cur_seg c) d = Some f \<and> cur_off c \<le> synced f))"

definition ghost_good :: "python \<Rightarrow> layout \<Rightarrow> cursor \<Rightarrow> nat \<times> seg_file \<Rightarrow> bool" where
  "ghost_good py lay ck g \<longleftrightarrow>
     0 < fst g \<and> fst g < cur_seg ck \<and> fst g \<le> MAX_SEGMENT_ID \<and> fst g \<notin> set (map fst lay)
     \<and> length (contents (snd g)) \<le> synced (snd g)
     \<and> (\<exists>efs. frames_ok py efs \<and> contents (snd g) = encode_segment_header (fst g) @ blob efs)"

definition format_good :: "python \<Rightarrow> disk \<Rightarrow> bool" where
  "format_good py d \<longleftrightarrow> (\<exists>b v. fmt_file d = Some b \<and> read_metadata py b = Inr v \<and> supported_format v)"

definition durable_inv :: "python \<Rightarrow> layout \<Rightarrow> outbox \<Rightarrow> bool" where
  "durable_inv py lay ob \<longleftrightarrow>
     IoUnsupported \<notin> set (io_script (disk ob)) \<and> format_good py (disk ob)
     \<and> distinct (map fst (seg_files (disk ob)))
     \<and> set (map fst (seg_files (disk ob))) = set (map fst lay)
     \<and> set (map fst lay) \<subseteq> set (segs_settled (disk ob))
     \<and> (\<forall>(sid, efs) \<in> set lay.
          seg_exact (disk ob) sid efs (sid \<noteq> fst (last lay) \<or> \<not> data_sync_pending ob))
     \<and> (\<forall>g \<in> set (seg_ghosts (disk ob)). ghost_good py lay (checkpoint_cursor ob) g)
     \<and> (\<forall>t \<in> set (ckpt_file (disk ob) # ckpt_maybe (disk ob)).
          checkpoint_good py lay (checkpoint_cursor ob) (volatile_cursor ob) (disk ob) t)"

lemma durable_quiet:
  assumes "durable_inv py lay ob" and "quiet (disk ob) d'"
  shows "durable_inv py lay (ob\<lparr>disk := d'\<rparr>)"
  using assms quiet_fields [OF assms(2)] quiet_lookup [OF assms(2)]
  by (auto simp: durable_inv_def format_good_def seg_exact_def checkpoint_good_def)

section \<open>Syncing the active segment\<close>

lemma fsync_seg_cases:
  assumes "fsync_seg sid d = (r, d')" and "lookup_seg sid d = Some f"
  shows "(r = Inl OSError \<and> quiet d d') \<or>
    (r = Inr () \<and> (\<exists>d0. quiet d d0 \<and> d' = update_seg sid (f\<lparr>synced := length (contents f)\<rparr>) d0))"
proof -
  obtain r0 d0 where c: "os_call d = (r0, d0)" by (cases "os_call d")
  with os_call_quiet [OF c] assms show ?thesis
    by (auto simp: fsync_seg_def andThen_def)
qed

lemma update_seg_fields [simp]:
  "seg_ghosts (update_seg sid f d) = seg_ghosts d" "segs_settled (update_seg sid f d) = segs_settled d"
  "ckpt_maybe (update_seg sid f d) = ckpt_maybe d" "io_script (update_seg sid f d) = io_script d"
  "seg_files (update_seg sid f d) = AList.update sid f (seg_files d)"
  by (simp_all add: update_seg_def)

lemma alist_update_keys:
  "set (map fst (AList.update k v al)) = insert k (set (map fst al))"
  by (simp add: dom_update)

lemma lookup_seg_key: "lookup_seg sid d = Some f \<Longrightarrow> sid \<in> set (map fst (seg_files d))"
  by (force simp: lookup_seg_def dest: map_of_SomeD)

lemma last_holds:
  assumes "outbox_inv py lay ob"
  shows "\<exists>f. lookup_seg (active_id ob) (disk ob) = Some f
    \<and> take (seg_size (snd (last lay))) (contents f)
        = encode_segment_header (fst (last lay)) @ blob (snd (last lay))"
proof -
  from assms have m: "memory_inv py lay ob" and "disk_inv lay (disk ob)" by (auto simp: outbox_inv_def)
  moreover from m have "last lay \<in> set lay" by (simp add: memory_inv_def layout_ok_def)
  ultimately show ?thesis unfolding active_facts(1) [OF m]
    by (cases "last lay") (fastforce simp: disk_inv_def seg_holds_def)
qed

text \<open>\<open>synced_more d d'\<close>: the same files, of which more may be on stable storage.\<close>

definition synced_more :: "disk \<Rightarrow> disk \<Rightarrow> bool" where
  "synced_more d d' \<longleftrightarrow>
     fmt_file d' = fmt_file d \<and> ckpt_file d' = ckpt_file d \<and> ckpt_maybe d' = ckpt_maybe d
     \<and> segs_settled d' = segs_settled d \<and> seg_ghosts d' = seg_ghosts d
     \<and> set (io_script d') \<subseteq> set (io_script d) \<and> map fst (seg_files d') = map fst (seg_files d)
     \<and> (\<forall>sid f. lookup_seg sid d = Some f \<longrightarrow>
          (\<exists>f'. lookup_seg sid d' = Some f' \<and> contents f' = contents f \<and> synced f \<le> synced f'
             \<and> (synced f \<le> length (contents f) \<longrightarrow> synced f' \<le> length (contents f))))"

lemma quiet_synced_more: "quiet d d' \<Longrightarrow> synced_more d d'"
  using quiet_fields [of d d'] quiet_lookup [of d d'] by (auto simp: synced_more_def)

lemma synced_moreD:
  assumes "synced_more d d'" and "lookup_seg sid d = Some f"
  obtains f' where "lookup_seg sid d' = Some f'" "contents f' = contents f" "synced f \<le> synced f'"
    "synced f \<le> length (contents f) \<longrightarrow> synced f' \<le> length (contents f)"
  using assms unfolding synced_more_def by blast

lemma synced_more_trans:
  assumes "synced_more a b" and "synced_more b c"
  shows "synced_more a c"
  unfolding synced_more_def
proof (intro conjI allI impI)
  fix sid f assume "lookup_seg sid a = Some f"
  with assms(1) obtain f1 where 1: "lookup_seg sid b = Some f1" "contents f1 = contents f"
    "synced f \<le> synced f1" "synced f \<le> length (contents f) \<longrightarrow> synced f1 \<le> length (contents f)"
    by (rule synced_moreD)
  from assms(2) 1(1) obtain f2 where "lookup_seg sid c = Some f2" "contents f2 = contents f1"
    "synced f1 \<le> synced f2" "synced f1 \<le> length (contents f1) \<longrightarrow> synced f2 \<le> length (contents f1)"
    by (rule synced_moreD)
  with 1 show "\<exists>f'. lookup_seg sid c = Some f' \<and> contents f' = contents f \<and> synced f \<le> synced f'
      \<and> (synced f \<le> length (contents f) \<longrightarrow> synced f' \<le> length (contents f))"
    by auto
qed (use assms in \<open>auto simp: synced_more_def\<close>)

lemma synced_more_holds: "seg_holds d sid efs \<Longrightarrow> synced_more d d' \<Longrightarrow> seg_holds d' sid efs"
proof -
  assume h: "seg_holds d sid efs" and m: "synced_more d d'"
  from h obtain f where f: "lookup_seg sid d = Some f" "synced f \<le> length (contents f)"
    "take (seg_size efs) (contents f) = encode_segment_header sid @ blob efs"
    by (auto simp: seg_holds_def)
  from m f(1) obtain f' where "lookup_seg sid d' = Some f'" "contents f' = contents f"
    "synced f \<le> length (contents f) \<longrightarrow> synced f' \<le> length (contents f)" by (rule synced_moreD)
  with f show ?thesis by (simp add: seg_holds_def)
qed

lemma synced_more_disk_inv: "disk_inv lay d \<Longrightarrow> synced_more d d' \<Longrightarrow> disk_inv lay d'"
  unfolding disk_inv_def using synced_more_holds by blast

lemma synced_more_checkpoint:
  assumes "checkpoint_good py lay ck vol d t" and "synced_more d d'"
  shows "checkpoint_good py lay ck vol d' t"
proof -
  from assms(1) obtain g c b f where c: "t = Some b" "checkpoint_text py g c = Inr b" "boundary lay c"
    "cursor_le ck c" "lookup_seg (cur_seg c) d = Some f" "cur_off c \<le> synced f" "cursor_le c vol"
    by (auto simp: checkpoint_good_def)
  from assms(2) c(5) obtain f' where "lookup_seg (cur_seg c) d' = Some f'" "synced f \<le> synced f'"
    by (rule synced_moreD)
  with c show ?thesis unfolding checkpoint_good_def by (metis order_trans)
qed

lemma synced_more_exact:
  assumes "seg_exact d sid efs full" and "synced_more d d'"
  shows "seg_exact d' sid efs full"
proof -
  from assms(1) obtain f where f: "lookup_seg sid d = Some f"
    "contents f = encode_segment_header sid @ blob efs" "SEGMENT_HEADER_SIZE \<le> synced f"
    "full \<longrightarrow> length (contents f) \<le> synced f" by (auto simp: seg_exact_def)
  from assms(2) f(1) obtain f' where "lookup_seg sid d' = Some f'" "contents f' = contents f"
    "synced f \<le> synced f'" by (rule synced_moreD)
  with f show ?thesis unfolding seg_exact_def by auto
qed

lemma synced_more_durable:
  assumes d: "durable_inv py lay ob" and m: "synced_more (disk ob) d'"
  shows "durable_inv py lay (ob\<lparr>disk := d'\<rparr>)"
  unfolding durable_inv_def
proof (intro conjI)
  show "\<forall>(sid, efs) \<in> set lay. seg_exact (disk (ob\<lparr>disk := d'\<rparr>)) sid efs
      (sid \<noteq> fst (last lay) \<or> \<not> data_sync_pending (ob\<lparr>disk := d'\<rparr>))"
    using d synced_more_exact [OF _ m] by (fastforce simp: durable_inv_def)
  show "\<forall>t \<in> set (ckpt_file (disk (ob\<lparr>disk := d'\<rparr>)) # ckpt_maybe (disk (ob\<lparr>disk := d'\<rparr>))).
      checkpoint_good py lay (checkpoint_cursor (ob\<lparr>disk := d'\<rparr>))
        (volatile_cursor (ob\<lparr>disk := d'\<rparr>)) (disk (ob\<lparr>disk := d'\<rparr>)) t"
    using d m synced_more_checkpoint [OF _ m] by (auto simp: durable_inv_def synced_more_def)
qed (use d m in \<open>auto simp: durable_inv_def format_good_def synced_more_def\<close>)

lemma fsync_synced_more:
  assumes "fsync_seg sid d = (r, d')" and l: "lookup_seg sid d = Some f"
    and "synced f \<le> length (contents f)"
  shows "synced_more d d' \<and> (r = Inr () \<or> r = Inl OSError)
    \<and> (r = Inr () \<longrightarrow> lookup_seg sid d' = Some (f\<lparr>synced := length (contents f)\<rparr>))"
  using fsync_seg_cases [OF assms(1) l]
proof (elim disjE conjE exE)
  assume "r = Inl OSError" "quiet d d'"
  then show ?thesis by (simp add: quiet_synced_more)
next
  fix d0 assume r: "r = Inr ()" and q: "quiet d d0"
    and d': "d' = update_seg sid (f\<lparr>synced := length (contents f)\<rparr>) d0"
  have l0: "lookup_seg sid d0 = Some f" using l quiet_lookup [OF q] by simp
  then have "map fst (seg_files d') = map fst (seg_files d0)"
    using lookup_seg_key [OF l0] by (simp add: d' update_keys)
  moreover have "\<exists>f'. lookup_seg s d' = Some f' \<and> contents f' = contents g \<and> synced g \<le> synced f'
      \<and> (synced g \<le> length (contents g) \<longrightarrow> synced f' \<le> length (contents g))"
    if "lookup_seg s d0 = Some g" for s g
    using that l0 assms(3) by (auto simp: d')
  ultimately have "synced_more d0 d'"
    unfolding synced_more_def by (auto simp: d')
  with quiet_synced_more [OF q] have "synced_more d d'" by (rule synced_more_trans)
  then show ?thesis using r d' by simp
qed

end
