(* ===== verification/OutboxSteps.thy ===== *)
theory OutboxSteps
  imports OutboxOps
begin

text \<open>
  The effect of the steps that sync, rotate, checkpoint and clean up, and of removing the head.
\<close>

lemma memory_inv_sync [simp]:
  "memory_inv py lay (ob\<lparr>data_sync_pending := p\<rparr>) = memory_inv py lay ob"
  "memory_inv py lay (ob\<lparr>data_sync_generation := g\<rparr>) = memory_inv py lay ob"
  "memory_inv py lay (ob\<lparr>checkpoint_generation := g\<rparr>) = memory_inv py lay ob"
  "memory_inv py lay (ob\<lparr>checkpoint_needs_rewrite := b\<rparr>) = memory_inv py lay ob"
  by (simp_all add: memory_inv_def)

section \<open>Sync\<close>

definition sync_only :: "outbox \<Rightarrow> outbox \<Rightarrow> bool" where
  "sync_only ob ob' \<longleftrightarrow>
     (\<exists>d p g. ob' = ob\<lparr>disk := d, data_sync_pending := p, data_sync_generation := g\<rparr>
        \<and> synced_more (disk ob) d)"

lemma sync_only_inv: "outbox_inv py lay ob \<Longrightarrow> sync_only ob ob' \<Longrightarrow> outbox_inv py lay ob'"
  by (auto simp: sync_only_def outbox_inv_def intro: synced_more_disk_inv)

lemma sync_only_contents: "sync_only ob ob' \<Longrightarrow> contents_of lay ob' = contents_of lay ob"
  by (auto simp: sync_only_def contents_of_def)

lemma sync_effect:
  assumes inv: "outbox_inv py lay ob" and s: "sync_data_locked ob = (r, ob')"
  shows "sync_only ob ob' \<and> (r = Inr () \<or> r = Inl OutboxError)
    \<and> (r = Inr () \<longrightarrow> \<not> data_sync_pending ob')
    \<and> (r = Inr () \<and> data_sync_pending ob \<longrightarrow>
         (\<exists>f. lookup_seg (active_id ob) (disk ob') = Some f \<and> length (contents f) \<le> synced f))
    \<and> (durable_inv py lay ob \<longrightarrow> durable_inv py lay ob')"
proof (cases "data_sync_pending ob")
  case False
  then have "ob' = ob" "r = Inr ()" using s by (auto simp: sync_data_locked_def)
  moreover have "sync_only ob ob"
    unfolding sync_only_def
    by (intro exI [of _ "disk ob"] exI [of _ "data_sync_pending ob"] exI [of _ "data_sync_generation ob"])
      (simp add: quiet_synced_more)
  ultimately show ?thesis using False by simp
next
  case True
  obtain r0 d0 where c: "os_call (disk ob) = (r0, d0)" by (cases "os_call (disk ob)")
  have q: "quiet (disk ob) d0" "r0 = Inr () \<or> r0 = Inl OSError" using os_call_quiet [OF c] by auto
  note od = on_disk_eq [where m = os_call and ob = ob, OF c]
  have only0: "sync_only ob (ob\<lparr>disk := d0\<rparr>)"
    unfolding sync_only_def using quiet_synced_more [OF q(1)]
    by (intro exI [of _ d0] exI [of _ "data_sync_pending ob"] exI [of _ "data_sync_generation ob"]) simp
  show ?thesis
  proof (cases r0)
    case (Inl e)
    with s True q(2) have "ob' = ob\<lparr>disk := d0\<rparr>" "r = Inl OutboxError"
      by (auto simp: sync_data_locked_def andThen_def od)
    with only0 durable_quiet q(1) show ?thesis by auto
  next
    case (Inr u)
    define ob0 where "ob0 = ob\<lparr>disk := d0\<rparr>"
    have inv0: "outbox_inv py lay ob0" using outbox_inv_quiet [OF inv q(1)] by (simp add: ob0_def)
    then have m0: "memory_inv py lay ob0" by (simp add: outbox_inv_def)
    have "last lay \<in> set lay" using m0 by (simp add: memory_inv_def layout_ok_def)
    with inv0 have "seg_holds d0 (active_id ob0) (snd (last lay))"
      unfolding active_facts(1) [OF m0] by (cases "last lay") (force simp: outbox_inv_def disk_inv_def ob0_def)
    then obtain f where f: "lookup_seg (active_id ob) d0 = Some f" "synced f \<le> length (contents f)"
      by (auto simp: seg_holds_def ob0_def active_id_def)
    obtain r1 d1 where c1: "fsync_seg (active_id ob) d0 = (r1, d1)" by (cases "fsync_seg (active_id ob) d0")
    from fsync_synced_more [OF c1 f] have more: "synced_more d0 d1" "r1 = Inr () \<or> r1 = Inl OSError"
      and full: "r1 = Inr () \<longrightarrow> lookup_seg (active_id ob) d1 = Some (f\<lparr>synced := length (contents f)\<rparr>)"
      by auto
    have more': "synced_more (disk ob) d1" using synced_more_trans [OF quiet_synced_more [OF q(1)] more(1)] .
    have od1: "on_disk (fsync_seg (active_id ob)) (ob\<lparr>disk := d0\<rparr>) =
      (case r1 of Inl e \<Rightarrow> Inl (if e = OSError then OutboxError else e) | Inr x \<Rightarrow> Inr x, ob\<lparr>disk := d1\<rparr>)"
      using on_disk_eq [where m = "fsync_seg (active_id ob)" and ob = "ob\<lparr>disk := d0\<rparr>"] c1 by simp
    show ?thesis
    proof (cases r1)
      case (Inl e)
      with s True Inr more(2) have "ob' = ob\<lparr>disk := d1\<rparr>" "r = Inl OutboxError"
        by (auto simp: sync_data_locked_def andThen_def od od1)
      moreover have "sync_only ob (ob\<lparr>disk := d1\<rparr>)"
        unfolding sync_only_def using more'
        by (intro exI [of _ d1] exI [of _ "data_sync_pending ob"] exI [of _ "data_sync_generation ob"]) simp
      ultimately show ?thesis using synced_more_durable [OF _ more'] by auto
    next
      case (Inr v)
      have ob': "ob' = ob\<lparr>disk := d1, data_sync_pending := False,
          data_sync_generation := Suc (data_sync_generation ob)\<rparr>" "r = Inr ()"
        using s True \<open>r0 = Inr u\<close> Inr by (auto simp: sync_data_locked_def andThen_def od od1 modify_def)
      then have "sync_only ob ob'" unfolding sync_only_def using more' by blast
      moreover have "durable_inv py lay ob'" if d: "durable_inv py lay ob"
      proof -
        have "durable_inv py lay (ob\<lparr>disk := d1\<rparr>)" by (rule synced_more_durable [OF d more'])
        moreover have "fst (last lay) = active_id ob"
          using inv active_facts(1) by (force simp: outbox_inv_def)
        ultimately show ?thesis using full Inr
          by (fastforce simp: durable_inv_def ob' seg_exact_def)
      qed
      ultimately show ?thesis using ob' full Inr by simp
    qed
  qed
qed

text \<open>A pending sync of a healthy disk succeeds.\<close>

lemma sync_no_failure:
  assumes inv: "outbox_inv py lay ob" and n: "io_script (disk ob) = []"
    and r: "sync_data_locked ob = (r, ob')"
  shows "r = Inr () \<and> io_script (disk ob') = []"
proof -
  from last_holds [OF inv] obtain f where "lookup_seg (active_id ob) (disk ob) = Some f" by blast
  with n r show ?thesis
    by (auto simp: sync_data_locked_def andThen_def modify_def on_disk_def os_call_def next_io_def
        fsync_seg_def split: if_splits)
qed

section \<open>Rotation\<close>

lemma fsync_directory_cases:
  assumes "fsync_directory d = (r, d')"
  obtains d1 where "quiet d d1" and
    "(r = Inl OSError \<and> d' = d1) \<or> (r = Inr () \<and> d' = settle d1)
       \<or> (r = Inr () \<and> d' = d1 \<and> IoUnsupported \<in> set (io_script d))"
proof -
  obtain i d1 where i: "next_io d = (i, d1)" by (cases "next_io d")
  have "i = IoUnsupported \<Longrightarrow> IoUnsupported \<in> set (io_script d)"
    using i by (auto simp: next_io_def split: list.splits)
  with that [OF next_io_quiet [OF i]] i assms show ?thesis
    by (auto simp: fsync_directory_def split: io.splits)
qed

definition fresh_segment :: "nat \<Rightarrow> seg_file" where
  "fresh_segment sid = \<lparr>contents = encode_segment_header sid, synced = SEGMENT_HEADER_SIZE\<rparr>"

lemma install_segment_cases:
  assumes "install_segment_file sid d = (r, d')"
  obtains "r = Inl OSError" "quiet d d'"
  | d0 d1 where "quiet d d0" "quiet (update_seg sid (fresh_segment sid) d0) d1"
    "(r = Inl OSError \<and> d' = d1) \<or> (r = Inr () \<and> d' = settle d1)
       \<or> (r = Inr () \<and> d' = d1 \<and> IoUnsupported \<in> set (io_script d))"
proof -
  obtain r0 d0 where t: "write_temporary d = (r0, d0)" by (cases "write_temporary d")
  have q0: "quiet d d0" "r0 = Inr () \<or> r0 = Inl OSError" using write_temporary_quiet [OF t] by auto
  obtain r1 d1 where o: "os_call d0 = (r1, d1)" by (cases "os_call d0")
  have q1: "quiet d d1" "r1 = Inr () \<or> r1 = Inl OSError"
    using os_call_quiet [OF o] quiet_trans [OF q0(1)] by auto
  show ?thesis
  proof (cases "r0 = Inr () \<and> r1 = Inr ()")
    case False
    with assms q0 q1 t o have "r = Inl OSError" "quiet d d'"
      by (auto simp: install_segment_file_def andThen_def)
    then show ?thesis by (rule that(1))
  next
    case True
    then have "fsync_directory (update_seg sid (fresh_segment sid) d1) = (r, d')"
      using assms t o by (simp add: install_segment_file_def andThen_def fresh_segment_def)
    then obtain d2 where d2: "quiet (update_seg sid (fresh_segment sid) d1) d2"
      "(r = Inl OSError \<and> d' = d2) \<or> (r = Inr () \<and> d' = settle d2)
       \<or> (r = Inr () \<and> d' = d2 \<and> IoUnsupported \<in> set (io_script (update_seg sid (fresh_segment sid) d1)))"
      by (rule fsync_directory_cases)
    moreover have "IoUnsupported \<in> set (io_script (update_seg sid (fresh_segment sid) d1)) \<Longrightarrow>
      IoUnsupported \<in> set (io_script d)" using quiet_fields(7) [OF q1(1)] by auto
    ultimately show ?thesis using that(2) [OF q1(1) d2(1)] by blast
  qed
qed

lemma settle_fields [simp]:
  "seg_files (settle d) = seg_files d" "ckpt_file (settle d) = ckpt_file d"
  "fmt_file (settle d) = fmt_file d" "io_script (settle d) = io_script d"
  "ckpt_maybe (settle d) = [ckpt_file d]" "segs_settled (settle d) = map fst (seg_files d)"
  "seg_ghosts (settle d) = []" "lookup_seg sid (settle d) = lookup_seg sid d"
  by (simp_all add: settle_def lookup_seg_def)

lemma alist_update_new: "k \<notin> set (map fst al) \<Longrightarrow> AList.update k v al = al @ [(k, v)]"
  by (induction al) auto

lemma consecutive_snoc: "consecutive xs \<Longrightarrow> xs \<noteq> [] \<Longrightarrow> consecutive (xs @ [last xs + 1])"
proof (induction xs rule: consecutive.induct)
  case (1 a b r)
  then show ?case by (cases r) auto
qed auto

lemma consecutive_singleton [simp]: "consecutive [a]"
  by simp

text \<open>What an operation on the storage that leaves the queue alone keeps.\<close>

definition same_queue :: "outbox \<Rightarrow> outbox \<Rightarrow> bool" where
  "same_queue ob ob' \<longleftrightarrow>
     segment_max_bytes ob' = segment_max_bytes ob \<and> segment_max_records ob' = segment_max_records ob
     \<and> pending ob' = pending ob \<and> pending_by_id ob' = pending_by_id ob
     \<and> volatile_completed_ids ob' = volatile_completed_ids ob
     \<and> checkpoint_cursor ob' = checkpoint_cursor ob
     \<and> set (io_script (disk ob')) \<subseteq> set (io_script (disk ob))"

lemma same_queue_refl [simp]: "same_queue a a"
  by (simp add: same_queue_def)

lemma same_queue_trans: "same_queue a b \<Longrightarrow> same_queue b c \<Longrightarrow> same_queue a c"
  by (auto simp: same_queue_def)

lemma sync_only_same_queue: "sync_only ob ob' \<Longrightarrow> same_queue ob ob'"
  by (auto simp: sync_only_def same_queue_def synced_more_def)

lemma boundary_append: "boundary lay c \<Longrightarrow> boundary (lay @ lay') c"
  by (auto simp: boundary_def)

lemma index_append: "segment_index (lay @ lay') = segment_index lay @ segment_index lay'"
  by (simp add: segment_index_def)

lemma after_empty_segment [simp]: "after c (lay @ [(sid, [])]) = after c lay"
  by (simp add: after_def)

lemma layout_rotate:
  assumes "layout_ok py lay" and "fst (last lay) + 1 \<le> MAX_SEGMENT_ID"
  shows "layout_ok py (lay @ [(fst (last lay) + 1, [])])"
proof -
  from layout_cases [OF assms(1)] obtain front sid efs where lay: "lay = front @ [(sid, efs)]"
    "\<forall>(s, _) \<in> set front. s < sid" by metis
  then show ?thesis using assms by (fastforce simp: layout_ok_def sorted_wrt_append)
qed

text \<open>The index after a rotation.\<close>

definition rotated_index :: "outbox \<Rightarrow> outbox" where
  "rotated_index s =
     (let next_id = active_id s + 1;
          s' = s\<lparr>segments := AList.update next_id
                   \<lparr>byte_size = SEGMENT_HEADER_SIZE, record_count = 0\<rparr> (segments s)\<rparr>
      in if pending s' = []
         then s'\<lparr>volatile_cursor := \<lparr>cur_seg = next_id, cur_off = SEGMENT_HEADER_SIZE\<rparr>\<rparr> else s')"

lemma rotated_fields:
  "checkpoint_cursor (rotated_index ob) = checkpoint_cursor ob"
  "volatile_completed_ids (rotated_index ob) = volatile_completed_ids ob"
  "pending (rotated_index ob) = pending ob" "pending_by_id (rotated_index ob) = pending_by_id ob"
  "segment_max_bytes (rotated_index ob) = segment_max_bytes ob"
  "segment_max_records (rotated_index ob) = segment_max_records ob"
  "disk (rotated_index ob) = disk ob" "data_sync_pending (rotated_index ob) = data_sync_pending ob"
  by (simp_all add: rotated_index_def Let_def)

lemma rotated_forward:
  assumes m: "memory_inv py lay ob"
  shows "cursor_le (volatile_cursor ob) (volatile_cursor (rotated_index ob))"
proof -
  have ok: "layout_ok py lay" and b: "boundary lay (volatile_cursor ob)"
    using m by (auto simp: memory_inv_def)
  have "cursor_le (volatile_cursor ob) (end_of lay)" by (rule boundary_le_end [OF ok b])
  then have "cur_seg (volatile_cursor ob) \<le> active_id ob"
    unfolding active_facts(1) [OF m] by (auto simp: cursor_le_def end_of_def)
  then show ?thesis by (auto simp: rotated_index_def Let_def cursor_le_def)
qed

lemma rotated_memory:
  assumes m: "memory_inv py lay ob" and max: "active_id ob + 1 \<le> MAX_SEGMENT_ID"
  defines "lay' \<equiv> lay @ [(active_id ob + 1, [])]"
  shows "memory_inv py lay' (rotated_index ob)" and "contents_of lay' (rotated_index ob) = contents_of lay ob"
proof -
  let ?ob = "rotated_index ob"
  let ?new = "\<lparr>cur_seg = active_id ob + 1, cur_off = SEGMENT_HEADER_SIZE\<rparr>"
  have a: "active_id ob = fst (last lay)" by (rule active_facts(1) [OF m])
  have ok: "layout_ok py lay" using m by (simp add: memory_inv_def)
  have ok': "layout_ok py lay'" unfolding lay'_def a using layout_rotate [OF ok] max a by simp
  from layout_cases [OF ok] obtain front sid efs where lay: "lay = front @ [(sid, efs)]"
    "\<forall>(s, _) \<in> set front. s < sid" by metis
  have sid: "active_id ob = sid" using a lay by simp
  have le: "\<forall>(s, e) \<in> set lay. s \<le> sid" using lay by fastforce
  have new_key: "active_id ob + 1 \<notin> set (map fst (segments ob))"
    using m lay sid by (fastforce simp: memory_inv_def)
  have seg: "segments ?ob = segment_index lay'"
    using m alist_update_new [OF new_key]
    by (simp add: rotated_index_def Let_def memory_inv_def lay'_def index_append)
      (simp add: segment_index_def seg_size_def)
  have nb: "boundary lay' ?new"
    unfolding boundary_def lay'_def by (intro exI [of _ "[]"] exI [of _ 0]) simp
  have nle: "cursor_le (checkpoint_cursor ob) ?new"
  proof -
    from m have "boundary lay (checkpoint_cursor ob)" by (simp add: memory_inv_def)
    then have "cur_seg (checkpoint_cursor ob) \<le> sid" using le by (auto simp: boundary_def)
    then show ?thesis by (simp add: cursor_le_def sid)
  qed
  have na: "after ?new lay' = []"
  proof -
    have "\<not> at_or_after ?new x" if "(x, e) \<in> set (items lay)" for x e
      using itemsD [OF that] le sid by (fastforce simp: at_or_after_def)
    then show ?thesis by (auto simp: after_def lay'_def filter_empty_conv)
  qed
  have same: "after c lay' = after c lay" for c by (simp add: lay'_def)
  have con: "consecutive (filter (\<lambda>s. cur_seg (checkpoint_cursor ob) \<le> s) (map fst lay'))"
  proof -
    from m have "boundary lay (checkpoint_cursor ob)" by (simp add: memory_inv_def)
    then have le': "cur_seg (checkpoint_cursor ob) \<le> sid" using le by (auto simp: boundary_def)
    let ?f = "filter (\<lambda>s. cur_seg (checkpoint_cursor ob) \<le> s) (map fst lay)"
    have "last ?f = sid" "?f \<noteq> []" using le' lay by auto
    moreover have "consecutive ?f" using m by (simp add: memory_inv_def)
    ultimately have "consecutive (?f @ [sid + 1])" using consecutive_snoc by metis
    then show ?thesis using le' by (simp add: lay'_def sid)
  qed
  have none: "after (volatile_cursor ob) lay = [] \<longleftrightarrow> pending ob = []" using m by (simp add: memory_inv_def)
  have v: "after (volatile_cursor ?ob) lay' = after (volatile_cursor ob) lay"
    using none na same by (auto simp: rotated_index_def Let_def)
  then show "contents_of lay' ?ob = contents_of lay ob" by (simp add: contents_of_def)
  have bnd: "boundary lay' (volatile_cursor ?ob)" "cursor_le (checkpoint_cursor ob) (volatile_cursor ?ob)"
    using m nb nle boundary_append [of lay] by (auto simp: rotated_index_def Let_def memory_inv_def lay'_def)
  have vc: "at_or_after (volatile_cursor ?ob) x \<or> st_id x \<in> volatile_completed_ids ob"
    if x: "(x, e) \<in> set (after (checkpoint_cursor ob) lay)" for x e
  proof -
    have "at_or_after (volatile_cursor ob) x \<or> st_id x \<in> volatile_completed_ids ob"
      using m x by (fastforce simp: memory_inv_def)
    moreover have "at_or_after (volatile_cursor ob) x \<Longrightarrow> (x, e) \<in> set (after (volatile_cursor ob) lay)"
      using x by (simp add: after_def)
    moreover have "(x, e) \<in> set (after (volatile_cursor ?ob) lay') \<Longrightarrow> at_or_after (volatile_cursor ?ob) x"
      by (simp add: after_def)
    ultimately show ?thesis unfolding v by blast
  qed
  show "memory_inv py lay' ?ob"
    unfolding memory_inv_def
  proof (intro conjI)
    show "\<forall>(x, e) \<in> set (after (checkpoint_cursor ?ob) lay').
        at_or_after (volatile_cursor ?ob) x \<or> st_id x \<in> volatile_completed_ids ?ob"
      using vc unfolding rotated_fields same by blast
    show "distinct (ids_after (checkpoint_cursor ?ob) lay')"
      using m same by (simp add: rotated_index_def Let_def memory_inv_def ids_after_def)
    show "pending ?ob = map fst (after (volatile_cursor ?ob) lay')"
      using v m by (simp add: memory_inv_def) (simp add: rotated_index_def Let_def)
  qed (use m ok' seg bnd con boundary_append [of lay] in
      \<open>auto simp: memory_inv_def rotated_index_def Let_def lay'_def\<close>)
qed

lemma fresh_segment_holds:
  "lookup_seg sid d = Some (fresh_segment sid) \<Longrightarrow> seg_holds d sid [] \<and> seg_exact d sid [] full"
  by (simp add: seg_holds_def seg_exact_def fresh_segment_def seg_size_def)

lemma disk_inv_other:
  assumes "disk_inv lay d" and "\<And>sid. sid \<in> set (map fst lay) \<Longrightarrow> lookup_seg sid d' = lookup_seg sid d"
  shows "disk_inv lay d'"
  using assms by (fastforce simp: disk_inv_def seg_holds_def)

lemma rotated_durable:
  assumes inv: "outbox_inv py lay ob" and d: "durable_inv py lay ob" and p: "\<not> data_sync_pending ob"
    and new: "lookup_seg (active_id ob + 1) (disk ob) = None" and max: "active_id ob + 1 \<le> MAX_SEGMENT_ID"
    and q0: "quiet (disk ob) d0"
    and q1: "quiet (update_seg (active_id ob + 1) (fresh_segment (active_id ob + 1)) d0) d1"
  shows "durable_inv py (lay @ [(active_id ob + 1, [])]) ((rotated_index ob)\<lparr>disk := settle d1\<rparr>)"
proof -
  let ?n = "active_id ob + 1"
  let ?lay = "lay @ [(?n, [])]"
  note f0 = quiet_fields [OF q0] and f1 = quiet_fields [OF q1]
  have m: "memory_inv py lay ob" using inv by (simp add: outbox_inv_def)
  have a: "active_id ob = fst (last lay)" by (rule active_facts(1) [OF m])
  have nd: "?n \<notin> set (map fst (seg_files (disk ob)))" using new by (auto simp: lookup_seg_def map_of_eq_None_iff)
  then have keys: "map fst (seg_files d1) = map fst (seg_files (disk ob)) @ [?n]"
    by (simp add: f0 f1 alist_update_new)
  have look: "lookup_seg s d1 = (if s = ?n then Some (fresh_segment ?n) else lookup_seg s (disk ob))" for s
    using quiet_lookup [OF q1] quiet_lookup [OF q0] by simp
  have lk: "set (map fst (seg_files (disk ob))) = set (map fst lay)" using d by (simp add: durable_inv_def)
  then have nl: "?n \<notin> set (map fst lay)" using nd by simp
  have ck: "checkpoint_good py ?lay (checkpoint_cursor ob) (volatile_cursor (rotated_index ob))
    (settle d1) (ckpt_file (disk ob))"
  proof -
    from d obtain g c b f where c: "ckpt_file (disk ob) = Some b" "checkpoint_text py g c = Inr b"
      "boundary lay c" "cursor_le (checkpoint_cursor ob) c"
      "lookup_seg (cur_seg c) (disk ob) = Some f" "cur_off c \<le> synced f"
      "cursor_le c (volatile_cursor ob)"
      by (auto simp: durable_inv_def checkpoint_good_def)
    from c(3) nl have "cur_seg c \<noteq> ?n" by (force simp: boundary_def)
    then have "lookup_seg (cur_seg c) (settle d1) = Some f" by (simp add: look c(5))
    moreover have "cursor_le c (volatile_cursor (rotated_index ob))"
      using c(7) rotated_forward [OF m] cursor_le_trans by blast
    ultimately show ?thesis using c boundary_append [OF c(3)] unfolding checkpoint_good_def by blast
  qed
  have ex: "seg_exact (settle d1) sid efs full" if "(sid, efs) \<in> set ?lay" for sid efs full
  proof (cases "sid = ?n")
    case True
    then have "efs = []" using that nl by force
    then show ?thesis using fresh_segment_holds [of ?n "settle d1"] True look by simp
  next
    case False
    then have "(sid, efs) \<in> set lay" using that by auto
    with d p have "seg_exact (disk ob) sid efs True" by (fastforce simp: durable_inv_def)
    with False show ?thesis by (auto simp: seg_exact_def look)
  qed
  show ?thesis
    unfolding durable_inv_def
  proof (intro conjI)
    show "\<forall>(sid, efs) \<in> set ?lay. seg_exact (disk ((rotated_index ob)\<lparr>disk := settle d1\<rparr>)) sid efs
       (sid \<noteq> fst (last ?lay) \<or> \<not> data_sync_pending ((rotated_index ob)\<lparr>disk := settle d1\<rparr>))"
      using ex by auto
    show "\<forall>t \<in> set (ckpt_file (disk ((rotated_index ob)\<lparr>disk := settle d1\<rparr>))
          # ckpt_maybe (disk ((rotated_index ob)\<lparr>disk := settle d1\<rparr>))).
       checkpoint_good py ?lay (checkpoint_cursor ((rotated_index ob)\<lparr>disk := settle d1\<rparr>))
         (volatile_cursor ((rotated_index ob)\<lparr>disk := settle d1\<rparr>))
         (disk ((rotated_index ob)\<lparr>disk := settle d1\<rparr>)) t"
      using ck by (simp add: rotated_fields f0 f1)
    show "IoUnsupported \<notin> set (io_script (disk ((rotated_index ob)\<lparr>disk := settle d1\<rparr>)))"
      using d f0(7) f1(7) by (auto simp: durable_inv_def)
    show "format_good py (disk ((rotated_index ob)\<lparr>disk := settle d1\<rparr>))"
      using d by (simp add: durable_inv_def format_good_def f0 f1)
    show "distinct (map fst (seg_files (disk ((rotated_index ob)\<lparr>disk := settle d1\<rparr>))))"
      using d nd keys by (simp add: durable_inv_def)
    show "set (map fst (seg_files (disk ((rotated_index ob)\<lparr>disk := settle d1\<rparr>)))) = set (map fst ?lay)"
      using lk keys by simp
    show "set (map fst ?lay) \<subseteq> set (segs_settled (disk ((rotated_index ob)\<lparr>disk := settle d1\<rparr>)))"
      using lk keys by simp
  qed simp
qed

lemma rotate_effect:
  assumes inv: "outbox_inv py lay ob" and r: "rotate_locked ob = (r, ob')"
  shows "same_queue ob ob' \<and>
    ((r = Inl OutboxError \<and> outbox_inv py lay ob' \<and> contents_of lay ob' = contents_of lay ob)
     \<or> (r = Inr () \<and> \<not> data_sync_pending ob' \<and> (let lay' = lay @ [(active_id ob + 1, [])] in
          outbox_inv py lay' ob' \<and> contents_of lay' ob' = contents_of lay ob
          \<and> (durable_inv py lay ob \<longrightarrow> durable_inv py lay' ob'))))"
proof -
  obtain r0 ob0 where s: "sync_data_locked ob = (r0, ob0)" by (cases "sync_data_locked ob")
  from sync_effect [OF inv s] have s0: "sync_only ob ob0" "r0 = Inr () \<or> r0 = Inl OutboxError"
    "r0 = Inr () \<longrightarrow> \<not> data_sync_pending ob0" "durable_inv py lay ob \<longrightarrow> durable_inv py lay ob0" by auto
  have inv0: "outbox_inv py lay ob0" using sync_only_inv [OF inv s0(1)] .
  have sq: "same_queue ob ob0" using sync_only_same_queue [OF s0(1)] .
  have ct: "contents_of lay ob0 = contents_of lay ob" using sync_only_contents [OF s0(1)] .
  have m0: "memory_inv py lay ob0" using inv0 by (simp add: outbox_inv_def)
  have act: "active_id ob0 = active_id ob"
    using active_facts(1) [OF m0] active_facts(1) inv by (metis outbox_inv_def)
  let ?n = "active_id ob0 + 1"
  show ?thesis
  proof (cases "r0 = Inr () \<and> ?n \<le> MAX_SEGMENT_ID \<and> lookup_seg ?n (disk ob0) = None")
    case False
    then have "r = Inl OutboxError" "ob' = ob0"
      using r s s0(2) by (auto simp: rotate_locked_def andThen_def Let_def split: if_splits)
    then show ?thesis using inv0 sq ct by simp
  next
    case True
    obtain r1 d where i: "install_segment_file ?n (disk ob0) = (r1, d)"
      by (cases "install_segment_file ?n (disk ob0)")
    have res: "r = (case r1 of Inl e \<Rightarrow> Inl (if e = OSError then OutboxError else e) | Inr x \<Rightarrow> Inr ())"
      "ob' = (case r1 of Inl e \<Rightarrow> ob0\<lparr>disk := d\<rparr> | Inr x \<Rightarrow> (rotated_index ob0)\<lparr>disk := d\<rparr>)"
      using r s True on_disk_eq [where m = "install_segment_file ?n" and ob = ob0, OF i]
      by (auto simp: rotate_locked_def andThen_def Let_def modify_def rotated_index_def active_id_def
          split: sum.splits if_splits)
    have nl: "?n \<notin> set (map fst lay)"
    proof -
      from m0 have ok: "layout_ok py lay" by (simp add: memory_inv_def)
      from layout_cases [OF ok] obtain front sid efs where "lay = front @ [(sid, efs)]"
        "\<forall>(s, _) \<in> set front. s < sid" by metis
      then show ?thesis unfolding active_facts(1) [OF m0] by fastforce
    qed
    have d0: "disk_inv lay (disk ob0)" using inv0 by (simp add: outbox_inv_def)
    from i show ?thesis
    proof (cases rule: install_segment_cases)
      case 1
      with res have "r = Inl OutboxError" "ob' = ob0\<lparr>disk := d\<rparr>" by auto
      moreover have "same_queue ob0 (ob0\<lparr>disk := d\<rparr>)"
        using quiet_fields(7) [OF 1(2)] by (simp add: same_queue_def)
      ultimately show ?thesis
        using outbox_inv_quiet [OF inv0 1(2)] same_queue_trans [OF sq] ct by (simp add: contents_of_def)
    next
      case (2 q0 q1)
      have look: "lookup_seg s q1 = (if s = ?n then Some (fresh_segment ?n) else lookup_seg s (disk ob0))" for s
        using quiet_lookup [OF 2(2)] quiet_lookup [OF 2(1)] by simp
      then have look': "lookup_seg s d = (if s = ?n then Some (fresh_segment ?n) else lookup_seg s (disk ob0))" for s
        using 2(3) by auto
      have inv1: "disk_inv lay d" using disk_inv_other [OF d0] look' nl by metis
      have scr: "set (io_script d) \<subseteq> set (io_script (disk ob0))"
        using 2(3) quiet_fields(7) [OF 2(2)] quiet_fields(7) [OF 2(1)] by auto
      show ?thesis
      proof (cases r1)
        case (Inl e)
        with 2(3) res have "r = Inl OutboxError" "ob' = ob0\<lparr>disk := d\<rparr>" by auto
        moreover have "same_queue ob0 (ob0\<lparr>disk := d\<rparr>)" using scr by (simp add: same_queue_def)
        moreover have "outbox_inv py lay (ob0\<lparr>disk := d\<rparr>)" using m0 inv1 by (simp add: outbox_inv_def)
        ultimately show ?thesis using same_queue_trans [OF sq] ct by (simp add: contents_of_def)
      next
        case (Inr u)
        let ?ob = "(rotated_index ob0)\<lparr>disk := d\<rparr>" and ?lay = "lay @ [(?n, [])]"
        have r': "r = Inr ()" "ob' = ?ob" using Inr res by auto
        have "memory_inv py ?lay (rotated_index ob0)" "contents_of ?lay (rotated_index ob0) = contents_of lay ob0"
          using rotated_memory [OF m0] True by auto
        moreover have "disk_inv ?lay d"
          using inv1 fresh_segment_holds [of ?n d] look' by (simp add: disk_inv_def)
        ultimately have o: "outbox_inv py ?lay ?ob" "contents_of ?lay ?ob = contents_of lay ob"
          using ct by (simp_all add: outbox_inv_def contents_of_def)
        have "durable_inv py ?lay ?ob" if du: "durable_inv py lay ob"
        proof -
          have du0: "durable_inv py lay ob0" using s0(4) du by simp
          then have "IoUnsupported \<notin> set (io_script (disk ob0))" by (simp add: durable_inv_def)
          then have "d = settle q1" using 2(3) Inr by auto
          then show ?thesis
            using rotated_durable [OF inv0 du0 _ _ _ 2(1,2)] True s0(3) by simp
        qed
        moreover have "same_queue ob0 ?ob" using scr by (simp add: same_queue_def rotated_fields)
        ultimately show ?thesis
          using r' o same_queue_trans [OF sq] True s0(3) act
          by (simp add: Let_def rotated_fields)
      qed
    qed
  qed
qed

end
