(* ===== verification/OutboxHead.thy ===== *)
theory OutboxHead
  imports OutboxSteps
begin

text \<open>
  The checkpoint, the removal of consumed segments and the removal of the head of the queue.
\<close>

section \<open>Unlinking consumed segments\<close>

definition without :: "nat \<Rightarrow> layout \<Rightarrow> layout" where
  "without sid lay = filter (\<lambda>(s, _). s \<noteq> sid) lay"

lemma in_without [simp]: "(s, efs) \<in> set (without sid lay) \<longleftrightarrow> (s, efs) \<in> set lay \<and> s \<noteq> sid"
  by (auto simp: without_def)

lemma keys_without: "map fst (without sid lay) = filter (\<lambda>s. s \<noteq> sid) (map fst lay)"
  by (induction lay) (auto simp: without_def)

lemma index_without: "AList.delete sid (segment_index lay) = segment_index (without sid lay)"
  by (induction lay) (auto simp: without_def segment_index_def)

lemma last_filter_key: "fst (last lay) \<noteq> sid \<Longrightarrow> lay \<noteq> [] \<Longrightarrow> last (without sid lay) = last lay \<and> without sid lay \<noteq> []"
proof -
  assume a: "fst (last lay) \<noteq> sid" "lay \<noteq> []"
  then obtain front l where "lay = front @ [l]" "fst l \<noteq> sid" by (metis append_butlast_last_id)
  then show ?thesis by (cases l) (simp add: without_def)
qed

lemma after_without:
  assumes "sid < cur_seg c"
  shows "after c (without sid lay) = after c lay"
proof (induction lay)
  case Nil
  then show ?case by (simp add: without_def)
next
  case (Cons sefs lay)
  obtain s efs where s: "sefs = (s, efs)" by (cases sefs)
  have "\<not> at_or_after c x" if "(x, e) \<in> set (seg_items sid SEGMENT_HEADER_SIZE efs)" for x e
    using seg_itemsD [OF that] assms by (auto simp: at_or_after_def)
  then have "filter (at_or_after c \<circ> fst) (seg_items sid SEGMENT_HEADER_SIZE efs) = []"
    by (auto simp: filter_empty_conv)
  with Cons show ?case by (auto simp: s without_def after_def)
qed

lemma layout_without:
  assumes "layout_ok py lay" and "sid \<noteq> fst (last lay)"
  shows "layout_ok py (without sid lay)"
  using assms last_filter_key [of lay sid]
  by (auto simp: layout_ok_def keys_without sorted_wrt_filter)

lemma boundary_without: "boundary lay c \<Longrightarrow> cur_seg c \<noteq> sid \<Longrightarrow> boundary (without sid lay) c"
  by (auto simp: boundary_def)

lemma memory_inv_without:
  assumes m: "memory_inv py lay ob" and s: "sid < cur_seg (checkpoint_cursor ob)" "sid \<noteq> fst (last lay)"
  shows "memory_inv py (without sid lay) (ob\<lparr>segments := AList.delete sid (segments ob)\<rparr>)"
    and "contents_of (without sid lay) ob = contents_of lay ob"
proof -
  have le: "cursor_le (checkpoint_cursor ob) (volatile_cursor ob)" using m by (simp add: memory_inv_def)
  then have v: "sid < cur_seg (volatile_cursor ob)" using s(1) by (auto simp: cursor_le_def)
  note af = after_without [OF s(1), of lay] after_without [OF v, of lay]
  have "filter (\<lambda>x. cur_seg (checkpoint_cursor ob) \<le> x) (filter (\<lambda>x. x \<noteq> sid) (map fst lay))
      = filter (\<lambda>x. cur_seg (checkpoint_cursor ob) \<le> x) (map fst lay)"
    using s(1) unfolding filter_filter by (intro filter_cong) auto
  then show "memory_inv py (without sid lay) (ob\<lparr>segments := AList.delete sid (segments ob)\<rparr>)"
    using m s v layout_without [of py lay sid] boundary_without [of lay _ sid]
    by (simp add: memory_inv_def af ids_after_def index_without keys_without)
  show "contents_of (without sid lay) ob = contents_of lay ob" by (simp add: contents_of_def af)
qed

lemma unlink_cases:
  assumes "unlink_seg sid d = (r, d')" and "lookup_seg sid d = Some f"
  obtains e where "r = Inl e" "quiet d d'"
  | d0 where "r = Inr ()" "quiet d d0"
      "d' = d0\<lparr>seg_files := AList.delete sid (seg_files d0), seg_ghosts := (sid, f) # seg_ghosts d0\<rparr>"
proof -
  obtain r0 d0 where c: "os_call d = (r0, d0)" by (cases "os_call d")
  with os_call_quiet [OF c] assms that show ?thesis
    by (auto simp: unlink_seg_def andThen_def)
qed

lemma lookup_deleted:
  "lookup_seg s (d\<lparr>seg_files := AList.delete sid (seg_files d), seg_ghosts := g\<rparr>)
     = (if s = sid then None else lookup_seg s d)"
  by (simp add: lookup_seg_def delete_conv')

text \<open>One successful unlink of a segment before the checkpoint.\<close>

lemma unlinked_outbox:
  fixes f :: seg_file
  assumes inv: "outbox_inv py lay ob" and s: "sid < cur_seg (checkpoint_cursor ob)" "sid \<noteq> fst (last lay)"
    and q: "quiet (disk ob) d0"
  defines "ob' \<equiv> ob\<lparr>disk := d0\<lparr>seg_files := AList.delete sid (seg_files d0), seg_ghosts := (sid, f) # seg_ghosts d0\<rparr>,
      segments := AList.delete sid (segments ob)\<rparr>"
  shows "outbox_inv py (without sid lay) ob'" "contents_of (without sid lay) ob' = contents_of lay ob"
    and "same_queue ob ob'"
proof -
  have m: "memory_inv py lay ob" using inv by (simp add: outbox_inv_def)
  from memory_inv_without(1) [OF m s] have "memory_inv py (without sid lay) ob'"
    unfolding memory_inv_def ob'_def by simp
  moreover have "disk_inv (without sid lay) (disk ob')"
    using inv quiet_lookup [OF q]
    by (auto simp: outbox_inv_def disk_inv_def seg_holds_def ob'_def lookup_deleted)
  ultimately show "outbox_inv py (without sid lay) ob'" by (simp add: outbox_inv_def)
  show "contents_of (without sid lay) ob' = contents_of lay ob"
    using memory_inv_without(2) [OF m s] by (simp add: contents_of_def ob'_def)
  show "same_queue ob ob'" using quiet_fields(7) [OF q] by (simp add: same_queue_def ob'_def)
qed

lemma unlinked_durable:
  assumes inv: "outbox_inv py lay ob" and d: "durable_inv py lay ob"
    and s: "sid < cur_seg (checkpoint_cursor ob)" "(sid, efs) \<in> set lay" "sid \<noteq> fst (last lay)"
    and q: "quiet (disk ob) d0" and f: "lookup_seg sid (disk ob) = Some f"
  shows "durable_inv py (without sid lay) (ob\<lparr>disk := d0\<lparr>seg_files := AList.delete sid (seg_files d0),
      seg_ghosts := (sid, f) # seg_ghosts d0\<rparr>, segments := AList.delete sid (segments ob)\<rparr>)"
    (is "durable_inv py ?lay ?ob")
proof -
  have ok: "layout_ok py lay" using inv by (simp add: outbox_inv_def memory_inv_def)
  note fd = quiet_fields [OF q]
  have look: "lookup_seg x (disk ?ob) = (if x = sid then None else lookup_seg x (disk ob))" for x
    by (simp add: lookup_deleted quiet_lookup [OF q])
  have last: "last ?lay = last lay" using last_filter_key [of lay sid] s(3) ok by (simp add: layout_ok_def)
  have ex: "seg_exact (disk ob) a b (a \<noteq> fst (last lay) \<or> \<not> data_sync_pending ob)"
    if "(a, b) \<in> set lay" for a b using d that by (fastforce simp: durable_inv_def)
  have ghost: "ghost_good py ?lay (checkpoint_cursor ob) (sid, f)"
  proof -
    from ex [OF s(2)] f s(3) have "contents f = encode_segment_header sid @ blob efs"
      "length (contents f) \<le> synced f" by (auto simp: seg_exact_def)
    moreover have "0 < sid" "sid \<le> MAX_SEGMENT_ID" "frames_ok py efs"
      using ok s(2) by (auto simp: layout_ok_def)
    ultimately show ?thesis using s(1) unfolding ghost_good_def keys_without by auto
  qed
  have ghosts: "ghost_good py ?lay (checkpoint_cursor ob) g" if "g \<in> set (seg_ghosts (disk ob))" for g
  proof -
    from d that have "ghost_good py lay (checkpoint_cursor ob) g" by (simp add: durable_inv_def)
    then show ?thesis unfolding ghost_good_def keys_without by auto
  qed
  have ck: "checkpoint_good py ?lay (checkpoint_cursor ob) (volatile_cursor ob) (disk ?ob) t"
    if "t \<in> set (ckpt_file (disk ob) # ckpt_maybe (disk ob))" for t
  proof -
    from d that obtain g c b f' where c: "t = Some b" "checkpoint_text py g c = Inr b"
      "boundary lay c" "cursor_le (checkpoint_cursor ob) c"
      "lookup_seg (cur_seg c) (disk ob) = Some f'" "cur_off c \<le> synced f'"
      "cursor_le c (volatile_cursor ob)"
      by (fastforce simp: durable_inv_def checkpoint_good_def)
    from c(4) s(1) have "cur_seg c \<noteq> sid" by (auto simp: cursor_le_def)
    with c boundary_without [OF c(3)] look show ?thesis unfolding checkpoint_good_def by metis
  qed
  show ?thesis
    unfolding durable_inv_def last
  proof (intro conjI)
    show "\<forall>(a, b) \<in> set ?lay. seg_exact (disk ?ob) a b (a \<noteq> fst (last lay) \<or> \<not> data_sync_pending ?ob)"
      using ex look by (auto simp: seg_exact_def)
    show "\<forall>g \<in> set (seg_ghosts (disk ?ob)). ghost_good py ?lay (checkpoint_cursor ?ob) g"
      using ghost ghosts fd by simp
    show "\<forall>t \<in> set (ckpt_file (disk ?ob) # ckpt_maybe (disk ?ob)).
        checkpoint_good py ?lay (checkpoint_cursor ?ob) (volatile_cursor ?ob) (disk ?ob) t"
      using ck by (simp add: fd)
    show "set (map fst (seg_files (disk ?ob))) = set (map fst ?lay)"
      using d by (auto simp: durable_inv_def fd keys_without delete_keys)
    show "set (map fst ?lay) \<subseteq> set (segs_settled (disk ?ob))"
      using d by (auto simp: durable_inv_def fd keys_without)
    show "distinct (map fst (seg_files (disk ?ob)))"
      using d by (simp add: durable_inv_def fd distinct_delete)
  qed (use d fd in \<open>auto simp: durable_inv_def format_good_def\<close>)
qed

definition checkpoints :: "disk \<Rightarrow> bytes option set" where
  "checkpoints d = set (ckpt_file d # ckpt_maybe d)"

definition cleaned :: "python \<Rightarrow> layout \<Rightarrow> outbox \<Rightarrow> layout \<Rightarrow> outbox \<Rightarrow> bool" where
  "cleaned py lay ob lay' ob' \<longleftrightarrow>
     outbox_inv py lay' ob' \<and> contents_of lay' ob' = contents_of lay ob \<and> same_queue ob ob'
     \<and> volatile_cursor ob' = volatile_cursor ob \<and> data_sync_pending ob' = data_sync_pending ob
     \<and> last lay' = last lay \<and> checkpoints (disk ob') \<subseteq> checkpoints (disk ob)
     \<and> (durable_inv py lay ob \<longrightarrow> durable_inv py lay' ob')"

lemma cleaned_refl: "outbox_inv py lay ob \<Longrightarrow> cleaned py lay ob lay ob"
  by (simp add: cleaned_def)

lemma cleaned_trans: "cleaned py a x b y \<Longrightarrow> cleaned py b y c z \<Longrightarrow> cleaned py a x c z"
  unfolding cleaned_def using same_queue_trans by (metis subset_trans)

lemma quiet_cleaned:
  assumes "outbox_inv py lay ob" and q: "quiet (disk ob) d"
  shows "cleaned py lay ob lay (ob\<lparr>disk := d\<rparr>)"
  using outbox_inv_quiet [OF assms] durable_quiet [OF _ q] quiet_fields [OF q]
  by (simp add: cleaned_def contents_of_def same_queue_def checkpoints_def)

lemma unlinked_cleaned:
  assumes inv: "outbox_inv py lay ob" and s: "sid < cur_seg (checkpoint_cursor ob)"
    "sid \<in> set (map fst lay)" "sid \<noteq> fst (last lay)"
    and q: "quiet (disk ob) d0" and f: "lookup_seg sid (disk ob) = Some f"
  shows "cleaned py lay ob (without sid lay)
    (ob\<lparr>disk := d0\<lparr>seg_files := AList.delete sid (seg_files d0), seg_ghosts := (sid, f) # seg_ghosts d0\<rparr>,
        segments := AList.delete sid (segments ob)\<rparr>)"
proof -
  from s(2) obtain efs where e: "(sid, efs) \<in> set lay" by auto
  have "lay \<noteq> []" using inv by (simp add: outbox_inv_def memory_inv_def layout_ok_def)
  with last_filter_key [of lay sid] s(3) have "last (without sid lay) = last lay" by simp
  with unlinked_outbox [OF inv s(1,3) q, of f] unlinked_durable [OF inv _ s(1) e s(3) q f]
    quiet_fields [OF q]
  show ?thesis by (simp add: cleaned_def checkpoints_def)
qed

lemma unlink_each_cleaned:
  "outbox_inv py lay ob \<Longrightarrow> distinct sids \<Longrightarrow>
     \<forall>s \<in> set sids. s < cur_seg (checkpoint_cursor ob) \<and> s \<in> set (map fst lay) \<and> s \<noteq> fst (last lay) \<Longrightarrow>
     \<exists>lay'. cleaned py lay ob lay' (snd (unlink_each sids ob))"
proof (induction sids arbitrary: lay ob)
  case Nil
  then show ?case using cleaned_refl by auto
next
  case (Cons sid sids)
  from Cons.prems have sid: "sid < cur_seg (checkpoint_cursor ob)" "sid \<in> set (map fst lay)"
    "sid \<noteq> fst (last lay)" "sid \<notin> set sids" "distinct sids" by auto
  from sid(2) obtain efs where "(sid, efs) \<in> set lay" by auto
  with Cons.prems(1) have "seg_holds (disk ob) sid efs" by (auto simp: outbox_inv_def disk_inv_def)
  then obtain f where f: "lookup_seg sid (disk ob) = Some f" by (auto simp: seg_holds_def)
  obtain r d where u: "unlink_seg sid (disk ob) = (r, d)" by (cases "unlink_seg sid (disk ob)")
  have step: "\<exists>lay'. cleaned py lay ob lay' (snd (unlink_each (sid # sids) ob))"
    if c: "cleaned py lay ob lay1 ob1" and k: "set (map fst lay) - {sid} \<subseteq> set (map fst lay1)"
      and e: "snd (unlink_each (sid # sids) ob) = snd (unlink_each sids ob1)" for lay1 ob1
  proof -
    from c have "checkpoint_cursor ob1 = checkpoint_cursor ob" "last lay1 = last lay" "outbox_inv py lay1 ob1"
      by (auto simp: cleaned_def same_queue_def)
    with Cons.prems(3) k sid(4) have "\<forall>s \<in> set sids. s < cur_seg (checkpoint_cursor ob1)
        \<and> s \<in> set (map fst lay1) \<and> s \<noteq> fst (last lay1)" by auto
    with Cons.IH [OF \<open>outbox_inv py lay1 ob1\<close> sid(5)] obtain lay'
      where "cleaned py lay1 ob1 lay' (snd (unlink_each sids ob1))" by blast
    with cleaned_trans [OF c] e show ?thesis by auto
  qed
  from u f show ?case
  proof (cases rule: unlink_cases)
    case (1 e)
    with u have "snd (unlink_each (sid # sids) ob) = snd (unlink_each sids (ob\<lparr>disk := d\<rparr>))" by simp
    then show ?thesis by (rule step [OF quiet_cleaned [OF Cons.prems(1) 1(2)], rotated]) auto
  next
    case (2 d0)
    have "set (map fst lay) - {sid} \<subseteq> set (map fst (without sid lay))" by (auto simp: keys_without)
    moreover have "snd (unlink_each (sid # sids) ob) = snd (unlink_each sids
      (ob\<lparr>disk := d0\<lparr>seg_files := AList.delete sid (seg_files d0), seg_ghosts := (sid, f) # seg_ghosts d0\<rparr>,
        segments := AList.delete sid (segments ob)\<rparr>))" using u 2 by simp
    ultimately show ?thesis by (rule step [OF unlinked_cleaned [OF Cons.prems(1) sid(1-3) 2(2) f]])
  qed
qed

lemma settle_durable:
  assumes "durable_inv py lay ob" and "quiet (disk ob) d"
  shows "durable_inv py lay (ob\<lparr>disk := settle d\<rparr>)"
proof -
  have "durable_inv py lay (ob\<lparr>disk := d\<rparr>)" by (rule durable_quiet [OF assms])
  then show ?thesis
    by (simp add: durable_inv_def format_good_def seg_exact_def checkpoint_good_def)
qed

lemma cleanup_effect:
  assumes inv: "outbox_inv py lay ob"
  shows "\<exists>lay'. cleaned py lay ob lay' (cleanup_completed_segments_locked ob)"
proof -
  have m: "memory_inv py lay ob" using inv by (simp add: outbox_inv_def)
  let ?rm = "filter (\<lambda>sid. sid < cur_seg (checkpoint_cursor ob) \<and> sid < active_id ob)
    (sort (map fst (segments ob)))"
  have keys: "map fst (segments ob) = map fst lay" "distinct (map fst lay)"
    using m by (auto simp: memory_inv_def layout_ok_def strict_sorted_iff)
  then have "distinct ?rm" "\<forall>s \<in> set ?rm. s < cur_seg (checkpoint_cursor ob)
      \<and> s \<in> set (map fst lay) \<and> s \<noteq> fst (last lay)"
    using active_facts(1) [OF m] by auto
  from unlink_each_cleaned [OF inv this] obtain lay1
    where c: "cleaned py lay ob lay1 (snd (unlink_each ?rm ob))" by blast
  obtain any ob1 where u: "unlink_each ?rm ob = (any, ob1)" by (cases "unlink_each ?rm ob")
  then have c: "cleaned py lay ob lay1 ob1" using c by simp
  show ?thesis
  proof (cases any)
    case False
    with u have "cleanup_completed_segments_locked ob = ob1"
      by (simp add: cleanup_completed_segments_locked_def Let_def)
    with c show ?thesis by auto
  next
    case True
    obtain r d where fd: "fsync_directory (disk ob1) = (r, d)" by (cases "fsync_directory (disk ob1)")
    have e: "cleanup_completed_segments_locked ob = ob1\<lparr>disk := d\<rparr>"
      using True u fd by (simp add: cleanup_completed_segments_locked_def Let_def)
    from c have inv1: "outbox_inv py lay1 ob1" by (simp add: cleaned_def)
    from fd obtain d1 where d1: "quiet (disk ob1) d1" "d = d1 \<or> d = settle d1"
      by (rule fsync_directory_cases) auto
    have "cleaned py lay1 ob1 lay1 (ob1\<lparr>disk := settle d1\<rparr>)"
      using quiet_cleaned [OF inv1 d1(1)] settle_durable [OF _ d1(1), of py lay1]
      by (auto simp: cleaned_def outbox_inv_def disk_inv_def seg_holds_def contents_of_def
          same_queue_def checkpoints_def)
    then have "cleaned py lay1 ob1 lay1 (ob1\<lparr>disk := d\<rparr>)"
      using quiet_cleaned [OF inv1 d1(1)] d1(2) by auto
    with cleaned_trans [OF c] e show ?thesis by auto
  qed
qed

section \<open>Moving the cursors\<close>

lemma consecutive_suffix: "consecutive (zs @ ys) \<Longrightarrow> consecutive ys"
proof (induction zs)
  case (Cons z zs)
  then show ?case by (cases "zs @ ys") auto
qed simp

lemma consecutive_later:
  assumes "sorted_wrt (<) xs" and "consecutive (filter (\<lambda>s. a \<le> s) xs)" and "a \<le> (b :: nat)"
  shows "consecutive (filter (\<lambda>s. b \<le> s) xs)"
proof -
  have "sorted_wrt (<) (filter (\<lambda>s. a \<le> s) xs)" using assms(1) by (rule sorted_wrt_filter)
  then obtain zs where "filter (\<lambda>s. a \<le> s) xs = zs @ filter (\<lambda>s. b \<le> s) (filter (\<lambda>s. a \<le> s) xs)"
    using filter_upward [of "(<)" "filter (\<lambda>s. a \<le> s) xs" "\<lambda>s. b \<le> s"] by auto
  moreover have "filter (\<lambda>s. b \<le> s) (filter (\<lambda>s. a \<le> s) xs) = filter (\<lambda>s. b \<le> s) xs"
    unfolding filter_filter using assms(3) by (intro filter_cong) auto
  ultimately show ?thesis using assms(2) consecutive_suffix by metis
qed

lemma cursor_le_position: "at_or_after c x \<Longrightarrow> cursor_le c (position x)"
  by (auto simp: at_or_after_def cursor_le_def position_def)

lemma after_le: "cursor_le c c' \<Longrightarrow> set (after c' lay) \<subseteq> set (after c lay)"
  by (auto simp: after_def at_or_after_le)

lemma ids_after_le:
  assumes ok: "layout_ok py lay" and le: "cursor_le c c'" and d: "distinct (ids_after c lay)"
  shows "distinct (ids_after c' lay)"
proof -
  have "filter (at_or_after c' \<circ> fst) (after c lay) = after c' lay"
    unfolding after_def filter_filter using le by (intro filter_cong) (auto intro: at_or_after_le)
  moreover have "distinct (map (st_id \<circ> fst) (filter (at_or_after c' \<circ> fst) (after c lay)))"
    using d unfolding ids_after_def by (rule distinct_map_filter)
  ultimately show ?thesis by (simp add: ids_after_def)
qed

text \<open>The cursor before the \<open>n\<close>th pending record; after the last one it is the end.\<close>

lemma nth_cursor:
  assumes m: "memory_inv py lay ob"
    and c: "c = (if n < length (pending ob) then position (pending ob ! n) else cursor_end ob)"
    and n: "n \<le> length (pending ob)"
  shows "boundary lay c" "cursor_le (volatile_cursor ob) c"
    "after c lay = drop n (after (volatile_cursor ob) lay)"
proof -
  have ok: "layout_ok py lay" and p: "pending ob = map fst (after (volatile_cursor ob) lay)"
    and b: "boundary lay (volatile_cursor ob)"
    using m by (auto simp: memory_inv_def)
  have "boundary lay c \<and> cursor_le (volatile_cursor ob) c \<and> after c lay = drop n (after (volatile_cursor ob) lay)"
  proof (cases "n < length (pending ob)")
    case True
    let ?q = "after (volatile_cursor ob) lay"
    obtain x e where xe: "?q ! n = (x, e)" by (cases "?q ! n")
    have lt: "n < length ?q" using True p by simp
    then have q: "?q = take n ?q @ (x, e) # drop (Suc n) ?q" using xe by (metis id_take_nth_drop)
    have mem: "(x, e) \<in> set ?q" using lt xe by (metis nth_mem)
    have "c = position x" using True c p lt xe by simp
    moreover have "after (position x) lay = (x, e) # drop (Suc n) ?q" by (rule after_position [OF ok q])
    moreover have "(x, e) # drop (Suc n) ?q = drop n ?q" using lt xe by (metis Cons_nth_drop_Suc)
    moreover have "boundary lay (position x)" using position_boundary mem after_subset by blast
    moreover have "at_or_after (volatile_cursor ob) x" using mem by (simp add: after_def)
    ultimately show ?thesis using cursor_le_position by simp
  next
    case False
    with c have "c = end_of lay" using active_facts(3) [OF m] by simp
    moreover have "lay \<noteq> []" using ok by (simp add: layout_ok_def)
    ultimately show ?thesis
      using end_boundary after_end [OF ok] boundary_le_end [OF ok b] False n p by simp
  qed
  then show "boundary lay c" "cursor_le (volatile_cursor ob) c"
    "after c lay = drop n (after (volatile_cursor ob) lay)" by auto
qed

lemma normalized_nth:
  "normalized_volatile_cursor_locked ob
     = (if 0 < length (pending ob) then position (pending ob ! 0) else cursor_end ob)"
  by (cases "pending ob") (auto simp: normalized_volatile_cursor_locked_def position_def)

lemma after_oldest_nth:
  "cursor_after_oldest_locked ob
     = (if 1 < length (pending ob) then position (pending ob ! 1) else cursor_end ob)"
  by (auto simp: cursor_after_oldest_locked_def position_def split: list.splits)

lemma advance_checkpoint:
  assumes m: "memory_inv py lay ob" and b: "boundary lay c" and le: "cursor_le (volatile_cursor ob) c"
    and a: "after c lay = after (volatile_cursor ob) lay"
  shows "memory_inv py lay (ob\<lparr>checkpoint_cursor := c, volatile_cursor := c, volatile_completed_ids := {}\<rparr>)"
proof -
  have ok: "layout_ok py lay" and ck: "cursor_le (checkpoint_cursor ob) c"
    using m le cursor_le_trans by (auto simp: memory_inv_def)
  then have "distinct (ids_after c lay)" using ids_after_le m by (auto simp: memory_inv_def)
  moreover have "consecutive (filter (\<lambda>s. cur_seg c \<le> s) (map fst lay))"
    using consecutive_later [of "map fst lay" "cur_seg (checkpoint_cursor ob)" "cur_seg c"] m ck ok
    by (auto simp: memory_inv_def layout_ok_def cursor_le_def)
  moreover have "\<forall>(x, e) \<in> set (after c lay). at_or_after c x" by (auto simp: after_def)
  ultimately show ?thesis using m b a by (auto simp: memory_inv_def)
qed

lemma index_pending_rev: "index_pending xs = map_of (rev (map (\<lambda>x. (st_id x, x)) xs))"
proof (induction xs rule: rev_induct)
  case Nil
  then show ?case by (simp add: index_pending_def)
next
  case (snoc x xs)
  then show ?case by (simp add: index_pending_def)
qed

lemma index_pending_distinct:
  "distinct (map st_id xs) \<Longrightarrow> index_pending xs = map_of (map (\<lambda>x. (st_id x, x)) xs)"
proof -
  assume d: "distinct (map st_id xs)"
  let ?al = "map (\<lambda>x. (st_id x, x)) xs"
  have k1: "distinct (map fst ?al)" using d by (simp add: comp_def)
  have "map fst (rev ?al) = rev (map fst ?al)" by (simp only: rev_map)
  with k1 have keys: "distinct (map fst ?al)" "distinct (map fst (rev ?al))" by (simp_all only: distinct_rev)
  show ?thesis
    unfolding index_pending_rev
  proof (rule ext)
    fix k
    have eq: "map_of (rev ?al) k = Some v \<longleftrightarrow> map_of ?al k = Some v" for v
      by (simp only: map_of_eq_Some_iff [OF keys(1)] map_of_eq_Some_iff [OF keys(2)] set_rev)
    show "map_of (rev ?al) k = map_of ?al k"
    proof (cases "map_of ?al k")
      case None
      then show ?thesis using eq [of "the (map_of (rev ?al) k)"] by (cases "map_of (rev ?al) k") simp_all
    next
      case (Some v)
      then show ?thesis using eq [of v] by simp
    qed
  qed
qed

end
