(* ===== verification/OutboxRemove.thy ===== *)
theory OutboxRemove
  imports OutboxHead
begin

text \<open>
  Persisting the checkpoint and removing the head: the queue loses its first message exactly
  when it matches, and a durable removal leaves no checkpoint from which it would come back.
\<close>

section \<open>Persisting a cursor\<close>

lemma memory_inv_cong_disk [simp]:
  "memory_inv py lay (ob\<lparr>checkpoint_cursor := c, checkpoint_generation := g\<rparr>)
     = memory_inv py lay (ob\<lparr>checkpoint_cursor := c\<rparr>)"
  by (simp add: memory_inv_def)

lemma install_checkpoint_cases:
  assumes "install_checkpoint_file b d = (r, d')"
  obtains "r = Inl OSError" "quiet d d'"
  | d0 d1 where "quiet d d0"
    "quiet (d0\<lparr>ckpt_file := Some b, ckpt_maybe := Some b # ckpt_maybe d0\<rparr>) d1"
    "(r = Inl OSError \<and> d' = d1) \<or> (r = Inr () \<and> d' = settle d1)
       \<or> (r = Inr () \<and> d' = d1 \<and> IoUnsupported \<in> set (io_script d))"
proof -
  obtain r0 d0 where t: "write_temporary d = (r0, d0)" by (cases "write_temporary d")
  have q0: "quiet d d0" "r0 = Inr () \<or> r0 = Inl OSError" using write_temporary_quiet [OF t] by auto
  obtain r1 d1 where o: "os_call d0 = (r1, d1)" by (cases "os_call d0")
  have q1: "quiet d d1" "r1 = Inr () \<or> r1 = Inl OSError"
    using os_call_quiet [OF o] quiet_trans [OF q0(1)] by auto
  show ?thesis
  proof (cases "r0 = Inr () \<and> r1 = Inr ()")
    case False
    with assms q0 q1 t o have "r = Inl OSError" "quiet d d'"
      by (auto simp: install_checkpoint_file_def andThen_def)
    then show ?thesis by (rule that(1))
  next
    case True
    let ?u = "d1\<lparr>ckpt_file := Some b, ckpt_maybe := Some b # ckpt_maybe d1\<rparr>"
    have "fsync_directory ?u = (r, d')"
      using True assms t o by (simp add: install_checkpoint_file_def andThen_def)
    then obtain d2 where d2: "quiet ?u d2"
      "(r = Inl OSError \<and> d' = d2) \<or> (r = Inr () \<and> d' = settle d2)
       \<or> (r = Inr () \<and> d' = d2 \<and> IoUnsupported \<in> set (io_script ?u))"
      by (rule fsync_directory_cases)
    moreover have "IoUnsupported \<in> set (io_script ?u) \<Longrightarrow> IoUnsupported \<in> set (io_script d)"
      using quiet_fields(7) [OF q1(1)] by auto
    ultimately show ?thesis using that(2) [OF q1(1) d2(1)] by blast
  qed
qed

text \<open>Every checkpoint a crash may leave names this cursor.\<close>

definition checkpoint_is :: "python \<Rightarrow> disk \<Rightarrow> cursor \<Rightarrow> bool" where
  "checkpoint_is py d c \<longleftrightarrow>
     (\<forall>t \<in> checkpoints d. \<exists>g b. t = Some b \<and> checkpoint_text py g c = Inr b)"

definition progress_saved :: "outbox \<Rightarrow> outbox \<Rightarrow> bool" where
  "progress_saved ob ob' \<longleftrightarrow>
     (\<exists>d g b. ob' = ob\<lparr>disk := d, checkpoint_generation := g, checkpoint_needs_rewrite := b\<rparr>
        \<and> seg_files d = seg_files (disk ob) \<and> fmt_file d = fmt_file (disk ob)
        \<and> set (io_script d) \<subseteq> set (io_script (disk ob)))"

lemma progress_saved_facts:
  assumes "progress_saved ob ob'"
  shows "outbox_inv py lay ob \<Longrightarrow> outbox_inv py lay ob'" "same_queue ob ob'"
    "volatile_cursor ob' = volatile_cursor ob" "contents_of lay ob' = contents_of lay ob"
    "segments ob' = segments ob" "data_sync_pending ob' = data_sync_pending ob"
  using assms
  by (auto simp: progress_saved_def outbox_inv_def disk_inv_def seg_holds_def lookup_seg_def same_queue_def
      contents_of_def)

lemma durable_synced:
  assumes "outbox_inv py lay ob" and d: "durable_inv py lay ob" and p: "\<not> data_sync_pending ob"
    and b: "boundary lay c"
  shows "\<exists>f. lookup_seg (cur_seg c) (disk ob) = Some f \<and> cur_off c \<le> synced f"
proof -
  from boundary_le_size [OF b] obtain efs where e: "(cur_seg c, efs) \<in> set lay" "cur_off c \<le> seg_size efs"
    by blast
  with d p have "seg_exact (disk ob) (cur_seg c) efs True" by (fastforce simp: durable_inv_def)
  with e(2) show ?thesis by (auto simp: seg_exact_def seg_size_def)
qed

lemma persist_effect:
  assumes inv: "outbox_inv py lay ob" and b: "boundary lay c" and le: "cursor_le (checkpoint_cursor ob) c"
    and r: "persist_checkpoint_locked py c ob = (r, ob')"
  shows "progress_saved ob ob' \<and> (r = Inr () \<or> r = Inl OutboxError)
    \<and> (r = Inr () \<and> durable_inv py lay ob \<and> \<not> data_sync_pending ob \<longrightarrow>
         durable_inv py lay (ob'\<lparr>checkpoint_cursor := c, volatile_cursor := c\<rparr>)
         \<and> checkpoint_is py (disk ob') c)"
proof (cases "checkpoint_text py (checkpoint_generation ob + 1) c")
  case (Inl e)
  then have "e = OutboxError"
    by (auto simp: checkpoint_text_def canonical_json_def bindE_def split: sum.splits option.splits)
  moreover have "progress_saved ob ob"
    unfolding progress_saved_def
    by (intro exI [of _ "disk ob"] exI [of _ "checkpoint_generation ob"]
        exI [of _ "checkpoint_needs_rewrite ob"]) simp
  ultimately show ?thesis using r Inl by (auto simp: persist_checkpoint_locked_def andThen_def)
next
  case (Inr t)
  obtain r1 d where i: "install_checkpoint_file t (disk ob) = (r1, d)"
    by (cases "install_checkpoint_file t (disk ob)")
  have res: "r = (case r1 of Inl e \<Rightarrow> Inl (if e = OSError then OutboxError else e) | Inr x \<Rightarrow> Inr ())"
    "ob' = (case r1 of Inl e \<Rightarrow> ob\<lparr>disk := d\<rparr> | Inr x \<Rightarrow> ob\<lparr>disk := d,
        checkpoint_generation := checkpoint_generation ob + 1, checkpoint_needs_rewrite := False\<rparr>)"
    using r Inr on_disk_eq [where m = "install_checkpoint_file t" and ob = ob, OF i]
    by (auto simp: persist_checkpoint_locked_def andThen_def modify_def split: sum.splits)
  have fields: "(r1 = Inr () \<or> r1 = Inl OSError) \<and> seg_files d = seg_files (disk ob)
      \<and> fmt_file d = fmt_file (disk ob) \<and> set (io_script d) \<subseteq> set (io_script (disk ob))"
    using i
  proof (cases rule: install_checkpoint_cases)
    case 1
    then show ?thesis using quiet_fields [OF 1(2)] by auto
  next
    case (2 d0 d1)
    then show ?thesis using quiet_fields [OF 2(1)] quiet_fields [OF 2(2)] by auto
  qed
  have per: "progress_saved ob ob'"
  proof (cases r1)
    case (Inl e)
    then show ?thesis unfolding progress_saved_def res using fields
      by (intro exI [of _ d] exI [of _ "checkpoint_generation ob"]
          exI [of _ "checkpoint_needs_rewrite ob"]) simp
  next
    case (Inr u)
    then show ?thesis unfolding progress_saved_def res using fields
      by (intro exI [of _ d] exI [of _ "checkpoint_generation ob + 1"] exI [of _ False]) simp
  qed
  have "durable_inv py lay (ob'\<lparr>checkpoint_cursor := c, volatile_cursor := c\<rparr>) \<and> checkpoint_is py (disk ob') c"
    if ok: "r = Inr ()" and du: "durable_inv py lay ob" and p: "\<not> data_sync_pending ob"
  proof -
    have r1: "r1 = Inr ()" using ok res fields by auto
    from i obtain d0 d1 where d01: "quiet (disk ob) d0"
      "quiet (d0\<lparr>ckpt_file := Some t, ckpt_maybe := Some t # ckpt_maybe d0\<rparr>) d1" "d = settle d1"
      using r1 du by (cases rule: install_checkpoint_cases) (auto simp: durable_inv_def)
    note f0 = quiet_fields [OF d01(1)] and f1 = quiet_fields [OF d01(2)]
    have look: "lookup_seg s (disk ob') = lookup_seg s (disk ob)" for s
      using d01 f0 f1 by (simp add: res r1 lookup_seg_def)
    from durable_synced [OF inv du p b] have "checkpoint_good py lay c c (disk ob') (Some t)"
      using Inr b look unfolding checkpoint_good_def
      by (intro exI [of _ "checkpoint_generation ob + 1"] exI [of _ c] exI [of _ t]) auto
    moreover have "seg_exact (disk ob') sid efs (sid \<noteq> fst (last lay) \<or> \<not> data_sync_pending ob)"
      if "(sid, efs) \<in> set lay" for sid efs
      using du that look by (fastforce simp: durable_inv_def seg_exact_def)
    ultimately have "durable_inv py lay (ob'\<lparr>checkpoint_cursor := c, volatile_cursor := c\<rparr>)"
      using du f0 f1 d01(3)
      by (auto simp: durable_inv_def format_good_def res r1)
    moreover have "checkpoint_is py (disk ob') c"
      using Inr f0 f1 d01(3) by (auto simp: checkpoint_is_def checkpoints_def res r1)
    ultimately show ?thesis by simp
  qed
  then show ?thesis using per res fields by auto
qed

section \<open>The checkpoint\<close>

lemma durable_advance_field [simp]:
  "durable_inv py lay (ob\<lparr>volatile_completed_ids := s\<rparr>) = durable_inv py lay ob"
  "durable_inv py lay (ob\<lparr>pending := p\<rparr>) = durable_inv py lay ob"
  "durable_inv py lay (ob\<lparr>pending_by_id := i\<rparr>) = durable_inv py lay ob"
  by (simp_all add: durable_inv_def)

lemma durable_forward:
  assumes d: "durable_inv py lay ob" and le: "cursor_le (volatile_cursor ob) v"
  shows "durable_inv py lay (ob\<lparr>volatile_cursor := v\<rparr>)"
proof -
  have "checkpoint_good py lay ck (volatile_cursor ob) dk t \<Longrightarrow> checkpoint_good py lay ck v dk t" for ck dk t
    using cursor_le_trans [OF _ le] unfolding checkpoint_good_def by blast
  with d show ?thesis by (auto simp: durable_inv_def)
qed

text \<open>\<open>same_limits\<close>: what every operation of an Outbox leaves alone.\<close>

definition same_limits :: "outbox \<Rightarrow> outbox \<Rightarrow> bool" where
  "same_limits ob ob' \<longleftrightarrow> segment_max_bytes ob' = segment_max_bytes ob
     \<and> segment_max_records ob' = segment_max_records ob
     \<and> set (io_script (disk ob')) \<subseteq> set (io_script (disk ob))"

lemma same_queue_limits: "same_queue a b \<Longrightarrow> same_limits a b"
  by (simp add: same_queue_def same_limits_def)

lemma same_limits_refl [simp]: "same_limits a a"
  by (simp add: same_limits_def)

lemma same_limits_trans: "same_limits a b \<Longrightarrow> same_limits b c \<Longrightarrow> same_limits a c"
  by (auto simp: same_limits_def)

definition checkpointed :: "cursor \<Rightarrow> outbox \<Rightarrow> outbox" where
  "checkpointed c ob = ob\<lparr>checkpoint_cursor := c, volatile_cursor := c, volatile_completed_ids := {}\<rparr>"

lemma checkpoint_effect:
  assumes inv: "outbox_inv py lay ob" and r: "checkpoint py ob = (r, ob')"
  shows "same_limits ob ob' \<and> pending ob' = pending ob \<and> pending_by_id ob' = pending_by_id ob
    \<and> (r = Inr () \<or> r = Inl OutboxError) \<and> (r = Inr () \<longrightarrow> volatile_completed_ids ob' = {})
    \<and> (\<exists>lay'. outbox_inv py lay' ob' \<and> contents_of lay' ob' = contents_of lay ob
         \<and> (r = Inr () \<and> durable_inv py lay ob \<longrightarrow> durable_inv py lay' ob'))"
proof -
  obtain r0 ob0 where s: "sync_data_locked ob = (r0, ob0)" by (cases "sync_data_locked ob")
  from sync_effect [OF inv s] have s0: "sync_only ob ob0" "r0 = Inr () \<or> r0 = Inl OutboxError"
    "r0 = Inr () \<longrightarrow> \<not> data_sync_pending ob0" "durable_inv py lay ob \<longrightarrow> durable_inv py lay ob0" by auto
  have inv0: "outbox_inv py lay ob0" using sync_only_inv [OF inv s0(1)] .
  have sq0: "same_queue ob ob0" using sync_only_same_queue [OF s0(1)] .
  have ct0: "contents_of lay ob0 = contents_of lay ob" using sync_only_contents [OF s0(1)] .
  have m0: "memory_inv py lay ob0" using inv0 by (simp add: outbox_inv_def)
  let ?c = "normalized_volatile_cursor_locked ob0"
  note nc = nth_cursor [OF m0 normalized_nth]
  have c: "boundary lay ?c" "cursor_le (volatile_cursor ob0) ?c"
    "after ?c lay = after (volatile_cursor ob0) lay" using nc by auto
  have le: "cursor_le (checkpoint_cursor ob0) ?c"
    using m0 c(2) cursor_le_trans by (auto simp: memory_inv_def)
  show ?thesis
  proof (cases r0)
    case (Inl e)
    with r s s0(2) have "r = Inl OutboxError" "ob' = ob0" by (auto simp: checkpoint_def andThen_def)
    then show ?thesis using inv0 ct0 sq0 same_queue_limits [OF sq0] by (auto simp: same_queue_def)
  next
    case (Inr u)
    then have p0: "\<not> data_sync_pending ob0" using s0(3) by simp
    define go where "go = (if ?c \<noteq> checkpoint_cursor ob0 \<or> checkpoint_needs_rewrite ob0
      then andThen (persist_checkpoint_locked py ?c) (\<lambda>_. modify (\<lambda>s. s\<lparr>checkpoint_cursor := ?c\<rparr>))
      else ret ())"
    obtain r1 ob1 where g: "go ob0 = (r1, ob1)" by (cases "go ob0")
    have step: "andThen go (\<lambda>_. modify (\<lambda>s. cleanup_completed_segments_locked
        (s\<lparr>volatile_cursor := ?c, volatile_completed_ids := {}\<rparr>))) ob0 = (r, ob')"
      using r by (simp add: checkpoint_def andThen_Inr [where m = sync_data_locked, OF s [unfolded Inr]]
          go_def Let_def)
    have res: "r = r1" "ob' = (case r1 of Inl e \<Rightarrow> ob1 | Inr _ \<Rightarrow>
        cleanup_completed_segments_locked (ob1\<lparr>volatile_cursor := ?c, volatile_completed_ids := {}\<rparr>))"
      using step g by (auto simp: andThen_def modify_def split: sum.splits)
    obtain obp where per: "progress_saved ob0 obp" "r1 = Inr () \<or> r1 = Inl OutboxError"
      "ob1 = (case r1 of Inl _ \<Rightarrow> obp | Inr _ \<Rightarrow> obp\<lparr>checkpoint_cursor := ?c\<rparr>)"
      "r1 = Inr () \<and> durable_inv py lay ob0 \<longrightarrow>
         durable_inv py lay (obp\<lparr>checkpoint_cursor := ?c, volatile_cursor := ?c\<rparr>)"
    proof (cases "?c \<noteq> checkpoint_cursor ob0 \<or> checkpoint_needs_rewrite ob0")
      case True
      obtain rp obp where p: "persist_checkpoint_locked py ?c ob0 = (rp, obp)"
        by (cases "persist_checkpoint_locked py ?c ob0")
      with g True have "r1 = rp" "ob1 = (case rp of Inl _ \<Rightarrow> obp | Inr _ \<Rightarrow> obp\<lparr>checkpoint_cursor := ?c\<rparr>)"
        by (auto simp: go_def andThen_def modify_def split: sum.splits)
      with that persist_effect [OF inv0 c(1) le p] p0 show ?thesis by auto
    next
      case False
      with g have "r1 = Inr ()" "ob1 = ob0" by (auto simp: go_def)
      moreover have "progress_saved ob0 ob0"
        unfolding progress_saved_def
        by (intro exI [of _ "disk ob0"] exI [of _ "checkpoint_generation ob0"]
            exI [of _ "checkpoint_needs_rewrite ob0"]) simp
      moreover have "ob0\<lparr>checkpoint_cursor := ?c\<rparr> = ob0" using False by simp
      moreover have "durable_inv py lay ob0 \<longrightarrow>
          durable_inv py lay (ob0\<lparr>checkpoint_cursor := ?c, volatile_cursor := ?c\<rparr>)"
        using durable_forward [OF _ c(2)] \<open>ob0\<lparr>checkpoint_cursor := ?c\<rparr> = ob0\<close> by simp
      ultimately show ?thesis using that [of ob0] by auto
    qed
    note pf = progress_saved_facts [OF per(1)]
    have sqp: "same_queue ob obp" using same_queue_trans [OF sq0 pf(2)] .
    show ?thesis
    proof (cases r1)
      case (Inl e)
      then have "r = Inl OutboxError" "ob' = obp" using res per by auto
      then show ?thesis
        using pf(1) [OF inv0] pf(4) ct0 sqp same_queue_limits [OF sqp] by (auto simp: same_queue_def)
    next
      case (Inr u')
      let ?ob = "checkpointed ?c obp"
      have r': "r = Inr ()" "ob' = cleanup_completed_segments_locked ?ob"
        using res per(2,3) Inr by (auto simp: checkpointed_def)
      have mp: "memory_inv py lay obp" using pf(1) [OF inv0] by (simp add: outbox_inv_def)
      have "memory_inv py lay ?ob"
        using advance_checkpoint [OF mp c(1)] c(2,3) pf(3) by (simp add: checkpointed_def)
      then have invc: "outbox_inv py lay ?ob"
        using pf(1) [OF inv0] by (simp add: outbox_inv_def checkpointed_def)
      have ctc: "contents_of lay ?ob = contents_of lay ob"
        using c(3) ct0 by (simp add: contents_of_def checkpointed_def)
      have duc: "durable_inv py lay ob \<longrightarrow> durable_inv py lay ?ob"
        using per(4) s0(4) Inr per(2) by (auto simp: checkpointed_def)
      from cleanup_effect [OF invc] obtain lay' where "cleaned py lay ?ob lay' ob'" using r' by auto
      then have cl: "outbox_inv py lay' ob'" "contents_of lay' ob' = contents_of lay ob"
        "same_queue ?ob ob'" "durable_inv py lay ob \<longrightarrow> durable_inv py lay' ob'"
        using ctc duc by (auto simp: cleaned_def)
      have f: "pending ob' = pending ob" "pending_by_id ob' = pending_by_id ob"
        "volatile_completed_ids ob' = {}" "same_limits ob ob'"
        using cl(3) sqp by (auto simp: same_queue_def checkpointed_def same_limits_def)
      show ?thesis using cl f r' by blast
    qed
  qed
qed

section \<open>Removing the head\<close>

definition popped :: "cursor \<Rightarrow> stored \<Rightarrow> stored list \<Rightarrow> outbox \<Rightarrow> outbox" where
  "popped c x rest ob = ob\<lparr>pending := rest, pending_by_id := (pending_by_id ob)(st_id x := None),
     volatile_cursor := c, volatile_completed_ids := insert (st_id x) (volatile_completed_ids ob)\<rparr>"

lemma popped_memory:
  assumes m: "memory_inv py lay ob" and p: "pending ob = x # rest"
  defines "c \<equiv> cursor_after_oldest_locked ob"
  shows "memory_inv py lay (popped c x rest ob)" "boundary lay c" "cursor_le (checkpoint_cursor ob) c"
    "\<exists>e. after (volatile_cursor ob) lay = (x, e) # after c lay"
    "cursor_le (volatile_cursor ob) c"
proof -
  have ok: "layout_ok py lay" and pa: "pending ob = map fst (after (volatile_cursor ob) lay)"
    and ck: "cursor_le (checkpoint_cursor ob) (volatile_cursor ob)"
    using m by (auto simp: memory_inv_def)
  have nc: "boundary lay c" "cursor_le (volatile_cursor ob) c"
    "after c lay = drop 1 (after (volatile_cursor ob) lay)"
    using nth_cursor [OF m after_oldest_nth] p by (simp_all add: c_def)
  from pa p obtain e where v: "after (volatile_cursor ob) lay = (x, e) # after c lay"
    using nc(3) by (cases "after (volatile_cursor ob) lay") auto
  then show "\<exists>e. after (volatile_cursor ob) lay = (x, e) # after c lay" by blast
  show b: "boundary lay c" and le: "cursor_le (checkpoint_cursor ob) c"
    using nc cursor_le_trans [OF ck] by auto
  show "cursor_le (volatile_cursor ob) c" by (rule nc(2))
  have rest: "rest = map fst (after c lay)" using pa p v by simp
  have "distinct (ids_after (volatile_cursor ob) lay)" using ids_after_le [OF ok ck] m by (simp add: memory_inv_def)
  then have d: "distinct (map st_id (x # rest))" by (simp add: ids_after_def v rest)
  have idx: "(pending_by_id ob)(st_id x := None) = index_pending rest"
  proof -
    have "pending_by_id ob = index_pending (x # rest)"
      unfolding p [symmetric] using m unfolding memory_inv_def by blast
    then have "pending_by_id ob = map_of (map (\<lambda>x. (st_id x, x)) (x # rest))"
      unfolding index_pending_distinct [OF d] .
    moreover have "map_of (map (\<lambda>x. (st_id x, x)) rest) (st_id x) = None"
      using d by (auto simp: map_of_eq_None_iff)
    ultimately show ?thesis using index_pending_distinct [of rest] d by auto
  qed
  have "at_or_after c y \<or> st_id y \<in> insert (st_id x) (volatile_completed_ids ob)"
    if y: "(y, e') \<in> set (after (checkpoint_cursor ob) lay)" for y e'
  proof (cases "st_id y \<in> volatile_completed_ids ob")
    case False
    then have "at_or_after (volatile_cursor ob) y" using m y by (fastforce simp: memory_inv_def)
    then have "(y, e') \<in> set (after (volatile_cursor ob) lay)" using y by (simp add: after_def)
    then have "y = x \<or> (y, e') \<in> set (after c lay)" using v by auto
    then show ?thesis by (auto simp: after_def)
  qed simp
  then have "\<forall>(y, e') \<in> set (after (checkpoint_cursor ob) lay).
      at_or_after c y \<or> st_id y \<in> insert (st_id x) (volatile_completed_ids ob)" by blast
  with m b le rest idx show "memory_inv py lay (popped c x rest ob)"
    by (simp add: memory_inv_def popped_def)
qed

lemma cursor_after_oldest_cong:
  "pending a = pending b \<Longrightarrow> segments a = segments b \<Longrightarrow>
     cursor_after_oldest_locked a = cursor_after_oldest_locked b"
  by (simp add: cursor_after_oldest_locked_def cursor_end_def active_id_def active_segment_def
      split: list.splits)

definition head_matches :: "python \<Rightarrow> message_envelope list \<Rightarrow> message_envelope \<Rightarrow> bool" where
  "head_matches py q expected =
     (case q of [] \<Rightarrow> False
      | e # _ \<Rightarrow> msg_id e = msg_id expected \<and> encode_message py e = encode_message py expected)"

lemma items_encode:
  assumes "layout_ok py lay" and "(x, e) \<in> set (items lay)"
  shows "st_id x = msg_id e \<and> valid_message py e \<and> (\<exists>b. encode_message py e = Inr b)"
proof -
  from itemsD [OF assms(2)] obtain efs where s: "(st_seg x, efs) \<in> set lay"
    "(x, e) \<in> set (seg_items (st_seg x) SEGMENT_HEADER_SIZE efs)" by blast
  from seg_itemsD [OF s(2)] obtain pre e' f post where efs: "efs = pre @ (e', f) # post"
    "e = canon_message e'" "st_id x = msg_id e'" by blast
  from assms(1) s(1) efs(1) have "frame_of py e' f" by (auto simp: layout_ok_def)
  with efs show ?thesis using encode_canon_message valid_message_canon by (auto simp: frame_of_def)
qed

text \<open>The last part of \<open>remove_oldest\<close>, once the head has matched.\<close>

definition finish_removal :: "python \<Rightarrow> bool \<Rightarrow> pystr \<Rightarrow> bool ob_proc" where
  "finish_removal py sync mid ob' =
     (let next_cursor = cursor_after_oldest_locked ob' in
        andThen (if sync then andThen sync_data_locked (\<lambda>_. persist_checkpoint_locked py next_cursor)
                 else ret ())
          (\<lambda>_. andThen (modify (pop_head next_cursor sync mid)) (\<lambda>_. ret True)) ob')"

lemma finish_removal_volatile:
  assumes inv: "outbox_inv py lay ob" and p: "pending ob = x # rest"
    and r: "finish_removal py False (st_id x) ob = (r, ob')"
  shows "r = Inr True \<and> same_limits ob ob' \<and> outbox_inv py lay ob'
    \<and> contents_of lay ob' = tl (contents_of lay ob) \<and> (durable_inv py lay ob \<longrightarrow> durable_inv py lay ob')"
proof -
  let ?c = "cursor_after_oldest_locked ob"
  have m: "memory_inv py lay ob" using inv by (simp add: outbox_inv_def)
  note pm = popped_memory [OF m p]
  have r': "r = Inr True" "ob' = popped ?c x rest ob"
    using r p by (auto simp: finish_removal_def Let_def andThen_def modify_def pop_head_def popped_def)
  have "outbox_inv py lay ob'" using pm(1) inv by (simp add: outbox_inv_def r' popped_def)
  moreover have "contents_of lay ob' = tl (contents_of lay ob)"
    using pm(4) by (auto simp: contents_of_def r' popped_def)
  moreover have "durable_inv py lay ob \<longrightarrow> durable_inv py lay ob'"
  proof
    assume "durable_inv py lay ob"
    then have "durable_inv py lay (ob\<lparr>volatile_cursor := ?c\<rparr>)" by (rule durable_forward [OF _ pm(5)])
    then show "durable_inv py lay ob'" by (simp add: r' popped_def durable_inv_def)
  qed
  ultimately show ?thesis by (simp add: r' popped_def same_limits_def)
qed

lemma finish_removal_sync:
  assumes inv: "outbox_inv py lay ob" and p: "pending ob = x # rest"
    and r: "finish_removal py True (st_id x) ob = (r, ob')"
  shows "same_limits ob ob' \<and>
    ((r = Inl OutboxError \<and> outbox_inv py lay ob' \<and> contents_of lay ob' = contents_of lay ob)
     \<or> (r = Inr True \<and> (\<exists>lay'. outbox_inv py lay' ob' \<and> contents_of lay' ob' = tl (contents_of lay ob)
          \<and> checkpoint_cursor ob' = volatile_cursor ob'
          \<and> (durable_inv py lay ob \<longrightarrow>
               durable_inv py lay' ob' \<and> checkpoint_is py (disk ob') (checkpoint_cursor ob')))))"
proof -
  let ?c = "cursor_after_oldest_locked ob"
  obtain r0 ob0 where s: "sync_data_locked ob = (r0, ob0)" by (cases "sync_data_locked ob")
  from sync_effect [OF inv s] have s0: "sync_only ob ob0" "r0 = Inr () \<or> r0 = Inl OutboxError"
    "r0 = Inr () \<longrightarrow> \<not> data_sync_pending ob0" "durable_inv py lay ob \<longrightarrow> durable_inv py lay ob0" by auto
  have inv0: "outbox_inv py lay ob0" using sync_only_inv [OF inv s0(1)] .
  have sq0: "same_queue ob ob0" using sync_only_same_queue [OF s0(1)] .
  have ct0: "contents_of lay ob0 = contents_of lay ob" using sync_only_contents [OF s0(1)] .
  have p0: "pending ob0 = x # rest" using p sq0 by (simp add: same_queue_def)
  have m0: "memory_inv py lay ob0" using inv0 by (simp add: outbox_inv_def)
  have cc: "cursor_after_oldest_locked ob0 = ?c"
    using s0(1) by (intro cursor_after_oldest_cong) (auto simp: sync_only_def)
  note pm = popped_memory [OF m0 p0, unfolded cc]
  show ?thesis
  proof (cases r0)
    case (Inl e)
    with r s s0(2) have "r = Inl OutboxError" "ob' = ob0"
      by (auto simp: finish_removal_def Let_def andThen_def)
    then show ?thesis using inv0 ct0 same_queue_limits [OF sq0] by simp
  next
    case (Inr u)
    obtain r1 ob1 where g: "persist_checkpoint_locked py ?c ob0 = (r1, ob1)"
      by (cases "persist_checkpoint_locked py ?c ob0")
    from persist_effect [OF inv0 pm(2,3) g] have per: "progress_saved ob0 ob1" "r1 = Inr () \<or> r1 = Inl OutboxError"
      "r1 = Inr () \<and> durable_inv py lay ob0 \<and> \<not> data_sync_pending ob0 \<longrightarrow>
         durable_inv py lay (ob1\<lparr>checkpoint_cursor := ?c, volatile_cursor := ?c\<rparr>)
         \<and> checkpoint_is py (disk ob1) ?c" by auto
    note pf = progress_saved_facts [OF per(1)]
    have sq1: "same_queue ob ob1" using same_queue_trans [OF sq0 pf(2)] .
    show ?thesis
    proof (cases r1)
      case (Inl e)
      with r s Inr g per(2) have "r = Inl OutboxError" "ob' = ob1"
        by (auto simp: finish_removal_def Let_def andThen_def)
      then show ?thesis using pf(1) [OF inv0] pf(4) ct0 same_queue_limits [OF sq1] by simp
    next
      case (Inr v)
      have p1: "pending ob1 = x # rest" using p sq1 by (simp add: same_queue_def)
      have m1: "memory_inv py lay ob1" using pf(1) [OF inv0] by (simp add: outbox_inv_def)
      have c1: "cursor_after_oldest_locked ob1 = ?c"
        unfolding cc [symmetric] using per(1) by (intro cursor_after_oldest_cong) (auto simp: progress_saved_def)
      note pm1 = popped_memory [OF m1 p1, unfolded c1]
      let ?ob = "checkpointed ?c (popped ?c x rest ob1)"
      let ?raw = "ob1\<lparr>pending := rest, pending_by_id := (pending_by_id ob1)(st_id x := None),
        volatile_cursor := ?c, checkpoint_cursor := ?c, volatile_completed_ids := {}\<rparr>"
      have "r = Inr True" "ob' = cleanup_completed_segments_locked ?raw"
        using r s \<open>r0 = Inr u\<close> g Inr p1
        by (auto simp: finish_removal_def Let_def andThen_def modify_def pop_head_def)
      moreover have "?raw = ?ob"
        by (rule outbox.equality) (simp_all add: popped_def checkpointed_def)
      ultimately have r': "r = Inr True" "ob' = cleanup_completed_segments_locked ?ob" by simp_all
      have "memory_inv py lay ?ob"
        unfolding checkpointed_def
        by (rule advance_checkpoint [OF pm1(1)]) (use pm1(2) in \<open>simp_all add: popped_def\<close>)
      then have invc: "outbox_inv py lay ?ob"
        using pf(1) [OF inv0] by (simp add: outbox_inv_def checkpointed_def popped_def)
      have ctc: "contents_of lay ?ob = tl (contents_of lay ob)"
      proof -
        obtain e where "after (volatile_cursor ob1) lay = (x, e) # after ?c lay" using pm1(4) by blast
        then have "contents_of lay ob1 = e # map snd (after ?c lay)" by (simp add: contents_of_def)
        then show ?thesis using pf(4) ct0 by (simp add: contents_of_def checkpointed_def)
      qed
      have duc: "durable_inv py lay ob \<longrightarrow> durable_inv py lay ?ob \<and> checkpoint_is py (disk ?ob) ?c"
      proof
        assume "durable_inv py lay ob"
        with per(3) s0(3,4) \<open>r0 = Inr u\<close> Inr have "durable_inv py lay (ob1\<lparr>checkpoint_cursor := ?c, volatile_cursor := ?c\<rparr>)"
          "checkpoint_is py (disk ob1) ?c" by auto
        then show "durable_inv py lay ?ob \<and> checkpoint_is py (disk ?ob) ?c"
          by (simp add: checkpointed_def popped_def durable_inv_def)
      qed
      from cleanup_effect [OF invc] obtain lay' where cl: "cleaned py lay ?ob lay' ob'" using r' by auto
      then have "outbox_inv py lay' ob'" "contents_of lay' ob' = tl (contents_of lay ob)"
        "same_queue ?ob ob'" "durable_inv py lay ?ob \<longrightarrow> durable_inv py lay' ob'"
        "volatile_cursor ob' = ?c" "checkpoint_cursor ob' = ?c"
        "checkpoints (disk ob') \<subseteq> checkpoints (disk ?ob)"
        using ctc by (auto simp: cleaned_def same_queue_def checkpointed_def)
      moreover from this(3) have "same_limits ob ob'"
        using sq1 by (auto simp: same_queue_def checkpointed_def same_limits_def popped_def)
      moreover have "durable_inv py lay ob \<Longrightarrow> checkpoint_is py (disk ob') ?c"
        using duc calculation(7) by (auto simp: checkpoint_is_def)
      ultimately show ?thesis using r' duc by (intro conjI disjI2) (auto intro: exI [of _ lay'])
    qed
  qed
qed

text \<open>The part of \<open>remove_oldest\<close> that compares the stored head with the expected envelope.\<close>

lemma remove_oldest_unfold:
  "remove_oldest py expected sync ob =
     (case encode_message py expected of
        Inl e \<Rightarrow> (Inl e, ob)
      | Inr expected_bytes \<Rightarrow>
          (case pending ob of
             [] \<Rightarrow> (Inr False, ob)
           | oldest # _ \<Rightarrow>
               if st_id oldest \<noteq> msg_id expected then (Inr False, ob)
               else andThen (read_envelope_locked py oldest) (\<lambda>e.
                      andThen (lift_pure (encode_message py e)) (\<lambda>b ob'.
                        if b \<noteq> expected_bytes then ret False ob'
                        else finish_removal py sync (msg_id expected) ob')) ob))"
  by (simp add: remove_oldest_def andThen_def [of "lift_pure (encode_message py expected)"]
      finish_removal_def cong: if_cong split: sum.splits list.splits)

definition removal_outcome ::
  "python \<Rightarrow> message_envelope \<Rightarrow> bool \<Rightarrow> layout \<Rightarrow> outbox \<Rightarrow> py_error + bool \<Rightarrow> layout \<Rightarrow> outbox \<Rightarrow> bool"
where
  "removal_outcome py expected sync lay ob r lay' ob' \<longleftrightarrow>
     outbox_inv py lay' ob' \<and> same_limits ob ob'
     \<and> (\<forall>e. r = Inl e \<longrightarrow> contents_of lay' ob' = contents_of lay ob
            \<and> (e = OutboxError \<or> encode_message py expected = Inl e))
     \<and> (r = Inr False \<longrightarrow> contents_of lay' ob' = contents_of lay ob
            \<and> \<not> head_matches py (contents_of lay ob) expected
            \<and> (durable_inv py lay ob \<longrightarrow> durable_inv py lay' ob'))
     \<and> (r = Inr True \<longrightarrow> head_matches py (contents_of lay ob) expected
            \<and> contents_of lay' ob' = tl (contents_of lay ob)
            \<and> (durable_inv py lay ob \<longrightarrow> durable_inv py lay' ob')
            \<and> (sync \<and> durable_inv py lay ob \<longrightarrow> checkpoint_cursor ob' = volatile_cursor ob'
                 \<and> checkpoint_is py (disk ob') (checkpoint_cursor ob')))"

lemma remove_oldest_effect:
  assumes py: "python_ok py" and inv: "outbox_inv py lay ob"
    and r: "remove_oldest py expected sync ob = (r, ob')"
  shows "\<exists>lay'. removal_outcome py expected sync lay ob r lay' ob'"
proof (cases "encode_message py expected")
  case (Inl e)
  with r have "r = Inl e" "ob' = ob" by (simp_all add: remove_oldest_unfold)
  then show ?thesis using inv Inl
    by (intro exI [of _ lay]) (simp add: removal_outcome_def)
next
  case enc: (Inr eb)
  have m: "memory_inv py lay ob" using inv by (simp add: outbox_inv_def)
  have ok: "layout_ok py lay" and pa: "pending ob = map fst (after (volatile_cursor ob) lay)"
    using m by (auto simp: memory_inv_def)
  show ?thesis
  proof (cases "after (volatile_cursor ob) lay")
    case Nil
    with r pa enc have "r = Inr False" "ob' = ob" by (simp_all add: remove_oldest_unfold)
    with inv Nil show ?thesis
      by (intro exI [of _ lay]) (simp add: removal_outcome_def contents_of_def head_matches_def)
  next
    case (Cons xe more)
    obtain x e where xe: "xe = (x, e)" by (cases xe)
    have mem: "(x, e) \<in> set (items lay)" using after_subset [of "volatile_cursor ob" lay] Cons xe by auto
    from items_encode [OF ok mem] obtain b where b: "st_id x = msg_id e" "encode_message py e = Inr b" by blast
    have p: "pending ob = x # map fst more" and ct: "contents_of lay ob = e # map snd more"
      using pa Cons xe by (simp_all add: contents_of_def)
    have hm: "head_matches py (contents_of lay ob) expected \<longleftrightarrow> st_id x = msg_id expected \<and> b = eb"
      using b enc by (simp add: ct head_matches_def)
    show ?thesis
    proof (cases "st_id x = msg_id expected")
      case False
      with r p enc have "r = Inr False" "ob' = ob" by (simp_all add: remove_oldest_unfold)
      with inv hm False show ?thesis
        by (intro exI [of _ lay]) (simp add: removal_outcome_def)
    next
      case True
      obtain r1 ob1 where rd: "read_envelope_locked py x ob = (r1, ob1)"
        by (cases "read_envelope_locked py x ob")
      from read_envelope [OF py inv mem] rd obtain d where d: "quiet (disk ob) d" "ob1 = ob\<lparr>disk := d\<rparr>"
        and r1: "r1 = Inr e \<or> r1 = Inl OutboxError" by (auto simp: reading_def)
      have inv1: "outbox_inv py lay ob1" using outbox_inv_quiet [OF inv d(1)] d(2) by simp
      have ct1: "contents_of lay ob1 = contents_of lay ob" using d(2) by (simp add: contents_of_def)
      have sl1: "same_limits ob ob1" using quiet_fields(7) [OF d(1)] d(2) by (simp add: same_limits_def)
      have du1: "durable_inv py lay ob \<longrightarrow> durable_inv py lay ob1" using durable_quiet [OF _ d(1)] d(2) by simp
      show ?thesis
      proof (cases "r1 = Inr e \<and> b = eb")
        case False
        with r p enc True rd r1 b have "ob' = ob1" "r = Inl OutboxError \<or> (r = Inr False \<and> b \<noteq> eb)"
          by (auto simp: remove_oldest_unfold andThen_def)
        then show ?thesis using inv1 ct1 sl1 hm du1
          by (intro exI [of _ lay]) (auto simp: removal_outcome_def)
      next
        case True
        with r p enc \<open>st_id x = msg_id expected\<close> rd b have fin: "finish_removal py sync (st_id x) ob1 = (r, ob')"
          by (simp add: remove_oldest_unfold andThen_def)
        have p1: "pending ob1 = x # map fst more" using p d(2) by simp
        have hm': "head_matches py (contents_of lay ob) expected"
          using hm True \<open>st_id x = msg_id expected\<close> by simp
        show ?thesis
        proof (cases sync)
          case False
          from finish_removal_volatile [OF inv1 p1] fin False have "r = Inr True" "same_limits ob1 ob'"
            "outbox_inv py lay ob'" "contents_of lay ob' = tl (contents_of lay ob)"
            "durable_inv py lay ob \<longrightarrow> durable_inv py lay ob'" using ct1 du1 by auto
          then show ?thesis using same_limits_trans [OF sl1] hm' False
            by (intro exI [of _ lay]) (simp add: removal_outcome_def)
        next
          case True
          with fin have "finish_removal py True (st_id x) ob1 = (r, ob')" by simp
          from finish_removal_sync [OF inv1 p1 this] show ?thesis
          proof (elim conjE disjE exE)
            assume "same_limits ob1 ob'" "r = Inl OutboxError" "outbox_inv py lay ob'"
              "contents_of lay ob' = contents_of lay ob1"
            then show ?thesis using same_limits_trans [OF sl1] ct1
              by (intro exI [of _ lay]) (simp add: removal_outcome_def)
          next
            fix lay' assume "same_limits ob1 ob'" "r = Inr True" "outbox_inv py lay' ob'"
              "contents_of lay' ob' = tl (contents_of lay ob1)" "checkpoint_cursor ob' = volatile_cursor ob'"
              "durable_inv py lay ob1 \<longrightarrow>
                 durable_inv py lay' ob' \<and> checkpoint_is py (disk ob') (checkpoint_cursor ob')"
            then show ?thesis using same_limits_trans [OF sl1] ct1 du1 hm'
              by (intro exI [of _ lay']) (simp add: removal_outcome_def)
          qed
        qed
      qed
    qed
  qed
qed

end
