(* ===== verification/OutboxAppend.thy ===== *)
theory OutboxAppend
  imports OutboxRemove
begin

text \<open>
  Appending: the batch is checked against itself and the queue, then written in chunks. Whatever
  fails, the queue only grows by a prefix of the new messages, in their order; on return all of
  them are in it.
\<close>

section \<open>The batch\<close>

text \<open>The envelopes of a batch that are new: the first with each id not seen before.\<close>

fun new_messages :: "pystr set \<Rightarrow> message_envelope list \<Rightarrow> message_envelope list" where
  "new_messages seen [] = []"
| "new_messages seen (e # es) =
     (if msg_id e \<in> seen then new_messages seen es
      else e # new_messages (insert (msg_id e) seen) es)"

lemma new_messages_ids:
  "distinct (map msg_id (new_messages seen es))" "set (map msg_id (new_messages seen es)) \<inter> seen = {}"
  by (induction seen es rule: new_messages.induct) auto

lemma new_messages_subset: "set (new_messages seen es) \<subseteq> set es"
  by (induction seen es rule: new_messages.induct) auto

lemma pending_index:
  assumes inv: "outbox_inv py lay ob"
  shows "pending_by_id ob i = Some x \<Longrightarrow>
      \<exists>e. (x, e) \<in> set (after (volatile_cursor ob) lay) \<and> msg_id e = i"
    and "dom (pending_by_id ob) = set (map msg_id (contents_of lay ob))"
proof -
  have m: "memory_inv py lay ob" using inv by (simp add: outbox_inv_def)
  have ok: "layout_ok py lay" and pa: "pending ob = map fst (after (volatile_cursor ob) lay)"
    and ix: "pending_by_id ob = index_pending (pending ob)"
    and ck: "cursor_le (checkpoint_cursor ob) (volatile_cursor ob)"
    and dc: "distinct (ids_after (checkpoint_cursor ob) lay)"
    using m by (auto simp: memory_inv_def)
  have d: "distinct (map st_id (pending ob))"
    using ids_after_le [OF ok ck dc] by (simp add: pa ids_after_def)
  have ids: "st_id x = msg_id e" if "(x, e) \<in> set (after (volatile_cursor ob) lay)" for x e
    using items_encode [OF ok] after_subset that by blast
  have mp: "pending_by_id ob = map_of (map (\<lambda>x. (st_id x, x)) (pending ob))"
    using ix index_pending_distinct [OF d] by simp
  { assume "pending_by_id ob i = Some x"
    then have "x \<in> set (pending ob)" "st_id x = i" unfolding mp by (auto dest: map_of_SomeD)
    then show "\<exists>e. (x, e) \<in> set (after (volatile_cursor ob) lay) \<and> msg_id e = i"
      using ids by (auto simp: pa) }
  have "map msg_id (contents_of lay ob) = map st_id (pending ob)"
    using ids by (auto simp: contents_of_def pa)
  then show "dom (pending_by_id ob) = set (map msg_id (contents_of lay ob))"
    by (simp add: mp dom_map_of_conv_image_fst image_image)
qed

text \<open>\<open>agrees py q e\<close>: every message of the queue with the id of \<open>e\<close> has its encoding.\<close>

definition agrees :: "python \<Rightarrow> message_envelope list \<Rightarrow> pystr \<Rightarrow> py_error + bytes \<Rightarrow> bool" where
  "agrees py q i b \<longleftrightarrow> (\<forall>e \<in> set q. msg_id e = i \<longrightarrow> encode_message py e = b)"

lemma contents_unique:
  assumes "outbox_inv py lay ob" and "a \<in> set (contents_of lay ob)" and "b \<in> set (contents_of lay ob)"
    and "msg_id a = msg_id b"
  shows "a = b"
proof -
  have m: "memory_inv py lay ob" using assms(1) by (simp add: outbox_inv_def)
  then have ok: "layout_ok py lay" and "distinct (ids_after (volatile_cursor ob) lay)"
    using ids_after_le by (auto simp: memory_inv_def)
  moreover have "ids_after (volatile_cursor ob) lay = map msg_id (contents_of lay ob)"
    using items_encode [OF ok] after_subset [of "volatile_cursor ob" lay]
    by (auto simp: ids_after_def contents_of_def)
  ultimately have "inj_on msg_id (set (contents_of lay ob))" by (simp add: distinct_map)
  with assms(2-4) show ?thesis by (auto dest: inj_onD)
qed

lemma prepare_batch_effect:
  assumes py: "python_ok py"
  shows "outbox_inv py lay ob \<Longrightarrow> \<forall>e \<in> set batch. valid_message py e \<Longrightarrow>
    (\<And>i b. bid i = Some b \<Longrightarrow> agrees py (contents_of lay ob) i (Inr b)) \<Longrightarrow>
    prepare_batch py batch bid ob = (r, ob') \<Longrightarrow>
    (\<exists>d. quiet (disk ob) d \<and> ob' = ob\<lparr>disk := d\<rparr>)
    \<and> (\<forall>un. r = Inr un \<longrightarrow> frames_ok py un
         \<and> map fst un = map canon_message (new_messages (dom bid \<union> dom (pending_by_id ob)) batch)
         \<and> (\<forall>e \<in> set batch. agrees py (contents_of lay ob) (msg_id e) (encode_message py e)))
    \<and> (\<forall>x. r = Inl x \<longrightarrow> x = OutboxError \<or> (\<exists>e \<in> set batch. encode_message py e = Inl x))"
proof (induction batch arbitrary: bid ob r ob')
  case Nil
  then show ?case by (auto intro: exI [of _ "disk ob'"])
next
  case (Cons e es)
  have q0: "\<exists>d. quiet (disk ob) d \<and> ob = ob\<lparr>disk := d\<rparr>" by (intro exI [of _ "disk ob"]) simp
  have ve: "valid_message py e" "\<forall>e \<in> set es. valid_message py e" using Cons.prems(2) by auto
  show ?case
  proof (cases "encode_message py e")
    case (Inl x)
    with Cons.prems(4) q0 show ?thesis by (auto simp: andThen_def)
  next
    case enc: (Inr encoded)
    have dec: "decode_message py (WBytes encoded) = Inr (canon_message e)"
      using decode_encode_message [OF py ve(1) enc] .
    show ?thesis
    proof (cases "bid (msg_id e)")
      case (Some earlier)
      show ?thesis
      proof (cases "earlier = encoded")
        case False
        with Cons.prems(4) Some enc dec q0 show ?thesis by (auto simp: andThen_def)
      next
        case True
        then have "prepare_batch py es bid ob = (r, ob')"
          using Cons.prems(4) Some enc dec by (simp add: andThen_def)
        with Cons.IH [OF Cons.prems(1) ve(2) Cons.prems(3)] Some Cons.prems(3) [OF Some] True enc
        show ?thesis by (auto simp: domI)
      qed
    next
      case None
      show ?thesis
      proof (cases "pending_by_id ob (msg_id e)")
        case (Some x)
        from pending_index(1) [OF Cons.prems(1) Some] obtain e' where
          x: "(x, e') \<in> set (after (volatile_cursor ob) lay)" "msg_id e' = msg_id e" by blast
        have mem: "(x, e') \<in> set (items lay)" using x(1) after_subset by blast
        have ok: "layout_ok py lay" using Cons.prems(1) by (simp add: outbox_inv_def memory_inv_def)
        from items_encode [OF ok mem] obtain b where b: "encode_message py e' = Inr b" by blast
        obtain r1 ob1 where rd: "read_envelope_locked py x ob = (r1, ob1)"
          by (cases "read_envelope_locked py x ob")
        from read_envelope [OF py Cons.prems(1) mem] rd obtain d where d: "quiet (disk ob) d"
          "ob1 = ob\<lparr>disk := d\<rparr>" and r1: "r1 = Inr e' \<or> r1 = Inl OutboxError" by (auto simp: reading_def)
        have inv1: "outbox_inv py lay ob1" using outbox_inv_quiet [OF Cons.prems(1) d(1)] d(2) by simp
        have ct1: "contents_of lay ob1 = contents_of lay ob" "pending_by_id ob1 = pending_by_id ob"
          using d(2) by (simp_all add: contents_of_def)
        show ?thesis
        proof (cases "r1 = Inr e' \<and> b = encoded")
          case False
          with Cons.prems(4) None Some enc dec rd r1 b have "ob' = ob1" "r = Inl OutboxError"
            by (auto simp: andThen_def get_state_def split: if_splits)
          with d show ?thesis by auto
        next
          case True
          let ?bid = "bid(msg_id e \<mapsto> encoded)"
          have "e' \<in> set (contents_of lay ob)" using x(1) by (force simp: contents_of_def)
          then have ag: "agrees py (contents_of lay ob) (msg_id e) (Inr encoded)"
            unfolding agrees_def
            using contents_unique [OF Cons.prems(1) _ \<open>e' \<in> set (contents_of lay ob)\<close>] x(2) b True by metis
          then have ag1: "?bid i = Some b \<Longrightarrow> agrees py (contents_of lay ob1) i (Inr b)" for i b
            using Cons.prems(3) ct1 by (auto split: if_splits)
          have more: "prepare_batch py es ?bid ob1 = (r, ob')"
            using Cons.prems(4) None Some enc dec rd True b by (simp add: andThen_def get_state_def)
          have dm: "dom ?bid \<union> dom (pending_by_id ob) = dom bid \<union> dom (pending_by_id ob)"
            using Some by auto
          from Cons.IH [OF inv1 ve(2) ag1 more, unfolded ct1 dm] d quiet_trans [OF d(1)] Some ag enc
          show ?thesis by (auto simp: domI)
        qed
      next
        case no: None
        show ?thesis
        proof (cases "encode_frame encoded")
          case (Inl x)
          then have "x = OutboxError" by (auto simp: encode_frame_def split: if_splits)
          moreover from Cons.prems(4) None no enc dec Inl have "r = Inl x" "ob' = ob"
            by (simp_all add: andThen_def get_state_def)
          ultimately show ?thesis using q0 by simp
        next
          case (Inr f)
          let ?bid = "bid(msg_id e \<mapsto> encoded)"
          have "msg_id e \<notin> set (map msg_id (contents_of lay ob))"
            using no pending_index(2) [OF Cons.prems(1)] by auto
          then have ag: "agrees py (contents_of lay ob) (msg_id e) (Inr encoded)"
            unfolding agrees_def set_map by (metis image_eqI)
          then have ag1: "?bid i = Some b \<Longrightarrow> agrees py (contents_of lay ob) i (Inr b)" for i b
            using Cons.prems(3) by (auto split: if_splits)
          obtain r2 ob2 where more: "prepare_batch py es ?bid ob = (r2, ob2)"
            by (cases "prepare_batch py es ?bid ob")
          have res: "ob' = ob2" "r = (case r2 of Inl x \<Rightarrow> Inl x | Inr rest \<Rightarrow> Inr ((canon_message e, f) # rest))"
            using Cons.prems(4) None no enc dec Inr more
            by (auto simp: andThen_def get_state_def split: sum.splits)
          have fr: "frame_of py (canon_message e) f"
            using valid_message_canon [OF ve(1)] encode_canon_message [OF enc] Inr
            by (simp add: frame_of_def)
          have dm: "dom ?bid \<union> dom (pending_by_id ob) = insert (msg_id e) (dom bid \<union> dom (pending_by_id ob))"
            by auto
          have new: "new_messages (dom bid \<union> dom (pending_by_id ob)) (e # es)
              = e # new_messages (insert (msg_id e) (dom bid \<union> dom (pending_by_id ob))) es"
            using None no by (auto simp: domIff)
          from Cons.IH [OF Cons.prems(1) ve(2) ag1 more, unfolded dm] res fr new ag enc
          show ?thesis by (auto split: sum.splits)
        qed
      qed
    qed
  qed
qed

section \<open>Chunks\<close>

lemma choose_chunk_prefix:
  "choose_chunk ar ab n cb rs = take (length (choose_chunk ar ab n cb rs)) rs"
  by (induction ar ab n cb rs rule: choose_chunk.induct) (auto simp: Let_def)

lemma choose_chunk_nonempty: "0 < ar \<Longrightarrow> rs \<noteq> [] \<Longrightarrow> choose_chunk ar ab 0 0 rs \<noteq> []"
  by (cases rs) (auto simp: Let_def split: if_splits)

lemma next_chunk_prefix: "next_chunk ob rs = take (length (next_chunk ob rs)) rs"
  unfolding next_chunk_def by (rule choose_chunk_prefix)

text \<open>The chunk is never empty, so the loop's third branch (rotate and retry) is not taken.\<close>

lemma next_chunk_nonempty:
  assumes "0 < segment_max_records ob" and "rs \<noteq> []" and "\<not> would_rotate_locked ob n"
  shows "next_chunk ob rs \<noteq> []"
  unfolding next_chunk_def
  by (rule choose_chunk_nonempty) (use assms in \<open>auto simp: would_rotate_locked_def Let_def split: if_splits\<close>)

section \<open>Writing a chunk\<close>

lemma write_seg_cases:
  assumes "write_seg sid b d = (r, d')" and "lookup_seg sid d = Some f"
  obtains d0 k where "quiet d d0" "r = Inr () \<and> k = length b \<or> r = Inl OSError"
    "d' = update_seg sid (f\<lparr>contents := contents f @ take k b\<rparr>) d0"
  | "r = Inl OSError" "quiet d d'"
proof -
  obtain i d0 where n: "next_io d = (i, d0)" by (cases "next_io d")
  note q = next_io_quiet [OF n]
  show ?thesis
  proof (cases i)
    case IoOk
    with assms n that(1) [OF q, of "length b"] show ?thesis by (simp add: write_seg_def)
  next
    case (IoErr k)
    with assms n that(1) [OF q, of k] show ?thesis by (simp add: write_seg_def)
  next
    case IoUnsupported
    with assms n that(2) q show ?thesis by (simp add: write_seg_def)
  qed
qed

text \<open>
  \<open>grown sid n d d'\<close>: only segment \<open>sid\<close> changed, its first \<open>n\<close> bytes did not, and no
  more than before of them is unsynced.
\<close>

definition grown :: "nat \<Rightarrow> nat \<Rightarrow> disk \<Rightarrow> disk \<Rightarrow> bool" where
  "grown sid n d d' \<longleftrightarrow>
     set (io_script d') \<subseteq> set (io_script d)
     \<and> (\<forall>s. s \<noteq> sid \<longrightarrow> lookup_seg s d' = lookup_seg s d)
     \<and> (\<forall>f. lookup_seg sid d = Some f \<longrightarrow> synced f \<le> length (contents f) \<longrightarrow>
          (\<exists>f'. lookup_seg sid d' = Some f' \<and> take n (contents f') = take n (contents f)
             \<and> synced f' \<le> length (contents f')))"

lemma quiet_grown: "quiet d d' \<Longrightarrow> grown sid n d d'"
  using quiet_fields(7) [of d d'] quiet_lookup [of d d'] by (auto simp: grown_def)

lemma grown_trans:
  assumes "grown sid n a b" and "grown sid n b c"
  shows "grown sid n a c"
  unfolding grown_def
proof (intro conjI allI impI)
  fix f assume "lookup_seg sid a = Some f" "synced f \<le> length (contents f)"
  with assms(1) obtain f1 where f1: "lookup_seg sid b = Some f1" "take n (contents f1) = take n (contents f)"
    "synced f1 \<le> length (contents f1)" unfolding grown_def by meson
  with assms(2) obtain f2 where "lookup_seg sid c = Some f2" "take n (contents f2) = take n (contents f1)"
    "synced f2 \<le> length (contents f2)" unfolding grown_def by meson
  with f1 show "\<exists>f'. lookup_seg sid c = Some f' \<and> take n (contents f') = take n (contents f)
      \<and> synced f' \<le> length (contents f')" by auto
qed (use assms in \<open>auto simp: grown_def\<close>)

lemma update_grown:
  assumes "quiet d d0" and "lookup_seg sid d = Some f"
    and "synced f \<le> length (contents f) \<Longrightarrow> synced f' \<le> length (contents f')"
    and "take n (contents f') = take n (contents f)"
  shows "grown sid n d (update_seg sid f' d0)"
  using assms quiet_fields(7) [OF assms(1)] quiet_lookup [OF assms(1)] by (auto simp: grown_def)

lemma write_seg_grown:
  assumes "write_seg sid b d = (r, d')" and l: "lookup_seg sid d = Some f" and "n \<le> length (contents f)"
  shows "grown sid n d d' \<and> (r = Inr () \<or> r = Inl OSError)
    \<and> (r = Inr () \<longrightarrow> (\<exists>d0. quiet d d0 \<and> d' = update_seg sid (f\<lparr>contents := contents f @ b\<rparr>) d0))"
  using assms(1) l
proof (cases rule: write_seg_cases)
  case (1 d0 k)
  then have "grown sid n d d'" using update_grown [OF 1(1) l] assms(3) by auto
  with 1 show ?thesis by auto
next
  case 2
  then show ?thesis using quiet_grown by auto
qed

lemma truncate_grown:
  assumes "truncate_seg sid m d = (r, d')" and "lookup_seg sid d = Some f" and "n \<le> m"
  shows "grown sid n d d' \<and> (r = Inr () \<or> r = Inl OSError)"
proof -
  obtain r0 d0 where c: "os_call d = (r0, d0)" by (cases "os_call d")
  note q = os_call_quiet [OF c]
  show ?thesis
  proof (cases r0)
    case (Inl e)
    with assms c q show ?thesis by (auto simp: truncate_seg_def andThen_def intro: quiet_grown)
  next
    case (Inr u)
    with assms c have "d' = update_seg sid (f\<lparr>contents := take m (contents f), synced := min (synced f) m\<rparr>) d0"
      "r = Inr ()" by (auto simp: truncate_seg_def andThen_def)
    with q assms(3) show ?thesis by (auto intro!: update_grown [OF _ assms(2)])
  qed
qed

lemma fsync_grown:
  assumes "fsync_seg sid d = (r, d')" and "lookup_seg sid d = Some f"
  shows "grown sid n d d' \<and> (r = Inr () \<or> r = Inl OSError)"
  using fsync_seg_cases [OF assms] assms(2) by (auto intro: quiet_grown intro!: update_grown)

lemma grown_lookup:
  "grown sid n d d' \<Longrightarrow> lookup_seg sid d = Some f \<Longrightarrow> synced f \<le> length (contents f) \<Longrightarrow>
     \<exists>f'. lookup_seg sid d' = Some f' \<and> take n (contents f') = take n (contents f)
       \<and> synced f' \<le> length (contents f')"
  by (auto simp: grown_def)

text \<open>The write with its rollback.\<close>

lemma write_chunk_file_effect:
  assumes w: "write_chunk_file sid n b sync d = (r, d')" and l: "lookup_seg sid d = Some f"
    and s: "synced f \<le> length (contents f)" and n: "n \<le> length (contents f)"
  shows "grown sid n d d' \<and> (r = Inr () \<or> r = Inl OSError \<or> r = Inl OutboxError)
    \<and> (r = Inr () \<longrightarrow> length (contents f) = n \<and> (\<exists>d0. quiet d d0 \<and> d' = update_seg sid
         (f\<lparr>contents := contents f @ b,
            synced := (if sync then length (contents f @ b) else synced f)\<rparr>) d0))"
proof -
  obtain r0 d0 where c: "os_call d = (r0, d0)" by (cases "os_call d")
  note q = os_call_quiet [OF c]
  have l0: "lookup_seg sid d0 = Some f" using l quiet_lookup [OF conjunct1 [OF q]] by simp
  show ?thesis
  proof (cases "r0 = Inr () \<and> length (contents f) = n")
    case False
    with w c q l0 have "d' = d0" "r = Inl OSError \<or> r = Inl OutboxError"
      by (auto simp: write_chunk_file_def andThen_def split: if_splits)
    with q show ?thesis by (auto intro: quiet_grown)
  next
    case True
    obtain r1 d1 where w1: "write_seg sid b d0 = (r1, d1)" by (cases "write_seg sid b d0")
    from write_seg_grown [OF w1 l0 n] have g1: "grown sid n d0 d1" "r1 = Inr () \<or> r1 = Inl OSError"
      "r1 = Inr () \<longrightarrow> (\<exists>d'. quiet d0 d' \<and> d1 = update_seg sid (f\<lparr>contents := contents f @ b\<rparr>) d')" by auto
    obtain r2 d2 where f2: "(if sync then fsync_seg sid else ret ()) d1 = (r2, d2)"
      by (cases "(if sync then fsync_seg sid else ret ()) d1")
    from grown_lookup [OF g1(1) l0 s] obtain f1 where l1: "lookup_seg sid d1 = Some f1"
      "synced f1 \<le> length (contents f1)" by blast
    have g2: "grown sid n d1 d2" "r2 = Inr () \<or> r2 = Inl OSError"
      using f2 fsync_grown [OF _ l1(1)] quiet_grown [OF quiet_refl] by (auto split: if_splits)
    have rollback: "grown sid n d3 (snd (andThen (truncate_seg sid n)
        (\<lambda>_. if sync then fsync_seg sid else ret ()) d3))"
      if "lookup_seg sid d3 = Some f3" and "synced f3 \<le> length (contents f3)" for d3 f3
    proof -
      obtain r4 d4 where t: "truncate_seg sid n d3 = (r4, d4)" by (cases "truncate_seg sid n d3")
      from truncate_grown [OF t that(1) order_refl] have g4: "grown sid n d3 d4" by blast
      from grown_lookup [OF g4 that] obtain f4 where l4: "lookup_seg sid d4 = Some f4" by blast
      obtain r5 d5 where "fsync_seg sid d4 = (r5, d5)" by (cases "fsync_seg sid d4")
      with fsync_grown [OF this l4] g4 grown_trans [OF g4] t show ?thesis
        by (auto simp: andThen_def split: sum.splits)
    qed
    have seq: "andThen (write_seg sid b) (\<lambda>_. if sync then fsync_seg sid else ret ()) d0 =
      (case r1 of Inl e \<Rightarrow> (Inl e, d1) | Inr _ \<Rightarrow> (r2, d2))"
      using w1 f2 by (auto simp: andThen_def split: sum.splits)
    have c': "os_call d = (Inr (), d0)" using c True by simp
    have wf: "(r, d') = (case (case r1 of Inl e \<Rightarrow> (Inl e, d1) | Inr _ \<Rightarrow> (r2, d2)) of
        (Inr _, d') \<Rightarrow> (Inr (), d')
      | (Inl e, d') \<Rightarrow> (Inl e, snd (andThen (truncate_seg sid n)
                                    (\<lambda>_. if sync then fsync_seg sid else ret ()) d')))"
      unfolding w [symmetric] write_chunk_file_def andThen_Inr [where m = os_call, OF c'] seq
      using True l0 by (simp split: sum.splits)
    have g02: "grown sid n d0 d2" using grown_trans [OF g1(1) g2(1)] .
    show ?thesis
    proof (cases "r1 = Inr () \<and> r2 = Inr ()")
      case False
      define d3 where "d3 = (if r1 = Inr () then d2 else d1)"
      from False have d3: "d3 = d1 \<or> d3 = d2" "r = Inl OSError"
        "d' = snd (andThen (truncate_seg sid n) (\<lambda>_. if sync then fsync_seg sid else ret ()) d3)"
        using wf g1(2) g2(2) by (auto simp: d3_def)
      then have g3: "grown sid n d0 d3" using g1(1) g02 by auto
      from grown_lookup [OF g3 l0 s] obtain f3 where "lookup_seg sid d3 = Some f3"
        "synced f3 \<le> length (contents f3)" by blast
      from rollback [OF this] d3(3) have "grown sid n d3 d'" by simp
      then have "grown sid n d d'"
        by (rule grown_trans [OF quiet_grown [OF conjunct1 [OF q]] grown_trans [OF g3]])
      with d3(2) show ?thesis by simp
    next
      case ok: True
      with wf have r: "r = Inr ()" "d' = d2" by auto
      from ok g1(3) obtain dq where dq: "quiet d0 dq" "d1 = update_seg sid (f\<lparr>contents := contents f @ b\<rparr>) dq"
        by blast
      have "\<exists>d0. quiet d d0 \<and> d' = update_seg sid (f\<lparr>contents := contents f @ b,
            synced := (if sync then length (contents f @ b) else synced f)\<rparr>) d0"
      proof (cases sync)
        case False
        with f2 r dq q quiet_trans [of d d0 dq] show ?thesis by (intro exI [of _ dq]) auto
      next
        case sy: True
        obtain r3 dr where o: "os_call d1 = (r3, dr)" by (cases "os_call d1")
        with f2 sy ok dq(2) have "r3 = Inr ()" and d2: "d2 = update_seg sid (f\<lparr>contents := contents f @ b,
            synced := length (contents f @ b)\<rparr>) dr"
          using os_call_quiet [OF o] by (auto simp: fsync_seg_def andThen_def)
        from os_call_quiet [OF o] obtain m where "dr = d1\<lparr>io_script := drop m (io_script d1)\<rparr>"
          by (auto simp: quiet_def)
        then have "d2 = update_seg sid (f\<lparr>contents := contents f @ b, synced := length (contents f @ b)\<rparr>)
            (dq\<lparr>io_script := drop m (io_script dq)\<rparr>)"
          using d2 dq(2) by (simp add: update_seg_def)
        moreover have "quiet d (dq\<lparr>io_script := drop m (io_script dq)\<rparr>)"
          using quiet_trans [of d d0 dq] q dq(1) quiet_trans [of d dq] by (auto simp: quiet_def)
        ultimately show ?thesis using sy r by auto
      qed
      moreover have "grown sid n d d'" 
        using grown_trans [OF quiet_grown [OF conjunct1 [OF q]] g02] r by simp
      ultimately show ?thesis using r True by simp
    qed
  qed
qed

end
