(* ===== verification/OutboxBatch.thy ===== *)
theory OutboxBatch
  imports OutboxAppend
begin

text \<open>
  The effect of writing a chunk on the layout, and of the loop that distributes a batch over the
  segments.
\<close>

definition grow :: "layout \<Rightarrow> frames \<Rightarrow> layout" where
  "grow lay chunk = butlast lay @ [(fst (last lay), snd (last lay) @ chunk)]"

lemma grow_last: "grow (front @ [(sid, efs)]) chunk = front @ [(sid, efs @ chunk)]"
  by (simp add: grow_def)

lemma boundary_grow: "lay \<noteq> [] \<Longrightarrow> boundary lay c \<Longrightarrow> boundary (grow lay chunk) c"
proof -
  assume "lay \<noteq> []" and b: "boundary lay c"
  then obtain front sid efs where lay: "lay = front @ [(sid, efs)]"
    by (metis append_butlast_last_id surj_pair)
  from b obtain es k where es: "(cur_seg c, es) \<in> set lay" "k \<le> length es"
    "cur_off c = SEGMENT_HEADER_SIZE + length (blob (take k es))" by (auto simp: boundary_def)
  then consider "(cur_seg c, es) \<in> set front" | "cur_seg c = sid" "es = efs" using lay by auto
  then show ?thesis
  proof cases
    case 1
    with es show ?thesis unfolding lay boundary_def grow_last
      by (intro exI [of _ es] exI [of _ k]) simp
  next
    case 2
    with es show ?thesis unfolding lay boundary_def grow_last
      by (intro exI [of _ "efs @ chunk"] exI [of _ k]) simp
  qed
qed

lemma layout_grow: "layout_ok py lay \<Longrightarrow> frames_ok py chunk \<Longrightarrow> layout_ok py (grow lay chunk)"
proof -
  assume ok: "layout_ok py lay" and c: "frames_ok py chunk"
  from layout_cases [OF ok] obtain front sid efs where lay: "lay = front @ [(sid, efs)]" by metis
  with ok c show ?thesis by (auto simp: layout_ok_def lay grow_last)
qed

lemma keys_grow: "lay \<noteq> [] \<Longrightarrow> map fst (grow lay chunk) = map fst lay"
  by (cases lay rule: rev_cases) (auto simp: grow_def)

lemma items_grow:
  "lay \<noteq> [] \<Longrightarrow> items (grow lay chunk)
     = items lay @ seg_items (fst (last lay)) (seg_size (snd (last lay))) chunk"
  by (cases lay rule: rev_cases) (auto simp: grow_def seg_items_append seg_size_def)

lemma after_grow:
  assumes ok: "layout_ok py lay" and b: "boundary lay c"
  shows "after c (grow lay chunk)
    = after c lay @ seg_items (fst (last lay)) (seg_size (snd (last lay))) chunk"
proof -
  have "cursor_le c (end_of lay)" by (rule boundary_le_end [OF ok b])
  then have "at_or_after c x"
    if "(x, e) \<in> set (seg_items (fst (last lay)) (seg_size (snd (last lay))) chunk)" for x e
    using seg_itemsD [OF that] by (auto simp: at_or_after_def cursor_le_def end_of_def)
  then have "filter (at_or_after c \<circ> fst) (seg_items (fst (last lay)) (seg_size (snd (last lay))) chunk)
      = seg_items (fst (last lay)) (seg_size (snd (last lay))) chunk"
    by (auto simp: filter_id_conv)
  then show ?thesis using ok by (simp add: after_def items_grow layout_ok_def)
qed

lemma seg_items_snd: "map snd (seg_items sid off efs) = map (canon_message \<circ> fst) efs"
  by (induction efs arbitrary: off) auto

lemma seg_items_ids: "map (st_id \<circ> fst) (seg_items sid off efs) = map (msg_id \<circ> fst) efs"
  by (induction efs arbitrary: off) auto

lemma index_grow:
  assumes "layout_ok py lay"
  shows "AList.update (fst (last lay)) \<lparr>byte_size = seg_size (snd (last lay)) + length (blob chunk),
      record_count = length (snd (last lay)) + length chunk\<rparr> (segment_index lay)
    = segment_index (grow lay chunk)"
proof -
  from layout_cases [OF assms] obtain front sid efs where lay: "lay = front @ [(sid, efs)]"
    and lt: "\<forall>(s, _) \<in> set front. s < sid" by metis
  have "sid \<notin> set (map fst front)" using lt by fastforce
  then have "AList.update sid v (segment_index front @ [(sid, w)]) = segment_index front @ [(sid, v)]"
    for v w :: segment
    by (induction front) (auto simp: segment_index_def)
  then show ?thesis by (simp add: lay grow_def index_append) (simp add: segment_index_def seg_size_def)
qed

lemma index_pending_append:
  "foldl (\<lambda>m x. m(st_id x \<mapsto> x)) (index_pending xs) ys = index_pending (xs @ ys)"
  by (simp add: index_pending_def)

lemma recorded_memory:
  assumes m: "memory_inv py lay ob" and fr: "frames_ok py chunk"
    and d: "distinct (map (msg_id \<circ> fst) chunk)"
    and new: "set (map (msg_id \<circ> fst) chunk) \<inter> set (ids_after (checkpoint_cursor ob) lay) = {}"
  shows "memory_inv py (grow lay chunk) (record_chunk chunk sync ob)"
    and "contents_of (grow lay chunk) (record_chunk chunk sync ob)
      = contents_of lay ob @ map (canon_message \<circ> fst) chunk"
    and "ids_after (checkpoint_cursor ob) (grow lay chunk)
      = ids_after (checkpoint_cursor ob) lay @ map (msg_id \<circ> fst) chunk"
proof -
  let ?lay = "grow lay chunk" and ?ob = "record_chunk chunk sync ob"
  have ok: "layout_ok py lay" and bv: "boundary lay (volatile_cursor ob)"
    and bc: "boundary lay (checkpoint_cursor ob)"
    and le: "cursor_le (checkpoint_cursor ob) (volatile_cursor ob)"
    using m by (auto simp: memory_inv_def)
  have ne: "lay \<noteq> []" using ok by (simp add: layout_ok_def)
  note av = after_grow [OF ok bv, of chunk] and ac = after_grow [OF ok bc, of chunk]
  have seg: "segments ?ob = segment_index ?lay"
    using m active_facts [OF m] index_grow [OF ok, of chunk]
    by (simp add: record_chunk_def Let_def memory_inv_def)
  have f: "volatile_cursor ?ob = volatile_cursor ob" "checkpoint_cursor ?ob = checkpoint_cursor ob"
    "volatile_completed_ids ?ob = volatile_completed_ids ob"
    "segment_max_bytes ?ob = segment_max_bytes ob" "segment_max_records ?ob = segment_max_records ob"
    by (simp_all add: record_chunk_def Let_def)
  have pend: "pending ?ob = map fst (after (volatile_cursor ob) ?lay)"
    using m active_facts [OF m] by (simp add: record_chunk_def Let_def memory_inv_def av fst_seg_items)
  have idx: "pending_by_id ?ob = index_pending (pending ?ob)"
    using m by (simp add: record_chunk_def Let_def memory_inv_def index_pending_append)
  show ids: "ids_after (checkpoint_cursor ob) ?lay
      = ids_after (checkpoint_cursor ob) lay @ map (msg_id \<circ> fst) chunk"
    by (simp add: ids_after_def ac seg_items_ids)
  have di: "distinct (ids_after (checkpoint_cursor ob) ?lay)"
    using m d new by (auto simp: ids memory_inv_def)
  have vc: "at_or_after (volatile_cursor ob) x \<or> st_id x \<in> volatile_completed_ids ob"
    if x: "(x, e) \<in> set (after (checkpoint_cursor ob) ?lay)" for x e
  proof (cases "(x, e) \<in> set (after (checkpoint_cursor ob) lay)")
    case True
    then show ?thesis using m by (fastforce simp: memory_inv_def)
  next
    case False
    with x ac have "(x, e) \<in> set (after (volatile_cursor ob) ?lay)" by (simp add: av)
    then show ?thesis by (simp add: after_def)
  qed
  show "memory_inv py ?lay ?ob"
    unfolding memory_inv_def f
  proof (intro conjI)
    show "\<forall>(x, e) \<in> set (after (checkpoint_cursor ob) ?lay).
        at_or_after (volatile_cursor ob) x \<or> st_id x \<in> volatile_completed_ids ob" using vc by blast
    show "consecutive (filter (\<lambda>s. cur_seg (checkpoint_cursor ob) \<le> s) (map fst ?lay))"
      using m by (simp add: keys_grow [OF ne] memory_inv_def)
  qed (use m seg pend idx di le layout_grow [OF ok fr] boundary_grow [OF ne bv] boundary_grow [OF ne bc] in
      \<open>auto simp: memory_inv_def\<close>)
  show "contents_of ?lay ?ob = contents_of lay ob @ map (canon_message \<circ> fst) chunk"
    by (simp add: contents_of_def f av seg_items_snd)
qed

text \<open>The file after a successful write.\<close>

lemma grow_disk_inv:
  assumes ok: "layout_ok py lay" and d: "disk_inv lay d"
    and l: "lookup_seg (fst (last lay)) d = Some f"
    and c: "contents f = encode_segment_header (fst (last lay)) @ blob (snd (last lay))"
    and q: "quiet d d0"
  shows "disk_inv (grow lay chunk) (update_seg (fst (last lay)) (f\<lparr>contents := contents f @ blob chunk,
      synced := (if sync then length (contents f @ blob chunk) else synced f)\<rparr>) d0)"
proof -
  from layout_cases [OF ok] obtain front sid efs where lay: "lay = front @ [(sid, efs)]"
    and lt: "\<forall>(s, _) \<in> set front. s < sid" by metis
  have "seg_holds d sid efs" using d lay by (auto simp: disk_inv_def)
  then have sy: "synced f \<le> length (contents f)" using l lay by (simp add: seg_holds_def)
  have front: "(s, es) \<in> set front \<Longrightarrow> s \<noteq> sid" for s es using lt by auto
  have "seg_holds d s es" if "(s, es) \<in> set front" for s es
    using d lay that by (auto simp: disk_inv_def)
  with front sy c show ?thesis
    using quiet_lookup [OF q]
    by (auto simp: disk_inv_def lay grow_last seg_holds_def lay seg_size_def)
qed

lemma grow_durable:
  assumes inv: "outbox_inv py lay ob" and du: "durable_inv py lay ob"
    and l: "lookup_seg (fst (last lay)) (disk ob) = Some f"
    and c: "contents f = encode_segment_header (fst (last lay)) @ blob (snd (last lay))"
    and q: "quiet (disk ob) d0"
  shows "durable_inv py (grow lay chunk) ((record_chunk chunk sync ob)
    \<lparr>disk := update_seg (fst (last lay)) (f\<lparr>contents := contents f @ blob chunk,
      synced := (if sync then length (contents f @ blob chunk) else synced f)\<rparr>) d0\<rparr>)"
    (is "durable_inv py ?lay ?ob")
proof -
  have ok: "layout_ok py lay" using inv by (simp add: outbox_inv_def memory_inv_def)
  then have ne: "lay \<noteq> []" by (simp add: layout_ok_def)
  from layout_cases [OF ok] obtain front sid efs where lay: "lay = front @ [(sid, efs)]"
    and lt: "\<forall>(s, _) \<in> set front. s < sid" by metis
  have sid: "fst (last lay) = sid" "fst (last ?lay) = sid" by (simp_all add: lay grow_def)
  have f: "checkpoint_cursor ?ob = checkpoint_cursor ob" "volatile_cursor ?ob = volatile_cursor ob" "data_sync_pending ?ob = (\<not> sync)"
    by (simp_all add: record_chunk_def Let_def)
  note fq = quiet_fields [OF q]
  define f' where "f' = f\<lparr>contents := contents f @ blob chunk,
      synced := (if sync then length (contents f @ blob chunk) else synced f)\<rparr>"
  have dk: "disk ?ob = update_seg sid f' d0" by (simp add: f'_def sid)
  have look: "lookup_seg s (disk ?ob) = (if s = sid then Some f' else lookup_seg s (disk ob))" for s
    unfolding dk using quiet_lookup [OF q] by simp
  have old: "seg_exact (disk ob) s es (s \<noteq> sid \<or> \<not> data_sync_pending ob)" if "(s, es) \<in> set lay" for s es
    using du that by (fastforce simp: durable_inv_def sid)
  have fs: "SEGMENT_HEADER_SIZE \<le> synced f" "synced f \<le> length (contents f)"
    using old [of sid efs] l inv by (auto simp: seg_exact_def lay outbox_inv_def disk_inv_def seg_holds_def)
  then have more: "synced f \<le> synced f'" by (simp add: f'_def)
  have ex: "seg_exact (disk ?ob) s es (s \<noteq> sid \<or> sync)" if "(s, es) \<in> set ?lay" for s es
  proof (cases "s = sid")
    case True
    have "es = efs @ chunk" using that True lt by (auto simp: lay grow_last)
    then show ?thesis using True c fs lay by (auto simp: seg_exact_def look f'_def)
  next
    case False
    then have "(s, es) \<in> set lay" using that by (auto simp: lay grow_last)
    from old [OF this] False show ?thesis unfolding seg_exact_def look by simp
  qed
  have ck: "checkpoint_good py ?lay (checkpoint_cursor ob) (volatile_cursor ob) (disk ?ob) t"
    if "t \<in> set (ckpt_file (disk ob) # ckpt_maybe (disk ob))" for t
  proof -
    from du that obtain g c b f1 where c: "t = Some b" "checkpoint_text py g c = Inr b"
      "boundary lay c" "cursor_le (checkpoint_cursor ob) c"
      "lookup_seg (cur_seg c) (disk ob) = Some f1" "cur_off c \<le> synced f1"
      "cursor_le c (volatile_cursor ob)"
      by (fastforce simp: durable_inv_def checkpoint_good_def)
    have "\<exists>f. lookup_seg (cur_seg c) (disk ?ob) = Some f \<and> cur_off c \<le> synced f"
      unfolding look using c(5,6) more l sid by (cases "cur_seg c = sid") auto
    with c boundary_grow [OF ne c(3)] show ?thesis unfolding checkpoint_good_def by blast
  qed
  have keys: "map fst (seg_files (disk ?ob)) = map fst (seg_files (disk ob))"
    unfolding dk using lookup_seg_key [OF l] by (simp add: update_keys fq sid)
  show ?thesis
    unfolding durable_inv_def sid(2) f keys keys_grow [OF ne]
  proof (intro conjI)
    show "\<forall>(s, es) \<in> set ?lay. seg_exact (disk ?ob) s es (s \<noteq> sid \<or> \<not> \<not> sync)"
      unfolding not_not using ex by blast
    show "\<forall>t \<in> set (ckpt_file (disk ?ob) # ckpt_maybe (disk ?ob)).
        checkpoint_good py ?lay (checkpoint_cursor ob) (volatile_cursor ob) (disk ?ob) t"
      using ck by (simp add: fq)
    show "\<forall>g \<in> set (seg_ghosts (disk ?ob)). ghost_good py ?lay (checkpoint_cursor ob) g"
      using du by (simp add: durable_inv_def fq ghost_good_def keys_grow [OF ne] del: set_map)
  qed (use du fq in \<open>auto simp: durable_inv_def format_good_def\<close>)
qed

section \<open>One chunk\<close>

lemma record_chunk_disk:
  "record_chunk chunk sync (ob\<lparr>disk := d\<rparr>) = (record_chunk chunk sync ob)\<lparr>disk := d\<rparr>"
  by (simp add: record_chunk_def Let_def active_id_def active_segment_def)

lemma write_chunk_effect:
  assumes inv: "outbox_inv py lay ob" and fr: "frames_ok py chunk"
    and d: "distinct (map (msg_id \<circ> fst) chunk)"
    and new: "set (map (msg_id \<circ> fst) chunk) \<inter> set (ids_after (checkpoint_cursor ob) lay) = {}"
    and r: "write_chunk_locked chunk sync ob = (r, ob')"
  shows "checkpoint_cursor ob' = checkpoint_cursor ob \<and> same_limits ob ob'
    \<and> ((r = Inl OutboxError \<and> outbox_inv py lay ob' \<and> contents_of lay ob' = contents_of lay ob)
     \<or> (r = Inr () \<and> outbox_inv py (grow lay chunk) ob'
          \<and> contents_of (grow lay chunk) ob' = contents_of lay ob @ map (canon_message \<circ> fst) chunk
          \<and> data_sync_pending ob' = (\<not> sync)
          \<and> (durable_inv py lay ob \<longrightarrow> durable_inv py (grow lay chunk) ob')))"
proof -
  have m: "memory_inv py lay ob" and dk: "disk_inv lay (disk ob)" using inv by (auto simp: outbox_inv_def)
  then have ok: "layout_ok py lay" by (simp add: memory_inv_def)
  have act: "active_id ob = fst (last lay)" "byte_size (active_segment ob) = seg_size (snd (last lay))"
    using active_facts [OF m] by simp_all
  have "last lay \<in> set lay" using ok by (simp add: layout_ok_def)
  then have "seg_holds (disk ob) (fst (last lay)) (snd (last lay))"
    using dk unfolding disk_inv_def by (metis (mono_tags, lifting) case_prodD prod.collapse)
  then obtain f where f: "lookup_seg (fst (last lay)) (disk ob) = Some f" "synced f \<le> length (contents f)"
    "take (seg_size (snd (last lay))) (contents f)
       = encode_segment_header (fst (last lay)) @ blob (snd (last lay))"
    by (auto simp: seg_holds_def)
  have n: "seg_size (snd (last lay)) \<le> length (contents f)"
    using arg_cong [OF f(3), of length] by (simp add: seg_size_def)
  let ?w = "write_chunk_file (fst (last lay)) (seg_size (snd (last lay))) (blob chunk) sync"
  obtain r1 d1 where w: "?w (disk ob) = (r1, d1)" by (cases "?w (disk ob)")
  from write_chunk_file_effect [OF w f(1,2) n] have w1: "grown (fst (last lay)) (seg_size (snd (last lay))) (disk ob) d1"
    "r1 = Inr () \<or> r1 = Inl OSError \<or> r1 = Inl OutboxError"
    "r1 = Inr () \<longrightarrow> length (contents f) = seg_size (snd (last lay)) \<and> (\<exists>d0. quiet (disk ob) d0
       \<and> d1 = update_seg (fst (last lay)) (f\<lparr>contents := contents f @ blob chunk,
            synced := (if sync then length (contents f @ blob chunk) else synced f)\<rparr>) d0)" by auto
  have res: "r = (case r1 of Inl e \<Rightarrow> Inl (if e = OSError then OutboxError else e) | Inr _ \<Rightarrow> Inr ())"
    "ob' = (case r1 of Inl _ \<Rightarrow> ob\<lparr>disk := d1\<rparr> | Inr _ \<Rightarrow> (record_chunk chunk sync ob)\<lparr>disk := d1\<rparr>)"
    using r on_disk_eq [where m = ?w and ob = ob, OF w]
    by (auto simp: write_chunk_locked_def act andThen_def modify_def record_chunk_disk
        split: sum.splits)
  have scr: "set (io_script d1) \<subseteq> set (io_script (disk ob))" using w1(1) by (simp add: grown_def)
  have fields: "checkpoint_cursor ob' = checkpoint_cursor ob \<and> same_limits ob ob'"
    using scr by (cases r1) (simp_all add: res same_limits_def record_chunk_def Let_def)
  show ?thesis
  proof (cases r1)
    case (Inl e)
    have "seg_holds d1 s es" if "(s, es) \<in> set lay" for s es
    proof (cases "s = fst (last lay)")
      case True
      have "es = snd (last lay)" using layout_unique [OF ok] that True \<open>last lay \<in> set lay\<close> by (cases "last lay") auto
      then show ?thesis using grown_lookup [OF w1(1) f(1,2)] f(3) True by (auto simp: seg_holds_def)
    next
      case False
      then have "lookup_seg s d1 = lookup_seg s (disk ob)" using w1(1) by (simp add: grown_def)
      then show ?thesis using dk that by (fastforce simp: disk_inv_def seg_holds_def)
    qed
    then have "outbox_inv py lay (ob\<lparr>disk := d1\<rparr>)" using m by (auto simp: outbox_inv_def disk_inv_def)
    then show ?thesis using fields Inl w1(2) res by (auto simp: contents_of_def)
  next
    case (Inr u)
    then obtain d0 where q: "quiet (disk ob) d0" and len: "length (contents f) = seg_size (snd (last lay))"
      and d1: "d1 = update_seg (fst (last lay)) (f\<lparr>contents := contents f @ blob chunk,
            synced := (if sync then length (contents f @ blob chunk) else synced f)\<rparr>) d0" using w1(3) by auto
    have c: "contents f = encode_segment_header (fst (last lay)) @ blob (snd (last lay))"
      using f(3) len by simp
    note rm = recorded_memory [OF m fr d new]
    have "outbox_inv py (grow lay chunk) ob'"
      using rm(1) [of sync] grow_disk_inv [OF ok dk f(1) c q, of chunk sync] Inr
      by (simp add: res outbox_inv_def d1)
    moreover have "contents_of (grow lay chunk) ob' = contents_of lay ob @ map (canon_message \<circ> fst) chunk"
      using rm(2) [of sync] Inr by (simp add: res contents_of_def)
    moreover have "durable_inv py lay ob \<longrightarrow> durable_inv py (grow lay chunk) ob'"
      using grow_durable [OF inv _ f(1) c q, of chunk sync] Inr by (simp add: res d1)
    moreover have "data_sync_pending ob' = (\<not> sync)" using Inr by (simp add: res record_chunk_def Let_def)
    ultimately show ?thesis using fields Inr res by simp
  qed
qed

section \<open>The loop\<close>

lemma rotate_if_needed_effect:
  assumes inv: "outbox_inv py lay ob" and r: "rotate_if_needed n ob = (r, ob')"
  shows "same_queue ob ob' \<and> (\<exists>lay'. outbox_inv py lay' ob' \<and> contents_of lay' ob' = contents_of lay ob
      \<and> ids_after (checkpoint_cursor ob) lay' = ids_after (checkpoint_cursor ob) lay
      \<and> (r = Inl OutboxError \<or> ((\<exists>b. r = Inr b) \<and> \<not> would_rotate_locked ob' n
           \<and> (durable_inv py lay ob \<longrightarrow> durable_inv py lay' ob'))))"
proof (cases "would_rotate_locked ob n")
  case False
  then have "r = Inr False" "ob' = ob" using r by (auto simp: rotate_if_needed_def)
  then show ?thesis using inv False by (auto intro: exI [of _ lay])
next
  case True
  obtain r1 ob1 where rot: "rotate_locked ob = (r1, ob1)" by (cases "rotate_locked ob")
  have res: "ob' = ob1" "r = (case r1 of Inl e \<Rightarrow> Inl e | Inr _ \<Rightarrow> Inr True)"
    using r True rot by (auto simp: rotate_if_needed_def andThen_def split: sum.splits)
  let ?lay = "lay @ [(active_id ob + 1, [])]"
  have ids: "ids_after (checkpoint_cursor ob) ?lay = ids_after (checkpoint_cursor ob) lay"
    by (simp add: ids_after_def)
  show ?thesis
  proof (cases r1)
    case (Inl e)
    with rotate_effect [OF inv rot] res show ?thesis by (auto intro!: exI [of _ lay])
  next
    case (Inr u)
    with rotate_effect [OF inv rot] have e: "same_queue ob ob1" "outbox_inv py ?lay ob1"
      "contents_of ?lay ob1 = contents_of lay ob" "durable_inv py lay ob \<longrightarrow> durable_inv py ?lay ob1"
      by (auto simp: Let_def)
    have m1: "memory_inv py ?lay ob1" using e(2) by (simp add: outbox_inv_def)
    have "\<not> would_rotate_locked ob1 n"
      by (simp add: would_rotate_locked_def active_facts(2) [OF m1])
    then show ?thesis using e ids res Inr by (auto intro!: exI [of _ ?lay])
  qed
qed

definition loop_outcome ::
  "python \<Rightarrow> bool \<Rightarrow> frames \<Rightarrow> append_result \<Rightarrow> layout \<Rightarrow> outbox \<Rightarrow> py_error + append_result
     \<Rightarrow> nat \<Rightarrow> layout \<Rightarrow> outbox \<Rightarrow> bool"
where
  "loop_outcome py sync remaining res lay ob r k lay' ob' \<longleftrightarrow>
     k \<le> length remaining \<and> same_limits ob ob' \<and> outbox_inv py lay' ob'
     \<and> contents_of lay' ob' = contents_of lay ob @ map (canon_message \<circ> fst) (take k remaining)
     \<and> (r = Inl OutboxError
        \<or> ((\<exists>res'. r = Inr res' \<and> appended_count res' = appended_count res + length remaining
               \<and> bytes_written res' = bytes_written res + length (blob remaining))
           \<and> k = length remaining \<and> (sync \<and> remaining \<noteq> [] \<longrightarrow> \<not> data_sync_pending ob')
           \<and> (durable_inv py lay ob \<longrightarrow> durable_inv py lay' ob')))"

lemma blob_split: "length (blob (take k xs)) + length (blob (drop k xs)) = length (blob xs)"
  by (metis append_take_drop_id concat_append length_append map_append)

text \<open>One turn of the loop reduces to the loop on what remains.\<close>

lemma append_loop_effect:
  "outbox_inv py lay ob \<Longrightarrow> frames_ok py remaining \<Longrightarrow> distinct (map (msg_id \<circ> fst) remaining) \<Longrightarrow>
   set (map (msg_id \<circ> fst) remaining) \<inter> set (ids_after (checkpoint_cursor ob) lay) = {} \<Longrightarrow>
   length remaining < fuel \<Longrightarrow> append_loop fuel sync remaining res ob = (r, ob') \<Longrightarrow>
   \<exists>k lay'. loop_outcome py sync remaining res lay ob r k lay' ob'"
proof (induction fuel arbitrary: remaining res lay ob r)
  case 0
  then show ?case by simp
next
  case (Suc fuel)
  note inv = Suc.prems(1) and run = Suc.prems(6)
  show ?case
  proof (cases "remaining = []")
    case True
    with run have "r = Inr res" "ob' = ob" by simp_all
    with True inv show ?thesis
      by (intro exI [of _ 0] exI [of _ lay]) (simp add: loop_outcome_def)
  next
    case False
    let ?n = "length (snd (hd remaining))"
    obtain r1 ob1 where one: "rotate_if_needed ?n ob = (r1, ob1)" by (cases "rotate_if_needed ?n ob")
    from rotate_if_needed_effect [OF inv one] obtain lay1 where sq1: "same_queue ob ob1"
      and inv1: "outbox_inv py lay1 ob1" and ct1: "contents_of lay1 ob1 = contents_of lay ob"
      and ids1: "ids_after (checkpoint_cursor ob) lay1 = ids_after (checkpoint_cursor ob) lay"
      and r1: "r1 = Inl OutboxError \<or> ((\<exists>b. r1 = Inr b) \<and> \<not> would_rotate_locked ob1 ?n
           \<and> (durable_inv py lay ob \<longrightarrow> durable_inv py lay1 ob1))" by blast
    have sl1: "same_limits ob ob1" using same_queue_limits [OF sq1] .
    have ck1: "checkpoint_cursor ob1 = checkpoint_cursor ob" using sq1 by (simp add: same_queue_def)
    show ?thesis
    proof (cases r1)
      case (Inl e)
      with run False one r1 have "r = Inl OutboxError" "ob' = ob1" by (auto simp: andThen_def)
      with inv1 ct1 sl1 show ?thesis
        by (intro exI [of _ 0] exI [of _ lay1]) (simp add: loop_outcome_def)
    next
      case (Inr b)
      with r1 have nw: "\<not> would_rotate_locked ob1 ?n"
        and du1: "durable_inv py lay ob \<longrightarrow> durable_inv py lay1 ob1" by auto
      let ?chunk = "next_chunk ob1 remaining"
      let ?k = "length ?chunk"
      let ?more = "drop ?k remaining"
      have "0 < segment_max_records ob1" using inv1 by (simp add: outbox_inv_def memory_inv_def)
      from next_chunk_nonempty [OF this False nw] have ne: "?chunk \<noteq> []" .
      have pre: "?chunk = take ?k remaining" by (rule next_chunk_prefix)
      then have kle: "?k \<le> length remaining" by (metis length_take min.cobounded1)
      have split: "remaining = ?chunk @ ?more" using pre by (metis append_take_drop_id)
      have fr: "frames_ok py ?chunk" "frames_ok py ?more"
        using Suc.prems(2) split by (metis frames_ok_simps(3))+
      have dm: "distinct (map (msg_id \<circ> fst) ?chunk @ map (msg_id \<circ> fst) ?more)"
        using Suc.prems(3) split by (metis map_append)
      then have di: "distinct (map (msg_id \<circ> fst) ?chunk)" "distinct (map (msg_id \<circ> fst) ?more)"
        "set (map (msg_id \<circ> fst) ?more) \<inter> set (map (msg_id \<circ> fst) ?chunk) = {}"
        unfolding distinct_append by auto
      have sub: "set (map (msg_id \<circ> fst) ?chunk) \<union> set (map (msg_id \<circ> fst) ?more)
          = set (map (msg_id \<circ> fst) remaining)"
        using split by (metis map_append set_append)
      have nw1: "set (map (msg_id \<circ> fst) ?chunk) \<inter> set (ids_after (checkpoint_cursor ob1) lay1) = {}"
        unfolding ck1 ids1 using Suc.prems(4) sub by blast
      let ?s = "sync \<or> ?more \<noteq> []"
      obtain r2 ob2 where two: "write_chunk_locked ?chunk ?s ob1 = (r2, ob2)"
        by (cases "write_chunk_locked ?chunk ?s ob1")
      note we = write_chunk_effect [OF inv1 fr(1) di(1) nw1 two]
      have sl2: "same_limits ob ob2" and ck2: "checkpoint_cursor ob2 = checkpoint_cursor ob"
        using we same_limits_trans [OF sl1] ck1 by auto
      define res2 where "res2 = res\<lparr>rotated := rotated res \<or> b, appended_count := appended_count res + ?k,
          bytes_written := bytes_written res + length (blob ?chunk)\<rparr>"
      have step: "(r, ob') = (case r2 of Inl e \<Rightarrow> (Inl e, ob2)
          | Inr _ \<Rightarrow> if ?more \<noteq> []
              then andThen rotate_locked (\<lambda>_. append_loop fuel sync ?more (res2\<lparr>rotated := True\<rparr>)) ob2
              else append_loop fuel sync ?more res2 ob2)"
        using run False one Inr ne two
        by (cases r2; cases "?more = []")
          (simp_all add: andThen_def get_state_def Let_def res2_def)
      show ?thesis
      proof (cases r2)
        case (Inl e)
        with step we have "r = Inl OutboxError" "ob' = ob2" "outbox_inv py lay1 ob2"
          "contents_of lay1 ob2 = contents_of lay ob" using ct1 by auto
        with sl2 show ?thesis
          by (intro exI [of _ 0] exI [of _ lay1]) (simp add: loop_outcome_def)
      next
        case (Inr u)
        let ?lay2 = "grow lay1 ?chunk"
        have inv2: "outbox_inv py ?lay2 ob2"
          and ct2: "contents_of ?lay2 ob2 = contents_of lay ob @ map (canon_message \<circ> fst) ?chunk"
          and dp2: "data_sync_pending ob2 = (\<not> ?s)"
          and du2: "durable_inv py lay ob \<longrightarrow> durable_inv py ?lay2 ob2"
          using we Inr ct1 du1 by auto
        have m1: "memory_inv py lay1 ob1" using inv1 by (simp add: outbox_inv_def)
        have ids2: "ids_after (checkpoint_cursor ob) ?lay2
            = ids_after (checkpoint_cursor ob) lay @ map (msg_id \<circ> fst) ?chunk"
          using recorded_memory(3) [OF m1 fr(1) di(1) nw1] ids1 ck1 by simp
        have nw2: "set (map (msg_id \<circ> fst) ?more) \<inter> set (ids_after (checkpoint_cursor ob) ?lay2) = {}"
          unfolding ids2 set_append using Suc.prems(4) sub di(3) by blast
        have lt: "length ?more < fuel"
          using Suc.prems(5) ne kle by (cases ?chunk) auto
        have counts: "appended_count res2 + length ?more = appended_count res + length remaining"
          "bytes_written res2 + length (blob ?more) = bytes_written res + length (blob remaining)"
          using kle blob_split [of ?k remaining] pre by (simp_all add: res2_def)
        have whole: "map (canon_message \<circ> fst) ?chunk @ map (canon_message \<circ> fst) (take j ?more)
            = map (canon_message \<circ> fst) (take (?k + j) remaining)" for j
          using pre by (metis map_append take_add)
        have extend: "\<exists>k lay'. loop_outcome py sync remaining res lay ob r k lay' ob'"
          if o: "loop_outcome py sync ?more res3 lay3 ob3 r j lay' ob'"
            and c3: "contents_of lay3 ob3 = contents_of ?lay2 ob2" and l3: "same_limits ob ob3"
            and d3: "durable_inv py lay ob \<longrightarrow> durable_inv py lay3 ob3"
            and e3: "appended_count res3 = appended_count res2" "bytes_written res3 = bytes_written res2"
            and s3: "?more = [] \<longrightarrow> ob' = ob2" for res3 lay3 ob3 j lay'
        proof -
          have "contents_of lay' ob' = contents_of lay ob @ map (canon_message \<circ> fst) (take (?k + j) remaining)"
            using o c3 ct2 whole [of j] by (simp add: loop_outcome_def)
          moreover have "?k + j \<le> length remaining" using o kle by (auto simp: loop_outcome_def)
          moreover have "same_limits ob ob'" using o same_limits_trans [OF l3] by (simp add: loop_outcome_def)
          ultimately show ?thesis using o counts e3 d3 kle dp2 s3
            by (intro exI [of _ "?k + j"] exI [of _ lay']) (auto simp: loop_outcome_def)
        qed
        show ?thesis
        proof (cases "?more = []")
          case True
          have "append_loop fuel sync ?more res2 ob2 = (r, ob')" using step Inr True by simp
          note run2 = this
          have "ob' = ob2" using run2 True lt by (cases fuel) auto
          from Suc.IH [OF inv2 fr(2) di(2) _ lt run2] nw2 ck2
          obtain j lay' where "loop_outcome py sync ?more res2 ?lay2 ob2 r j lay' ob'" by auto
          from extend [OF this refl sl2 du2 refl refl] \<open>ob' = ob2\<close> show ?thesis by blast
        next
          case more: False
          obtain r3 ob3 where rot: "rotate_locked ob2 = (r3, ob3)" by (cases "rotate_locked ob2")
          note re = rotate_effect [OF inv2 rot]
          have sl3: "same_limits ob ob3" and ck3: "checkpoint_cursor ob3 = checkpoint_cursor ob"
            using re same_limits_trans [OF sl2] same_queue_limits ck2 by (auto simp: same_queue_def)
          let ?lay3 = "?lay2 @ [(active_id ob2 + 1, [])]"
          show ?thesis
          proof (cases r3)
            case (Inl e)
            with re step Inr more rot have "r = Inl OutboxError" "ob' = ob3" "outbox_inv py ?lay2 ob3"
              "contents_of ?lay2 ob3 = contents_of ?lay2 ob2"
              by (auto simp: andThen_def)
            with sl3 ct2 pre kle show ?thesis
              by (intro exI [of _ ?k] exI [of _ ?lay2]) (simp add: loop_outcome_def)
          next
            case (Inr u')
            with re have inv3: "outbox_inv py ?lay3 ob3" "contents_of ?lay3 ob3 = contents_of ?lay2 ob2"
              "durable_inv py ?lay2 ob2 \<longrightarrow> durable_inv py ?lay3 ob3" by (auto simp: Let_def)
            have run3: "append_loop fuel sync ?more (res2\<lparr>rotated := True\<rparr>) ob3 = (r, ob')"
              using step \<open>r2 = Inr u\<close> more rot Inr by (simp add: andThen_def)
            have "ids_after (checkpoint_cursor ob3) ?lay3 = ids_after (checkpoint_cursor ob) ?lay2"
              by (simp add: ids_after_def ck3)
            with Suc.IH [OF inv3(1) fr(2) di(2) _ lt run3] nw2 obtain j lay' where
              "loop_outcome py sync ?more (res2\<lparr>rotated := True\<rparr>) ?lay3 ob3 r j lay' ob'" by auto
            from extend [OF this inv3(2) sl3] du2 inv3(3) more show ?thesis by auto
          qed
        qed
      qed
    qed
  qed
qed

end
