(* ===== verification/OutboxQueue.thy ===== *)
theory OutboxQueue
  imports OutboxBatch
begin

text \<open>
  The Outbox as a queue of messages: \<open>append_many\<close> adds the new messages of its batch in order,
  \<open>remove_oldest\<close> takes the head, reading changes nothing.
\<close>

lemma canon_canon [simp]: "canon (canon v) = canon v"
proof (induction v)
  case (PDict kvs)
  let ?s = "sort_key (\<lambda>(k, v). key_text k) (map (\<lambda>(k, v). (k, canon v)) kvs)"
  have "map (\<lambda>(k, v). (k, canon v)) ?s = ?s"
    using PDict by (auto intro!: map_idI)
  moreover have "sort_key (\<lambda>(k, v). key_text k) ?s = ?s"
    by (rule sort_key_id_if_sorted) simp
  ultimately show ?case by (simp del: map_map)
qed auto

lemma completed_ids_cover:
  assumes "memory_inv py lay ob"
  shows "set (ids_after (checkpoint_cursor ob) lay)
    \<subseteq> volatile_completed_ids ob \<union> set (map msg_id (contents_of lay ob))"
proof
  fix i assume "i \<in> set (ids_after (checkpoint_cursor ob) lay)"
  then obtain x e where x: "(x, e) \<in> set (after (checkpoint_cursor ob) lay)" "i = st_id x"
    by (auto simp: ids_after_def)
  have ok: "layout_ok py lay" using assms by (simp add: memory_inv_def)
  from assms x(1) have "at_or_after (volatile_cursor ob) x \<or> st_id x \<in> volatile_completed_ids ob"
    by (fastforce simp: memory_inv_def)
  then show "i \<in> volatile_completed_ids ob \<union> set (map msg_id (contents_of lay ob))"
  proof
    assume "at_or_after (volatile_cursor ob) x"
    then have "(x, e) \<in> set (after (volatile_cursor ob) lay)" using x(1) by (simp add: after_def)
    moreover have "st_id x = msg_id e" using items_encode [OF ok] x(1) after_subset by blast
    ultimately show ?thesis using x(2) by (force simp: contents_of_def)
  qed (simp add: x(2))
qed

definition append_outcome ::
  "python \<Rightarrow> message_envelope list \<Rightarrow> bool \<Rightarrow> layout \<Rightarrow> outbox \<Rightarrow> py_error + append_result
     \<Rightarrow> nat \<Rightarrow> layout \<Rightarrow> outbox \<Rightarrow> bool"
where
  "append_outcome py batch sync lay ob r k lay' ob' \<longleftrightarrow>
     (let news = map canon_message (new_messages (set (map msg_id (contents_of lay ob))) batch) in
       same_limits ob ob' \<and> outbox_inv py lay' ob' \<and> k \<le> length news
       \<and> contents_of lay' ob' = contents_of lay ob @ take k news
       \<and> (\<forall>res. r = Inr res \<longrightarrow> k = length news \<and> appended_count res = length news
            \<and> (\<forall>e \<in> set batch. agrees py (contents_of lay ob) (msg_id e) (encode_message py e))
            \<and> (sync \<longrightarrow> \<not> data_sync_pending ob')
            \<and> (durable_inv py lay ob \<longrightarrow> durable_inv py lay' ob'))
       \<and> (\<forall>x. r = Inl x \<longrightarrow> x = OutboxError \<or> (\<exists>e \<in> set batch. encode_message py e = Inl x)))"

lemma sync_if_effect:
  assumes inv: "outbox_inv py lay ob"
    and r: "andThen (if sync then sync_data_locked else ret ()) (\<lambda>_. ret no_append) ob = (r, ob')"
  shows "same_limits ob ob' \<and> outbox_inv py lay ob' \<and> contents_of lay ob' = contents_of lay ob
    \<and> (\<forall>res. r = Inr res \<longrightarrow> res = no_append \<and> (sync \<longrightarrow> \<not> data_sync_pending ob')
         \<and> (durable_inv py lay ob \<longrightarrow> durable_inv py lay ob'))
    \<and> (\<forall>x. r = Inl x \<longrightarrow> x = OutboxError)"
proof (cases sync)
  case False
  with r inv show ?thesis by (auto simp: andThen_def)
next
  case True
  obtain r1 ob1 where s: "sync_data_locked ob = (r1, ob1)" by (cases "sync_data_locked ob")
  from sync_effect [OF inv s] sync_only_inv [OF inv] sync_only_contents sync_only_same_queue
  have "outbox_inv py lay ob1" "contents_of lay ob1 = contents_of lay ob" "same_limits ob ob1"
    "r1 = Inr () \<longrightarrow> \<not> data_sync_pending ob1" "durable_inv py lay ob \<longrightarrow> durable_inv py lay ob1"
    "r1 = Inr () \<or> r1 = Inl OutboxError"
    using same_queue_limits by blast+
  with r True s show ?thesis by (auto simp: andThen_def split: sum.splits)
qed

text \<open>The part of \<open>append_many\<close> after the volatile removals have been checkpointed.\<close>

definition append_checked :: "python \<Rightarrow> message_envelope list \<Rightarrow> bool \<Rightarrow> append_result ob_proc" where
  "append_checked py batch sync =
     andThen (prepare_batch py batch Map.empty) (\<lambda>unique_new.
       if unique_new = [] then
         andThen (if sync then sync_data_locked else ret ()) (\<lambda>_. ret no_append)
       else append_loop (2 * length unique_new + 1) sync unique_new no_append)"

lemma append_checked_effect:
  assumes py: "python_ok py" and inv: "outbox_inv py lay ob"
    and v: "\<forall>e \<in> set batch. valid_message py e"
    and vc: "\<forall>e \<in> set batch. msg_id e \<notin> volatile_completed_ids ob"
    and r: "append_checked py batch sync ob = (r, ob')"
  shows "\<exists>k lay'. append_outcome py batch sync lay ob r k lay' ob'"
proof -
  let ?ids = "set (map msg_id (contents_of lay ob))"
  let ?news = "new_messages ?ids batch"
  obtain r1 ob1 where p: "prepare_batch py batch Map.empty ob = (r1, ob1)"
    by (cases "prepare_batch py batch Map.empty ob")
  from prepare_batch_effect [OF py inv v _ p] obtain d where d: "quiet (disk ob) d" "ob1 = ob\<lparr>disk := d\<rparr>"
    and un: "\<And>un. r1 = Inr un \<Longrightarrow> frames_ok py un \<and> map fst un = map canon_message ?news
         \<and> (\<forall>e \<in> set batch. agrees py (contents_of lay ob) (msg_id e) (encode_message py e))"
    and er: "\<And>x. r1 = Inl x \<Longrightarrow> x = OutboxError \<or> (\<exists>e \<in> set batch. encode_message py e = Inl x)"
    using pending_index(2) [OF inv] by auto
  have inv1: "outbox_inv py lay ob1" using outbox_inv_quiet [OF inv d(1)] d(2) by simp
  have ct1: "contents_of lay ob1 = contents_of lay ob" using d(2) by (simp add: contents_of_def)
  have sl1: "same_limits ob ob1" using quiet_fields(7) [OF d(1)] d(2) by (simp add: same_limits_def)
  have du1: "durable_inv py lay ob \<longrightarrow> durable_inv py lay ob1" using durable_quiet [OF _ d(1)] d(2) by simp
  show ?thesis
  proof (cases r1)
    case (Inl e)
    with r p have "r = Inl e" "ob' = ob1" by (auto simp: append_checked_def andThen_def)
    with inv1 ct1 sl1 er [OF Inl] show ?thesis
      by (intro exI [of _ 0] exI [of _ lay]) (simp add: append_outcome_def Let_def)
  next
    case (Inr un)
    note u = un [OF Inr]
    have len: "length un = length ?news" using u by (metis length_map)
    show ?thesis
    proof (cases "un = []")
      case True
      have "andThen (if sync then sync_data_locked else ret ()) (\<lambda>_. ret no_append) ob1 = (r, ob')"
        using r p Inr True by (simp add: append_checked_def andThen_def)
      from sync_if_effect [OF inv1 this] True len u ct1 du1 same_limits_trans [OF sl1] show ?thesis
        by (intro exI [of _ 0] exI [of _ lay]) (auto simp: append_outcome_def Let_def no_append_def)
    next
      case False
      have run: "append_loop (2 * length un + 1) sync un no_append ob1 = (r, ob')"
        using r p Inr False by (simp add: append_checked_def andThen_def)
      have fr: "frames_ok py un" using u by simp
      have idm: "map (msg_id \<circ> fst) un = map msg_id ?news"
      proof -
        have "map (msg_id \<circ> fst) un = map msg_id (map fst un)" by simp
        also have "\<dots> = map msg_id (map canon_message ?news)" using u by simp
        finally show ?thesis by (simp add: comp_def)
      qed
      have di: "distinct (map (msg_id \<circ> fst) un)" unfolding idm by (rule new_messages_ids)
      have m: "memory_inv py lay ob" using inv by (simp add: outbox_inv_def)
      have sub: "set (map msg_id ?news) \<subseteq> msg_id ` set batch"
        using new_messages_subset [of ?ids batch] by auto
      have "set (map (msg_id \<circ> fst) un) \<inter> set (ids_after (checkpoint_cursor ob1) lay) = {}"
      proof -
        have "set (ids_after (checkpoint_cursor ob1) lay) \<subseteq> volatile_completed_ids ob \<union> ?ids"
          using completed_ids_cover [OF m] d(2) by simp
        moreover have "set (map msg_id ?news) \<inter> ?ids = {}" by (rule new_messages_ids)
        moreover have "set (map msg_id ?news) \<inter> volatile_completed_ids ob = {}" using sub vc by auto
        ultimately show ?thesis unfolding idm by blast
      qed
      from append_loop_effect [OF inv1 fr di this _ run] obtain k lay'
        where o: "loop_outcome py sync un no_append lay ob1 r k lay' ob'" by auto
      have tk: "map (canon_message \<circ> fst) (take k un) = take k (map canon_message ?news)"
      proof -
        have "map (canon_message \<circ> fst) un = map canon_message (map fst un)" by simp
        also have "\<dots> = map canon_message (map canon_message ?news)" using u by simp
        also have "\<dots> = map canon_message ?news"
          by (simp add: canon_message_def comp_def)
        finally show ?thesis by (simp flip: take_map)
      qed
      from o ct1 tk len sl1 same_limits_trans [OF sl1] u du1 False show ?thesis
        by (intro exI [of _ k] exI [of _ lay']) (auto simp: append_outcome_def Let_def loop_outcome_def no_append_def)
    qed
  qed
qed

theorem append_many_effect:
  assumes py: "python_ok py" and inv: "outbox_inv py lay ob"
    and v: "\<forall>e \<in> set batch. valid_message py e"
    and r: "append_many py batch sync ob = (r, ob')"
  shows "\<exists>k lay'. append_outcome py batch sync lay ob r k lay' ob'"
proof (cases "batch = []")
  case True
  with r have "andThen (if sync then sync_data_locked else ret ()) (\<lambda>_. ret no_append) ob = (r, ob')"
    by (simp add: append_many_def append_many_locked_def)
  from sync_if_effect [OF inv this] True show ?thesis
    by (intro exI [of _ 0] exI [of _ lay]) (auto simp: append_outcome_def Let_def no_append_def)
next
  case ne: False
  have run: "andThen (\<lambda>ob. if list_ex (\<lambda>e. msg_id e \<in> volatile_completed_ids ob) batch
      then checkpoint py ob else ret () ob) (\<lambda>_. append_checked py batch sync) ob = (r, ob')"
    using r ne by (simp add: append_many_def append_many_locked_def append_checked_def)
  show ?thesis
  proof (cases "list_ex (\<lambda>e. msg_id e \<in> volatile_completed_ids ob) batch")
    case False
    then have "\<forall>e \<in> set batch. msg_id e \<notin> volatile_completed_ids ob" by (auto simp: list_ex_iff)
    moreover have "append_checked py batch sync ob = (r, ob')" using run False by (simp add: andThen_def)
    ultimately show ?thesis using append_checked_effect [OF py inv v] by blast
  next
    case True
    obtain r1 ob1 where c: "checkpoint py ob = (r1, ob1)" by (cases "checkpoint py ob")
    from checkpoint_effect [OF inv c] obtain lay1 where e: "same_limits ob ob1" "outbox_inv py lay1 ob1"
      "contents_of lay1 ob1 = contents_of lay ob" "r1 = Inr () \<or> r1 = Inl OutboxError"
      "r1 = Inr () \<longrightarrow> volatile_completed_ids ob1 = {}"
      "r1 = Inr () \<and> durable_inv py lay ob \<longrightarrow> durable_inv py lay1 ob1" by blast
    show ?thesis
    proof (cases r1)
      case (Inl x)
      with run True c have "r = Inl x" "ob' = ob1" by (auto simp: andThen_def)
      with e Inl show ?thesis
        by (intro exI [of _ 0] exI [of _ lay1]) (simp add: append_outcome_def Let_def)
    next
      case (Inr u)
      with run True c have "append_checked py batch sync ob1 = (r, ob')" by (simp add: andThen_def)
      from append_checked_effect [OF py e(2) v _ this] Inr e(5)
      obtain k lay' where "append_outcome py batch sync lay1 ob1 r k lay' ob'" by auto
      with e(1,3,6) Inr same_limits_trans [OF e(1)] show ?thesis
        by (intro exI [of _ k] exI [of _ lay']) (simp add: append_outcome_def Let_def)
    qed
  qed
qed

end
