(* ===== verification/OutboxRecovery.thy ===== *)
theory OutboxRecovery
  imports OutboxQueue
begin

text \<open>
  Recovery: what opening a storage directory finds. The checkpoint reads back as the cursor that
  was written, scanning gives back the index of the segments, and a torn tail of the active
  segment is cut off.
\<close>

section \<open>Reading the checkpoint back\<close>

lemma default_hooks_dict: "dict_hook default_hooks"
proof -
  have "distinct (map fst kvs) \<Longrightarrow> set (map fst kvs) \<inter> {k. KStr k \<in> set (map fst al)} = {} \<Longrightarrow>
    foldl (\<lambda>al (k, v). AList.update (KStr k) v al) al kvs = al @ map (\<lambda>(k, v). (KStr k, v)) kvs"
    for kvs :: "(pystr \<times> pyval) list" and al
  proof (induction kvs arbitrary: al)
    case Nil
    then show ?case by simp
  next
    case (Cons kv kvs)
    obtain k v where kv: "kv = (k, v)" by (cases kv)
    have new: "KStr k \<notin> set (map fst al)" using Cons.prems(2) kv by auto
    have "set (map fst kvs) \<inter> {k'. KStr k' \<in> set (map fst (al @ [(KStr k, v)]))} = {}"
      using Cons.prems kv by auto
    with Cons.IH [of "al @ [(KStr k, v)]"] Cons.prems(1) show ?case
      by (simp add: kv alist_update_new [OF new])
  qed
  from this [where al = "[]"] show ?thesis by (simp add: dict_hook_def default_hooks_def)
qed

lemma loads_dumps_newline:
  assumes "python_ok py" and "dict_hook h" and "dict_ok v" and "dumps py v = Inr t"
  shows "loads py h (t @ [10]) = Inr (canon v)"
proof -
  have r: "reads py h (dumps_depth py) t (canon v)"
    using dumps_reads_aux(1) assms by (simp add: dumps_def)
  then have h: "value_head t" by (rule reads_head)
  have e: "ends_number [10]" by (simp add: ends_number_def is_digit_def)
  have "\<not> starts [0xFEFF] (t @ [10])" using h by (cases t) (auto simp: value_head_def starts_def)
  with readsD [OF r, of "loads_depth py" "[10]"] e assms(1) skip_ws_head(2) [OF h, of "[10]"] show ?thesis
    by (simp add: loads_def python_ok_def skip_ws_def is_ws_def)
qed

lemma utf8_encode_newline: "utf8_encode t = Some bs \<Longrightarrow> utf8_decode (bs @ [10]) = Some (t @ [10])"
proof -
  assume "utf8_encode t = Some bs"
  then have "utf8_encode (t @ [10]) = Some (bs @ [10])"
    by (auto simp: utf8_encode_def scalar_value_def surrogate_def utf8_units_def split: if_splits)
  then show ?thesis by (rule utf8_decode_encode)
qed

lemma ustr_checkpoint [simp]:
  "ustr ''generation'' = [103, 101, 110, 101, 114, 97, 116, 105, 111, 110]"
  "ustr ''segment_id'' = [115, 101, 103, 109, 101, 110, 116, 95, 105, 100]"
  "ustr ''byte_offset'' = [98, 121, 116, 101, 95, 111, 102, 102, 115, 101, 116]"
  by code_simp+

lemma parse_checkpoint_text:
  assumes py: "python_ok py" and t: "checkpoint_text py g c = Inr b"
  shows "parse_checkpoint py b = Inr (g, c)"
proof -
  let ?kvs = "[(KStr (ustr ''version''), PInt 1), (KStr (ustr ''generation''), PInt (int g)),
    (KStr (ustr ''segment_id''), PInt (int (cur_seg c))),
    (KStr (ustr ''byte_offset''), PInt (int (cur_off c)))]"
  from t obtain s bs where d: "dumps py (PDict ?kvs) = Inr s" "utf8_encode s = Some bs" "b = bs @ [10]"
    by (auto simp: checkpoint_text_def canonical_json_def bindE_Inr split: sum.splits option.splits)
  have ok: "dict_ok (PDict ?kvs)" by simp
  then have dk: "distinct (map fst ?kvs)" by simp
  obtain kvs' where c: "canon (PDict ?kvs) = PDict kvs'" by simp
  have r: "read_metadata py b = Inr (PDict kvs')"
    using loads_dumps_newline [OF py default_hooks_dict ok d(1)] utf8_encode_newline [OF d(2)] c
    by (simp add: read_metadata_def d(3))
  have k: "same_keys kvs' [''version'', ''generation'', ''segment_id'', ''byte_offset'']"
    using map_of_canon(2) [OF c dk] by (simp add: same_keys_def del: ustr_checkpoint ustr_fields)
  have found: "dict_get kvs' nm = canon v" if "map_of ?kvs (KStr (ustr nm)) = Some v" for nm v
    using map_of_canon(1) [OF c dk, of "KStr (ustr nm)"] that by (simp add: dict_get_def)
  have "dict_get kvs' ''version'' = PInt 1" "dict_get kvs' ''generation'' = PInt (int g)"
    "dict_get kvs' ''segment_id'' = PInt (int (cur_seg c))"
    "dict_get kvs' ''byte_offset'' = PInt (int (cur_off c))"
    by (subst found, simp, simp)+
  with r k show ?thesis by (simp add: parse_checkpoint_def natural_int_def)
qed

section \<open>Scanning one segment\<close>

text \<open>A tail that is a strict prefix of a frame.\<close>

definition torn_tail :: "python \<Rightarrow> bytes \<Rightarrow> bool" where
  "torn_tail py torn \<longleftrightarrow>
     torn = [] \<or> (\<exists>e f m. frame_of py e f \<and> 0 < m \<and> m < length f \<and> torn = take m f)"

definition seg_image :: "disk \<Rightarrow> nat \<Rightarrow> frames \<Rightarrow> bytes \<Rightarrow> bool" where
  "seg_image d sid efs torn \<longleftrightarrow>
     (\<exists>f. lookup_seg sid d = Some f \<and> contents f = encode_segment_header sid @ blob efs @ torn
        \<and> SEGMENT_HEADER_SIZE \<le> synced f \<and> synced f \<le> length (contents f))"

text \<open>Only the file of one segment changed.\<close>

definition only_seg :: "nat \<Rightarrow> disk \<Rightarrow> disk \<Rightarrow> bool" where
  "only_seg sid d d' \<longleftrightarrow>
     fmt_file d' = fmt_file d \<and> ckpt_file d' = ckpt_file d \<and> ckpt_maybe d' = ckpt_maybe d
     \<and> segs_settled d' = segs_settled d \<and> seg_ghosts d' = seg_ghosts d
     \<and> set (io_script d') \<subseteq> set (io_script d) \<and> map fst (seg_files d') = map fst (seg_files d)
     \<and> (\<forall>s. s \<noteq> sid \<longrightarrow> lookup_seg s d' = lookup_seg s d)"

lemma quiet_only: "quiet d d' \<Longrightarrow> only_seg sid d d'"
  using quiet_fields [of d d'] quiet_lookup [of d d'] by (simp add: only_seg_def)

lemma only_seg_trans: "only_seg s a b \<Longrightarrow> only_seg s b c \<Longrightarrow> only_seg s a c"
  by (auto simp: only_seg_def)

lemma update_only:
  assumes "quiet d d0" and "lookup_seg sid d = Some f"
  shows "only_seg sid d (update_seg sid f' d0)"
proof -
  have "map fst (AList.update sid f' (seg_files d0)) = map fst (seg_files d0)"
    using lookup_seg_key [of sid d0 f] quiet_lookup [OF assms(1)] assms(2) by (simp add: update_keys)
  then show ?thesis using quiet_fields [OF assms(1)] quiet_lookup [OF assms(1)]
    by (simp add: only_seg_def)
qed

lemma scan_image:
  assumes py: "python_ok py" and fr: "frames_ok py efs" and torn: "torn_tail py torn"
  shows "scan_records py sid SEGMENT_HEADER_SIZE (blob efs @ torn)
    = Inr (entries_from sid SEGMENT_HEADER_SIZE efs, if torn = [] then None else Some (seg_size efs))"
proof -
  have "scan_records py sid (SEGMENT_HEADER_SIZE + length (blob efs)) torn
      = Inr ([], if torn = [] then None else Some (seg_size efs))"
  proof (cases "torn = []")
    case True
    then show ?thesis by (simp add: scan_records.simps)
  next
    case False
    with torn obtain e f m where "frame_of py e f" "0 < m" "m < length f" "torn = take m f"
      by (auto simp: torn_tail_def)
    with scan_records_torn [of py e f m sid "SEGMENT_HEADER_SIZE + length (blob efs)"] False
    show ?thesis by (simp add: seg_size_def)
  qed
  then show ?thesis by (simp add: scan_records_blob [OF py fr])
qed

lemma repair_effect:
  assumes r: "repair_torn_tail sid n d = (r, d')" and l: "lookup_seg sid d = Some f"
    and n: "n \<le> length (contents f)"
  shows "only_seg sid d d' \<and> (r = Inr () \<or> r = Inl OSError)
    \<and> (r = Inr () \<longrightarrow> lookup_seg sid d' = Some \<lparr>contents = take n (contents f), synced = n\<rparr>)
    \<and> (io_script d = [] \<longrightarrow> r = Inr () \<and> io_script d' = [])"
proof -
  obtain r0 d0 where c: "os_call d = (r0, d0)" by (cases "os_call d")
  have q: "quiet d d0" "r0 = Inr () \<or> r0 = Inl OSError" using os_call_quiet [OF c] by auto
  let ?f = "f\<lparr>contents := take n (contents f), synced := min (synced f) n\<rparr>"
  have t: "truncate_seg sid n d = (r0, case r0 of Inl _ \<Rightarrow> d0 | Inr _ \<Rightarrow> update_seg sid ?f d0)"
    using c l q(2) by (auto simp: truncate_seg_def andThen_def)
  show ?thesis
  proof (cases r0)
    case (Inl e)
    with r t q c show ?thesis
      by (auto simp: repair_torn_tail_def andThen_def quiet_only no_script_calls)
  next
    case (Inr u)
    let ?d = "update_seg sid ?f d0"
    have o: "only_seg sid d ?d" by (rule update_only [OF q(1) l])
    obtain r1 d1 where f1: "fsync_seg sid ?d = (r1, d1)" by (cases "fsync_seg sid ?d")
    have res: "r = r1" "d' = d1" using r t Inr f1 by (auto simp: repair_torn_tail_def andThen_def)
    from fsync_seg_cases [OF f1] have "(r1 = Inl OSError \<and> quiet ?d d1) \<or>
      (r1 = Inr () \<and> (\<exists>d0. quiet ?d d0 \<and> d1 = update_seg sid (?f\<lparr>synced := length (contents ?f)\<rparr>) d0))"
      by simp
    moreover have "io_script d = [] \<Longrightarrow> r1 = Inr () \<and> io_script d1 = []"
      using f1 c Inr by (auto simp: no_script_calls fsync_seg_def andThen_def)
    ultimately show ?thesis using res n only_seg_trans [OF o] update_only [of ?d _ sid ?f]
      by (auto simp: quiet_only min_def)
  qed
qed

lemma scan_segment_effect:
  assumes py: "python_ok py" and fr: "frames_ok py efs" and torn: "torn_tail py torn" "torn \<noteq> [] \<longrightarrow> active"
    and im: "seg_image (disk ob) sid efs torn" and sid: "sid \<le> MAX_SEGMENT_ID"
    and r: "scan_segment py sid active ob = (r, ob')"
  shows "\<exists>d'. ob' = ob\<lparr>disk := d'\<rparr> \<and> only_seg sid (disk ob) d'
    \<and> (r = Inl OutboxError \<or>
       (r = Inr (\<lparr>byte_size = seg_size efs, record_count = length efs\<rparr>, entries_from sid SEGMENT_HEADER_SIZE efs)
        \<and> seg_image d' sid efs [] \<and> (torn = [] \<longrightarrow> lookup_seg sid d' = lookup_seg sid (disk ob))
        \<and> (torn \<noteq> [] \<longrightarrow> (\<exists>f. lookup_seg sid d' = Some f \<and> length (contents f) \<le> synced f))))
    \<and> (io_script (disk ob) = [] \<longrightarrow> r \<noteq> Inl OutboxError \<and> io_script d' = [])"
proof -
  from im obtain f where f: "lookup_seg sid (disk ob) = Some f"
    "contents f = encode_segment_header sid @ blob efs @ torn" "SEGMENT_HEADER_SIZE \<le> synced f"
    "synced f \<le> length (contents f)" by (auto simp: seg_image_def)
  obtain r0 d0 where c: "os_call (disk ob) = (r0, d0)" by (cases "os_call (disk ob)")
  have q: "quiet (disk ob) d0" "r0 = Inr () \<or> r0 = Inl OSError" using os_call_quiet [OF c] by auto
  have l0: "lookup_seg sid d0 = Some f" using f(1) quiet_lookup [OF q(1)] by simp
  have hd: "check_segment_header sid (contents f) = Inr ()"
    unfolding f(2) by (rule check_encoded_header [OF sid])
  have dr: "drop SEGMENT_HEADER_SIZE (contents f) = blob efs @ torn" by (simp add: f(2))
  note sc = scan_image [OF py fr torn(1), of sid]
  note od = on_disk_eq [where m = os_call and ob = ob, OF c]
  let ?v = "(\<lparr>byte_size = seg_size efs, record_count = length efs\<rparr>, entries_from sid SEGMENT_HEADER_SIZE efs)"
  let ?res = "\<lambda>r1 :: py_error + unit. case r1 of Inl _ \<Rightarrow> Inl OutboxError | Inr _ \<Rightarrow> Inr ?v"
  show ?thesis
  proof (cases r0)
    case (Inl e)
    with r q c have "r = Inl OutboxError" "ob' = ob\<lparr>disk := d0\<rparr>" "io_script (disk ob) \<noteq> []"
      by (auto simp: scan_segment_def andThen_def od no_script_calls)
    then show ?thesis using quiet_only [OF q(1)] by auto
  next
    case (Inr u)
    show ?thesis
    proof (cases "torn = []")
      case True
      obtain r1 d1 where c1: "os_call d0 = (r1, d1)" by (cases "os_call d0")
      have q1: "quiet (disk ob) d1" "r1 = Inr () \<or> r1 = Inl OSError"
        using os_call_quiet [OF c1] quiet_trans [OF q(1)] by auto
      have od1: "on_disk os_call (ob\<lparr>disk := d0\<rparr>)
          = (case r1 of Inl e \<Rightarrow> Inl OutboxError | Inr x \<Rightarrow> Inr x, ob\<lparr>disk := d1\<rparr>)"
        using on_disk_eq [where m = os_call and ob = "ob\<lparr>disk := d0\<rparr>"] c1 q1(2) by auto
      have n: "length (contents f) = seg_size efs" using True f(2) by (simp add: seg_size_def)
      have "scan_segment py sid active ob = (?res r1, ob\<lparr>disk := d1\<rparr>)"
        using q1(2) by (auto simp: scan_segment_def andThen_def [of "on_disk os_call"] od Inr l0 hd dr True od1 n sc [unfolded True, simplified])
      then have "ob' = ob\<lparr>disk := d1\<rparr>" "r = ?res r1" using r by simp_all
      moreover have "io_script (disk ob) = [] \<Longrightarrow> r1 = Inr () \<and> d1 = disk ob"
        using c c1 by (simp add: no_script_calls)
      moreover have "seg_image d1 sid efs []" using f True quiet_lookup [OF q1(1)] by (simp add: seg_image_def)
      ultimately show ?thesis
        using quiet_only [OF q1(1)] True quiet_lookup [OF q1(1)]
        by (intro exI [of _ d1]) (cases r1, auto)
    next
      case False
      then have act: "active" using torn(2) by simp
      obtain r1 d1 where c1: "repair_torn_tail sid (seg_size efs) d0 = (r1, d1)"
        by (cases "repair_torn_tail sid (seg_size efs) d0")
      have "seg_size efs \<le> length (contents f)" by (simp add: seg_size_def f(2))
      from repair_effect [OF c1 l0 this] have rp: "only_seg sid d0 d1" "r1 = Inr () \<or> r1 = Inl OSError"
        "r1 = Inr () \<longrightarrow> lookup_seg sid d1 = Some \<lparr>contents = take (seg_size efs) (contents f), synced = seg_size efs\<rparr>"
        "io_script d0 = [] \<longrightarrow> r1 = Inr () \<and> io_script d1 = []" by auto
      have tk: "take (seg_size efs) (contents f) = encode_segment_header sid @ blob efs"
        by (simp add: seg_size_def f(2))
      let ?m = "on_disk (repair_torn_tail sid (seg_size efs))"
      have od1: "?m (ob\<lparr>disk := d0\<rparr>)
          = (case r1 of Inl e \<Rightarrow> Inl OutboxError | Inr x \<Rightarrow> Inr x, ob\<lparr>disk := d1\<rparr>)"
        using on_disk_eq [where m = "repair_torn_tail sid (seg_size efs)" and ob = "ob\<lparr>disk := d0\<rparr>"] c1 rp(2)
        by auto
      have "scan_segment py sid active ob = (?res r1, ob\<lparr>disk := d1\<rparr>)"
        using rp(2) False act
        by (auto simp: scan_segment_def andThen_def [of "on_disk os_call"] andThen_def [of ?m] od Inr l0 hd dr sc od1)
      then have "ob' = ob\<lparr>disk := d1\<rparr>" "r = ?res r1" using r by simp_all
      moreover have "io_script (disk ob) = [] \<Longrightarrow> io_script d0 = []" using c by (simp add: no_script_calls)
      moreover have "r1 = Inr () \<longrightarrow> seg_image d1 sid efs [] \<and>
          (\<exists>f. lookup_seg sid d1 = Some f \<and> length (contents f) \<le> synced f)"
        using rp(3) tk by (auto simp: seg_image_def seg_size_def)
      ultimately show ?thesis
        using only_seg_trans [OF quiet_only [OF q(1)] rp(1)] rp(4) False
        by (intro exI [of _ d1]) (cases r1, auto)
    qed
  qed
qed

section \<open>Scanning all segments\<close>

text \<open>The files of a layout, the last one with a possibly torn tail.\<close>

definition files_of :: "python \<Rightarrow> nat \<Rightarrow> bytes \<Rightarrow> layout \<Rightarrow> disk \<Rightarrow> bool" where
  "files_of py active torn lay d \<longleftrightarrow> torn_tail py torn \<and>
     (\<forall>(sid, efs) \<in> set lay. frames_ok py efs \<and> sid \<le> MAX_SEGMENT_ID
        \<and> seg_image d sid efs (if sid = active then torn else []))"

text \<open>What the scan leaves on the disk: the same files with the tail removed.\<close>

definition scanned :: "nat \<Rightarrow> bytes \<Rightarrow> layout \<Rightarrow> disk \<Rightarrow> disk \<Rightarrow> bool" where
  "scanned active torn lay d d' \<longleftrightarrow>
     (\<forall>(sid, efs) \<in> set lay. seg_image d' sid efs []
        \<and> (sid \<noteq> active \<or> torn = [] \<longrightarrow> lookup_seg sid d' = lookup_seg sid d)
        \<and> (sid = active \<and> torn \<noteq> [] \<longrightarrow>
             (\<exists>f. lookup_seg sid d' = Some f \<and> length (contents f) \<le> synced f)))"

definition other_files :: "nat set \<Rightarrow> disk \<Rightarrow> disk \<Rightarrow> bool" where
  "other_files S d d' \<longleftrightarrow>
     fmt_file d' = fmt_file d \<and> ckpt_file d' = ckpt_file d \<and> ckpt_maybe d' = ckpt_maybe d
     \<and> segs_settled d' = segs_settled d \<and> seg_ghosts d' = seg_ghosts d
     \<and> set (io_script d') \<subseteq> set (io_script d) \<and> map fst (seg_files d') = map fst (seg_files d)
     \<and> (\<forall>s. s \<notin> S \<longrightarrow> lookup_seg s d' = lookup_seg s d)"

lemma other_files_refl [simp]: "other_files S d d"
  by (simp add: other_files_def)

lemma other_files_step: "only_seg s a b \<Longrightarrow> other_files S b c \<Longrightarrow> other_files (insert s S) a c"
  by (auto simp: only_seg_def other_files_def)

lemma seg_image_lookup: "lookup_seg sid d' = lookup_seg sid d \<Longrightarrow> seg_image d' sid efs t = seg_image d sid efs t"
  by (simp add: seg_image_def)

lemma scan_all_effect:
  assumes py: "python_ok py"
  shows "files_of py active torn lay (disk ob) \<Longrightarrow> segments ob = segment_index lay0 \<Longrightarrow>
    distinct (map fst (lay0 @ lay)) \<Longrightarrow> scan_all py active (map fst lay) ob = (r, ob') \<Longrightarrow>
    \<exists>d' segs. ob' = ob\<lparr>disk := d', segments := segs\<rparr> \<and> other_files (set (map fst lay)) (disk ob) d'
      \<and> (r = Inl OutboxError \<or> (r = Inr (map fst (items lay)) \<and> segs = segment_index (lay0 @ lay)
           \<and> scanned active torn lay (disk ob) d'))
      \<and> (io_script (disk ob) = [] \<longrightarrow> r \<noteq> Inl OutboxError \<and> io_script d' = [])"
proof (induction lay arbitrary: ob lay0 r ob')
  case Nil
  then show ?case
    by (intro exI [of _ "disk ob"] exI [of _ "segments ob"]) (auto simp: scanned_def)
next
  case (Cons sefs lay)
  obtain sid efs where s: "sefs = (sid, efs)" by (cases sefs)
  have here: "frames_ok py efs" "torn_tail py (if sid = active then torn else [])" "sid \<le> MAX_SEGMENT_ID"
    "seg_image (disk ob) sid efs (if sid = active then torn else [])"
    "(if sid = active then torn else []) \<noteq> [] \<longrightarrow> (sid = active)"
    using Cons.prems(1) by (auto simp: files_of_def s torn_tail_def)
  have later: "files_of py active torn lay (disk ob)" using Cons.prems(1) by (simp add: files_of_def)
  have new: "sid \<notin> set (map fst lay)" "sid \<notin> set (map fst lay0)" "distinct (map fst (lay0 @ [(sid, efs)] @ lay))"
    using Cons.prems(3) by (auto simp: s)
  obtain r1 ob1 where sc: "scan_segment py sid (sid = active) ob = (r1, ob1)"
    by (cases "scan_segment py sid (sid = active) ob")
  let ?v = "(\<lparr>byte_size = seg_size efs, record_count = length efs\<rparr>, entries_from sid SEGMENT_HEADER_SIZE efs)"
  from scan_segment_effect [OF py here(1,2,5,4,3) sc] obtain d1 where d1: "ob1 = ob\<lparr>disk := d1\<rparr>"
    "only_seg sid (disk ob) d1"
    and r1: "r1 = Inl OutboxError \<or> (r1 = Inr ?v \<and> seg_image d1 sid efs []
        \<and> ((if sid = active then torn else []) = [] \<longrightarrow> lookup_seg sid d1 = lookup_seg sid (disk ob))
        \<and> ((if sid = active then torn else []) \<noteq> [] \<longrightarrow>
             (\<exists>f. lookup_seg sid d1 = Some f \<and> length (contents f) \<le> synced f)))"
    and ns: "io_script (disk ob) = [] \<longrightarrow> r1 \<noteq> Inl OutboxError \<and> io_script d1 = []" by blast
  show ?case
  proof (cases r1)
    case (Inl e)
    with Cons.prems(4) sc r1 have "r = Inl OutboxError" "ob' = ob1" by (auto simp: s andThen_def)
    with d1 Inl r1 ns other_files_step [OF d1(2) other_files_refl] show ?thesis
      by (intro exI [of _ d1] exI [of _ "segments ob"]) (auto simp: s)
  next
    case (Inr v)
    with r1 have v: "v = ?v" and im1: "seg_image d1 sid efs []" by auto
    let ?ob = "ob1\<lparr>segments := segment_index (lay0 @ [(sid, efs)])\<rparr>"
    have nk: "sid \<notin> set (map fst (segments ob1))" using new(2) Cons.prems(2) d1 by simp
    have upd: "AList.update sid (fst ?v) (segments ob1) = segment_index (lay0 @ [(sid, efs)])"
      using alist_update_new [OF nk] Cons.prems(2) d1 by (simp add: segment_index_def)
    obtain r2 ob2 where more: "scan_all py active (map fst lay) ?ob = (r2, ob2)"
      by (cases "scan_all py active (map fst lay) ?ob")
    have res: "ob' = ob2" "r = (case r2 of Inl e \<Rightarrow> Inl e | Inr es \<Rightarrow> Inr (entries_from sid SEGMENT_HEADER_SIZE efs @ es))"
    proof -
      have "scan_all py active (map fst (sefs # lay)) ob =
        (case r2 of Inl e \<Rightarrow> Inl e | Inr es \<Rightarrow> Inr (entries_from sid SEGMENT_HEADER_SIZE efs @ es), ob2)"
        using sc Inr v nk upd more
        by (auto simp: s andThen_def modify_def split: sum.splits)
      then show "ob' = ob2"
        "r = (case r2 of Inl e \<Rightarrow> Inl e | Inr es \<Rightarrow> Inr (entries_from sid SEGMENT_HEADER_SIZE efs @ es))"
        using Cons.prems(4) by simp_all
    qed
    have look1: "lookup_seg x d1 = lookup_seg x (disk ob)" if "x \<noteq> sid" for x
      using d1(2) that by (simp add: only_seg_def)
    have fo: "files_of py active torn lay (disk ?ob)"
    proof -
      have "seg_image d1 x es (if x = active then torn else [])" if "(x, es) \<in> set lay" for x es
      proof -
        have "x \<noteq> sid" using that new(1) by force
        from seg_image_lookup [OF look1 [OF this]] later that show ?thesis
          unfolding files_of_def by (metis (no_types, lifting) case_prodD)
      qed
      then show ?thesis using later d1 unfolding files_of_def by auto
    qed
    have sg: "segments ?ob = segment_index (lay0 @ [(sid, efs)])" by simp
    have ds: "distinct (map fst ((lay0 @ [(sid, efs)]) @ lay))" using new(3) by simp
    from Cons.IH [OF fo sg ds more] d1 obtain d' segs where o2: "ob2 = ob\<lparr>disk := d', segments := segs\<rparr>"
      "other_files (set (map fst lay)) d1 d'"
      and r2: "r2 = Inl OutboxError \<or> (r2 = Inr (map fst (items lay)) \<and> segs = segment_index (lay0 @ sefs # lay)
           \<and> scanned active torn lay d1 d')"
      and ns2: "io_script d1 = [] \<longrightarrow> r2 \<noteq> Inl OutboxError \<and> io_script d' = []" by (auto simp: s)
    have of': "other_files (set (map fst (sefs # lay))) (disk ob) d'"
      using other_files_step [OF d1(2) o2(2)] by (simp add: s)
    have keep: "lookup_seg sid d' = lookup_seg sid d1" using o2(2) new(1) by (simp add: other_files_def)
    have "scanned active torn (sefs # lay) (disk ob) d'" if sc2: "scanned active torn lay d1 d'"
    proof -
      have "seg_image d' sid efs []" using im1 seg_image_lookup [OF keep] by simp
      moreover have "sid \<noteq> active \<or> torn = [] \<longrightarrow> lookup_seg sid d' = lookup_seg sid (disk ob)"
        using r1 Inr keep by auto
      moreover have "sid = active \<and> torn \<noteq> [] \<longrightarrow>
          (\<exists>f. lookup_seg sid d' = Some f \<and> length (contents f) \<le> synced f)"
        unfolding keep using r1 Inr by auto
      moreover have "lookup_seg x d1 = lookup_seg x (disk ob)" if "(x, es) \<in> set lay" for x es
      proof -
        have "x \<noteq> sid" using that new(1) by force
        then show ?thesis by (rule look1)
      qed
      ultimately show ?thesis using sc2 unfolding scanned_def s by auto
    qed
    moreover have "io_script (disk ob) = [] \<longrightarrow> r2 \<noteq> Inl OutboxError \<and> io_script d' = []"
      using ns ns2 by simp
    ultimately show ?thesis using o2(1) of' r2 res
      by (intro exI [of _ d'] exI [of _ segs]) (cases r2, simp_all add: s fst_seg_items)
  qed
qed

end
