(* ===== verification/OutboxReopen.thy ===== *)
theory OutboxReopen
  imports OutboxRecovery
begin

text \<open>
  Opening a storage directory whose files hold a layout: the queue is the records from the
  checkpoint on, the invariants hold, and nothing but a failing call makes the opening raise.
\<close>

definition storage_image :: "python \<Rightarrow> layout \<Rightarrow> bytes \<Rightarrow> cursor \<Rightarrow> disk \<Rightarrow> bool" where
  "storage_image py lay torn c d \<longleftrightarrow>
     format_good py d \<and> segment_ids d = map fst lay \<and> layout_ok py lay
     \<and> files_of py (fst (last lay)) torn lay d
     \<and> (\<exists>g b. ckpt_file d = Some b \<and> checkpoint_text py g c = Inr b)
     \<and> boundary lay c \<and> distinct (ids_after c lay)
     \<and> consecutive (filter (\<lambda>s. cur_seg c \<le> s) (map fst lay))"

section \<open>The checkpoint is a boundary\<close>

lemma start_boundary: "x \<in> set entries \<Longrightarrow> st_start x \<in> boundaries ob entries (st_seg x)"
  by (auto simp: boundaries_def)

lemma boundary_known:
  assumes ok: "layout_ok py lay" and b: "boundary lay c" and seg: "segments ob = segment_index lay"
  shows "checkpoint_known ob (map fst (items lay)) c"
proof -
  from b obtain efs k where e: "(cur_seg c, efs) \<in> set lay" "k \<le> length efs"
    "cur_off c = SEGMENT_HEADER_SIZE + length (blob (take k efs))" by (auto simp: boundary_def)
  have "cur_off c \<in> boundaries ob (map fst (items lay)) (cur_seg c)"
  proof (cases "k = length efs")
    case True
    have "(cur_seg c, \<lparr>byte_size = seg_size efs, record_count = length efs\<rparr>) \<in> set (segment_index lay)"
      using e(1) by (force simp: segment_index_def)
    then have "cur_off c \<in> set (map (byte_size \<circ> snd) (filter (\<lambda>kv. fst kv = cur_seg c) (segments ob)))"
      using True e(3) seg by (force simp: seg_size_def)
    then show ?thesis by (simp add: boundaries_def)
  next
    case False
    then obtain ef rest where split: "efs = take k efs @ ef # rest"
      using e(2) by (metis id_take_nth_drop le_neq_implies_less)
    obtain en f where ef: "ef = (en, f)" by (cases ef)
    let ?x = "\<lparr>st_id = msg_id en, st_seg = cur_seg c, st_start = cur_off c, st_end = cur_off c + length f\<rparr>"
    have "entries_from (cur_seg c) SEGMENT_HEADER_SIZE efs
        = entries_from (cur_seg c) SEGMENT_HEADER_SIZE (take k efs) @ ?x # entries_from (cur_seg c) (cur_off c + length f) rest"
      by (subst split, subst entries_from_append) (simp add: ef e(3))
    then have "?x \<in> set (entries_from (cur_seg c) SEGMENT_HEADER_SIZE efs)" by simp
    then have "?x \<in> set (map fst (items lay))" using e(1) unfolding fst_items by auto
    from start_boundary [OF this] show ?thesis by simp
  qed
  moreover have "cur_seg c \<in> set (map fst (segments ob))" using e(1) seg by force
  ultimately show ?thesis by (simp add: checkpoint_known_def)
qed

lemma layout_no_gap:
  assumes ok: "layout_ok py lay" and b: "boundary lay c" and seg: "segments ob = segment_index lay"
    and con: "consecutive (filter (\<lambda>s. cur_seg c \<le> s) (map fst lay))"
  shows "no_gap ob c"
proof -
  let ?f = "filter (\<lambda>s. cur_seg c \<le> s) (map fst lay)"
  have "sorted_wrt (<) (map fst lay)" using ok by (simp add: layout_ok_def)
  then have sw: "sorted_wrt (<) ?f" by (rule sorted_wrt_filter)
  then have "sort ?f = ?f" by (simp add: sorted_sort_id strict_sorted_iff)
  moreover have mem: "cur_seg c \<in> set ?f" using b by (force simp: boundary_def)
  moreover have "hd ?f = cur_seg c"
  proof (cases ?f)
    case Nil
    with mem show ?thesis by (metis empty_iff list.set(1))
  next
    case (Cons a r)
    have "a \<in> set ?f" unfolding Cons by simp
    then have "cur_seg c \<le> a" by simp
    moreover have "cur_seg c = a \<or> a < cur_seg c" using mem sw unfolding Cons by auto
    ultimately show ?thesis unfolding Cons by auto
  qed
  moreover have "?f \<noteq> []" using mem by (metis empty_iff list.set(1))
  ultimately show ?thesis using con by (simp add: no_gap_def seg Let_def)
qed

section \<open>Loading\<close>

lemma move_volatile:
  assumes m: "memory_inv py lay ob" and b: "boundary lay v" and le: "cursor_le (volatile_cursor ob) v"
    and a: "after v lay = after (volatile_cursor ob) lay"
  shows "memory_inv py lay (ob\<lparr>volatile_cursor := v\<rparr>)"
proof -
  have "at_or_after v x \<or> st_id x \<in> volatile_completed_ids ob"
    if x: "(x, e) \<in> set (after (checkpoint_cursor ob) lay)" for x e
  proof (cases "st_id x \<in> volatile_completed_ids ob")
    case False
    then have "at_or_after (volatile_cursor ob) x" using m x by (fastforce simp: memory_inv_def)
    then have "(x, e) \<in> set (after v lay)" using x a by (simp add: after_def)
    then show ?thesis by (simp add: after_def)
  qed simp
  then have "\<forall>(x, e) \<in> set (after (checkpoint_cursor ob) lay).
      at_or_after v x \<or> st_id x \<in> volatile_completed_ids ob" by blast
  moreover have "cursor_le (checkpoint_cursor ob) v" using m le cursor_le_trans by (auto simp: memory_inv_def)
  ultimately show ?thesis using m b a by (simp add: memory_inv_def)
qed

lemma validate_format_effect:
  assumes "format_good py (disk ob)"
  shows "reading ob () (validate_format_file py ob)"
proof -
  obtain r0 d0 where c: "os_call (disk ob) = (r0, d0)" by (cases "os_call (disk ob)")
  have q: "quiet (disk ob) d0" "r0 = Inr () \<or> r0 = Inl OSError" using os_call_quiet [OF c] by auto
  have "fmt_file d0 = fmt_file (disk ob)" using quiet_fields [OF q(1)] by simp
  with assms q c on_disk_eq [where m = os_call and ob = ob, OF c] show ?thesis
    by (auto simp: reading_def validate_format_file_def andThen_def format_good_def no_script_calls)
qed

lemma os_call_reading: "reading ob () (on_disk os_call ob)"
proof -
  obtain r0 d0 where c: "os_call (disk ob) = (r0, d0)" by (cases "os_call (disk ob)")
  have q: "quiet (disk ob) d0" "r0 = Inr () \<or> r0 = Inl OSError" using os_call_quiet [OF c] by auto
  with c on_disk_eq [where m = os_call and ob = ob, OF c] show ?thesis
    by (auto simp: reading_def no_script_calls)
qed

lemma normalized_cong:
  "pending a = pending b \<Longrightarrow> segments a = segments b \<Longrightarrow>
     normalized_volatile_cursor_locked a = normalized_volatile_cursor_locked b"
  by (simp add: normalized_volatile_cursor_locked_def cursor_end_def active_id_def active_segment_def
      split: list.splits)

text \<open>The index a successful load builds.\<close>

definition loaded :: "cursor \<Rightarrow> nat \<Rightarrow> stored list \<Rightarrow> outbox \<Rightarrow> outbox" where
  "loaded c g pend ob =
     (let ob' = ob\<lparr>checkpoint_generation := g, checkpoint_needs_rewrite := False, pending := pend,
                   pending_by_id := index_pending pend, checkpoint_cursor := c\<rparr>
      in ob'\<lparr>volatile_cursor := normalized_volatile_cursor_locked ob',
             volatile_completed_ids := {}, data_sync_pending := False\<rparr>)"

lemma read_checkpoint_effect:
  assumes py: "python_ok py" and ck: "ckpt_file (disk ob) = Some b" "checkpoint_text py g c = Inr b"
    and r: "read_checkpoint_conservatively py ob = (r, ob')"
  shows "\<exists>d. quiet (disk ob) d
    \<and> ((r = Inl OutboxError \<and> ob' = ob\<lparr>disk := d\<rparr>)
       \<or> (r = Inr c \<and> ob' = ob\<lparr>disk := d, checkpoint_generation := g, checkpoint_needs_rewrite := False\<rparr>))
    \<and> (io_script (disk ob) = [] \<longrightarrow> r \<noteq> Inl OutboxError)"
proof -
  obtain r0 d0 where c: "os_call (disk ob) = (r0, d0)" by (cases "os_call (disk ob)")
  have q: "quiet (disk ob) d0" "r0 = Inr () \<or> r0 = Inl OSError" using os_call_quiet [OF c] by auto
  have "ckpt_file d0 = Some b" using quiet_fields [OF q(1)] ck(1) by simp
  with r q c parse_checkpoint_text [OF py ck(2)] show ?thesis
    by (intro exI [of _ d0])
      (auto simp: read_checkpoint_conservatively_def andThen_def no_script_calls
        on_disk_eq [where m = os_call and ob = ob, OF c])
qed

lemma loaded_memory:
  assumes ok: "layout_ok py lay" and b: "boundary lay c" and d: "distinct (ids_after c lay)"
    and con: "consecutive (filter (\<lambda>s. cur_seg c \<le> s) (map fst lay))"
    and lim: "0 < segment_max_bytes ob" "0 < segment_max_records ob"
    and seg: "segments ob = segment_index lay"
  shows "memory_inv py lay (loaded c g (map fst (after c lay)) ob)"
    and "contents_of lay (loaded c g (map fst (after c lay)) ob) = map snd (after c lay)"
proof -
  let ?pend = "map fst (after c lay)"
  let ?ob = "ob\<lparr>checkpoint_generation := g, checkpoint_needs_rewrite := False, pending := ?pend,
      pending_by_id := index_pending ?pend, checkpoint_cursor := c\<rparr>"
  let ?ob0 = "?ob\<lparr>volatile_cursor := c, volatile_completed_ids := {}, data_sync_pending := False\<rparr>"
  have "\<forall>(x, e) \<in> set (after c lay). at_or_after c x" by (auto simp: after_def)
  then have m0: "memory_inv py lay ?ob0"
    using ok b d con lim seg by (auto simp: memory_inv_def)
  note nc = nth_cursor [OF m0 normalized_nth]
  let ?v = "normalized_volatile_cursor_locked ?ob0"
  have v: "boundary lay ?v" "cursor_le c ?v" "after ?v lay = after c lay" using nc by auto
  have eq: "loaded c g ?pend ob = ?ob0\<lparr>volatile_cursor := ?v\<rparr>"
    unfolding loaded_def Let_def by (rule outbox.equality) (auto intro: normalized_cong)
  show "memory_inv py lay (loaded c g ?pend ob)"
    unfolding eq by (rule move_volatile [OF m0 v(1)]) (use v in simp_all)
  show "contents_of lay (loaded c g ?pend ob) = map snd (after c lay)"
    unfolding eq by (simp add: contents_of_def v(3))
qed

text \<open>What loading does to the storage.\<close>

definition load_disk :: "layout \<Rightarrow> bytes \<Rightarrow> disk \<Rightarrow> disk \<Rightarrow> bool" where
  "load_disk lay torn d d' \<longleftrightarrow>
     other_files (set (map fst lay)) d d' \<and> scanned (fst (last lay)) torn lay d d'"

lemma other_files_quiet: "quiet d d1 \<Longrightarrow> other_files S d1 d2 \<Longrightarrow> quiet d2 d3 \<Longrightarrow> other_files S d d3"
  using quiet_fields [of d d1] quiet_fields [of d2 d3] quiet_lookup [of d d1] quiet_lookup [of d2 d3]
  by (auto simp: other_files_def)

lemma scanned_quiet:
  "quiet d d1 \<Longrightarrow> scanned a t lay d1 d2 \<Longrightarrow> quiet d2 d3 \<Longrightarrow> scanned a t lay d d3"
  by (simp add: scanned_def seg_image_def quiet_lookup)

lemma files_of_quiet: "quiet d d' \<Longrightarrow> files_of py a t lay d' = files_of py a t lay d"
  by (simp add: files_of_def seg_image_def quiet_lookup)

lemma load_effect:
  assumes py: "python_ok py" and im: "storage_image py lay torn c (disk ob)"
    and lim: "0 < segment_max_bytes ob" "0 < segment_max_records ob" and s0: "segments ob = []"
    and r: "load_segmented_storage py ob = (r, ob')"
  shows "(r = Inl OutboxError
      \<or> (r = Inr () \<and> (\<exists>g d. ob' = loaded c g (map fst (after c lay))
              (ob\<lparr>disk := d, segments := segment_index lay\<rparr>)
            \<and> load_disk lay torn (disk ob) d)))
    \<and> (io_script (disk ob) = [] \<longrightarrow> r = Inr () \<and> io_script (disk ob') = [])"
proof -
  from im have fmt: "format_good py (disk ob)" and ids: "segment_ids (disk ob) = map fst lay"
    and ok: "layout_ok py lay" and fo: "files_of py (fst (last lay)) torn lay (disk ob)"
    and b: "boundary lay c" and di: "distinct (ids_after c lay)"
    and con: "consecutive (filter (\<lambda>s. cur_seg c \<le> s) (map fst lay))"
    by (auto simp: storage_image_def)
  from im obtain g t where ck: "ckpt_file (disk ob) = Some t" "checkpoint_text py g c = Inr t"
    by (auto simp: storage_image_def)
  obtain r0 ob0 where v: "validate_format_file py ob = (r0, ob0)" by (cases "validate_format_file py ob")
  from validate_format_effect [OF fmt] v obtain d0 where d0: "quiet (disk ob) d0" "ob0 = ob\<lparr>disk := d0\<rparr>"
    and r0: "r0 = Inr () \<or> r0 = Inl OutboxError" "io_script (disk ob) = [] \<longrightarrow> r0 = Inr ()"
    by (auto simp: reading_def)
  obtain r1 ob1 where o: "on_disk os_call ob0 = (r1, ob1)" by (cases "on_disk os_call ob0")
  from os_call_reading [of ob0] o obtain d1 where d1: "quiet d0 d1" "ob1 = ob\<lparr>disk := d1\<rparr>"
    and r1: "r1 = Inr () \<or> r1 = Inl OutboxError" "io_script d0 = [] \<longrightarrow> r1 = Inr ()"
    by (auto simp: reading_def d0(2))
  have q1: "quiet (disk ob) d1" using quiet_trans [OF d0(1) d1(1)] .
  have ns1: "io_script (disk ob) = [] \<Longrightarrow> io_script d1 = [] \<and> r0 = Inr () \<and> r1 = Inr ()"
    using quiet_no_calls [OF d0(1)] quiet_no_calls [OF d1(1)] r0 r1 by auto
  have ids1: "segment_ids d1 = map fst lay" using ids quiet_fields(3) [OF q1] by (simp add: segment_ids_def)
  have range: "\<not> list_ex (\<lambda>sid. sid = 0 \<or> sid > MAX_SEGMENT_ID) (map fst lay)" "map fst lay \<noteq> []"
    using ok by (auto simp: layout_ok_def list_ex_iff)
  have last: "last (map fst lay) = fst (last lay)" using range(2) by (simp add: last_map)
  obtain r2 ob2 where sc: "scan_all py (fst (last lay)) (map fst lay) ob1 = (r2, ob2)"
    by (cases "scan_all py (fst (last lay)) (map fst lay) ob1")
  have f1: "files_of py (fst (last lay)) torn lay (disk ob1)" using fo files_of_quiet [OF q1] d1(2) by simp
  have ds: "distinct (map fst ([] @ lay))" using ok by (simp add: layout_ok_def strict_sorted_iff)
  from scan_all_effect [OF py f1 _ ds sc] s0 d1(2) obtain d2 segs where
    o2: "ob2 = ob\<lparr>disk := d2, segments := segs\<rparr>" "other_files (set (map fst lay)) d1 d2"
    and r2: "r2 = Inl OutboxError \<or> (r2 = Inr (map fst (items lay)) \<and> segs = segment_index lay
           \<and> scanned (fst (last lay)) torn lay d1 d2)"
    and ns2: "io_script d1 = [] \<longrightarrow> r2 \<noteq> Inl OutboxError \<and> io_script d2 = []"
    by (auto simp: segment_index_def)
  show ?thesis
  proof (cases "r0 = Inr () \<and> r1 = Inr () \<and> r2 \<noteq> Inl OutboxError")
    case False
    then have "r = Inl OutboxError"
      using r v o sc r0 r1 ids1 range last d1(2)
      by (auto simp: load_segmented_storage_def andThen_def Let_def)
    then show ?thesis using False ns1 ns2 by auto
  next
    case True
    then have r2': "r2 = Inr (map fst (items lay))" "segs = segment_index lay"
      "scanned (fst (last lay)) torn lay d1 d2" using r2 by auto
    obtain r3 ob3 where rc: "read_checkpoint_conservatively py ob2 = (r3, ob3)"
      by (cases "read_checkpoint_conservatively py ob2")
    have ck2: "ckpt_file (disk ob2) = Some t"
      using ck(1) o2 quiet_fields(2) [OF q1] by (simp add: other_files_def)
    from read_checkpoint_effect [OF py ck2 ck(2) rc] obtain d3 where q3: "quiet d2 d3"
      and r3: "(r3 = Inl OutboxError \<and> ob3 = ob2\<lparr>disk := d3\<rparr>)
       \<or> (r3 = Inr c \<and> ob3 = ob2\<lparr>disk := d3, checkpoint_generation := g, checkpoint_needs_rewrite := False\<rparr>)"
      and ns3: "io_script d2 = [] \<longrightarrow> r3 \<noteq> Inl OutboxError" by (auto simp: o2(1))
    have tail: "(r, ob') = (case r3 of Inl e \<Rightarrow> (Inl e, ob3)
        | Inr rd \<Rightarrow> andThen (if checkpoint_known ob3 (map fst (items lay)) rd then ret rd
                    else replay_from_earliest)
             (adopt_pending (map fst (items lay)))
             ob3)"
      using r v o sc True ids1 range last d1(2) r2'(1) rc
      by (cases r3) (simp_all add: load_segmented_storage_def andThen_def Let_def)
    show ?thesis
    proof (cases "r3 = Inl OutboxError")
      case True
      with tail have "r = Inl OutboxError" by simp
      then show ?thesis using ns1 ns2 ns3 True by auto
    next
      case False
      with r3 have r3': "r3 = Inr c" "ob3 = ob2\<lparr>disk := d3, checkpoint_generation := g,
          checkpoint_needs_rewrite := False\<rparr>" by auto
      have seg3: "segments ob3 = segment_index lay" by (simp add: r3' o2 r2')
      have pend: "filter (at_or_after c) (map fst (items lay)) = map fst (after c lay)"
        by (simp add: after_def filter_map)
      have "distinct (map st_id (map fst (after c lay)))" using di by (simp add: ids_after_def)
      moreover have ob3: "ob3 = ob\<lparr>disk := d3, segments := segment_index lay, checkpoint_generation := g,
          checkpoint_needs_rewrite := False\<rparr>" by (simp add: r3' o2 r2')
      ultimately have "(r, ob') = (Inr (), loaded c g (map fst (after c lay))
          (ob\<lparr>disk := d3, segments := segment_index lay\<rparr>))"
        using tail r3'(1) boundary_known [OF ok b seg3] layout_no_gap [OF ok b seg3 con] pend
        by (simp add: andThen_def Let_def modify_def adopt_pending_def loaded_def)
      then have "r = Inr ()" "ob' = loaded c g (map fst (after c lay))
          (ob\<lparr>disk := d3, segments := segment_index lay\<rparr>)" by simp_all
      moreover have "load_disk lay torn (disk ob) d3"
        unfolding load_disk_def
        using other_files_quiet [OF q1 o2(2) q3] scanned_quiet [OF q1 r2'(3) q3] by simp
      moreover have "io_script (disk ob) = [] \<longrightarrow> io_script d3 = []"
        using ns1 ns2 quiet_no_calls [OF q3] by auto
      ultimately show ?thesis by (auto simp: loaded_def Let_def)
    qed
  qed
qed

end
