(* ===== verification/OutboxRestart.thy ===== *)
theory OutboxRestart
  imports OutboxReopen
begin

text \<open>
  Opening a storage directory as a whole: load, establish the data boundary of the active
  segment, sync the directories. The opened Outbox satisfies the invariants, holds the records
  from the checkpoint on, and has nothing outstanding.
\<close>

definition image_durable :: "layout \<Rightarrow> cursor \<Rightarrow> disk \<Rightarrow> bool" where
  "image_durable lay c d \<longleftrightarrow>
     IoUnsupported \<notin> set (io_script d)
     \<and> (\<forall>(sid, efs) \<in> set (butlast lay). \<exists>f. lookup_seg sid d = Some f \<and> length (contents f) \<le> synced f)
     \<and> (\<exists>f. lookup_seg (cur_seg c) d = Some f \<and> cur_off c \<le> synced f)"

lemma fsync_ancestors_effect:
  "fsync_ancestors n d = (r, d') \<Longrightarrow>
     quiet d d' \<and> (r = Inr () \<or> r = Inl OSError) \<and> (io_script d = [] \<longrightarrow> r = Inr ())"
proof (induction n arbitrary: d)
  case 0
  then show ?case by auto
next
  case (Suc n)
  obtain i d1 where i: "next_io d = (i, d1)" by (cases "next_io d")
  note q = next_io_quiet [OF i]
  show ?case
  proof (cases "\<exists>k. i = IoErr k")
    case True
    with Suc.prems i q show ?thesis
      by (auto simp: andThen_def fsync_ancestor_def next_io_def split: list.splits)
  next
    case False
    then have "fsync_ancestors n d1 = (r, d')"
      using Suc.prems i by (auto simp: andThen_def fsync_ancestor_def split: io.splits)
    with Suc.IH quiet_trans [OF q] i show ?thesis by (auto simp: no_script_calls)
  qed
qed

lemma scanned_holds:
  assumes "scanned a t lay d d'" and "(sid, efs) \<in> set lay"
  obtains f where "lookup_seg sid d' = Some f" "contents f = encode_segment_header sid @ blob efs"
    "SEGMENT_HEADER_SIZE \<le> synced f" "synced f \<le> length (contents f)"
  using assms by (auto simp: scanned_def seg_image_def)

lemma scanned_disk_inv: "scanned a t lay d d' \<Longrightarrow> disk_inv lay d'"
  unfolding disk_inv_def seg_holds_def
  by (auto elim!: scanned_holds simp: seg_size_def)

lemma segment_ids_keys:
  assumes "segment_ids d = map fst lay" and "layout_ok py lay"
  shows "distinct (map fst (seg_files d))" "set (map fst (seg_files d)) = set (map fst lay)"
proof -
  have "sorted_wrt (<) (sort (map fst (seg_files d)))"
    using assms by (simp add: segment_ids_def layout_ok_def)
  then show "distinct (map fst (seg_files d))" by (simp add: strict_sorted_iff)
  show "set (map fst (seg_files d)) = set (map fst lay)"
    using assms(1) by (metis segment_ids_def set_sort)
qed

text \<open>The scan never lowers what is on stable storage before the torn tail.\<close>

lemma scanned_synced:
  assumes sc: "scanned (fst (last lay)) torn lay d d'" and ok: "layout_ok py lay" and b: "boundary lay c"
    and f: "lookup_seg (cur_seg c) d = Some f" "cur_off c \<le> synced f"
  shows "\<exists>f'. lookup_seg (cur_seg c) d' = Some f' \<and> cur_off c \<le> synced f'"
proof -
  from boundary_le_size [OF b] obtain efs where e: "(cur_seg c, efs) \<in> set lay" "cur_off c \<le> seg_size efs"
    by blast
  from sc e(1) obtain f' where f': "lookup_seg (cur_seg c) d' = Some f'"
    "contents f' = encode_segment_header (cur_seg c) @ blob efs" by (metis scanned_holds)
  show ?thesis
  proof (cases "cur_seg c \<noteq> fst (last lay) \<or> torn = []")
    case True
    then have "lookup_seg (cur_seg c) d' = lookup_seg (cur_seg c) d"
      using sc e(1) by (fastforce simp: scanned_def)
    then show ?thesis using f by auto
  next
    case False
    then have "\<exists>f. lookup_seg (cur_seg c) d' = Some f \<and> length (contents f) \<le> synced f"
      using sc e(1) by (fastforce simp: scanned_def)
    with f' have "length (contents f') \<le> synced f'" by auto
    with f' e(2) show ?thesis by (intro exI [of _ f']) (simp add: seg_size_def)
  qed
qed

text \<open>What is durable once the active segment and the directory have been synced.\<close>

lemma opened_durable:
  assumes im: "storage_image py lay torn c d" and du: "image_durable lay c d"
    and ld: "load_disk lay torn d d1" and sm: "synced_more d1 d3"
    and act: "\<exists>f. lookup_seg (fst (last lay)) d3 = Some f \<and> length (contents f) \<le> synced f"
    and ob: "disk ob = settle d4" "quiet d3 d4" "checkpoint_cursor ob = c" "cursor_le c (volatile_cursor ob)"
  shows "durable_inv py lay ob"
proof -
  from im have ok: "layout_ok py lay" and b: "boundary lay c" and fg: "format_good py d"
    and ids: "segment_ids d = map fst lay"
    and ck: "\<exists>g t. ckpt_file d = Some t \<and> checkpoint_text py g c = Inr t"
    by (auto simp: storage_image_def)
  from ld have of: "other_files (set (map fst lay)) d d1" and sc: "scanned (fst (last lay)) torn lay d d1"
    by (auto simp: load_disk_def)
  have l4: "lookup_seg s (disk ob) = lookup_seg s d3" for s
    by (simp add: ob(1) settle_def lookup_seg_def quiet_fields(3) [OF ob(2)])
  have keys: "map fst (seg_files (disk ob)) = map fst (seg_files d)"
    using of sm by (simp add: ob(1) settle_def quiet_fields(3) [OF ob(2)] other_files_def synced_more_def)
  have files: "fmt_file (disk ob) = fmt_file d" "ckpt_file (disk ob) = ckpt_file d"
    using of sm by (simp_all add: ob(1) settle_def quiet_fields(1,2) [OF ob(2)] other_files_def synced_more_def)
  have script: "IoUnsupported \<notin> set (io_script (disk ob))"
    using du of sm quiet_fields(7) [OF ob(2)]
    by (auto simp: ob(1) settle_def image_durable_def other_files_def synced_more_def)
  have exact: "seg_exact (disk ob) sid efs full" if s: "(sid, efs) \<in> set lay" for sid efs full
  proof -
    from scanned_holds [OF sc s] obtain f1 where f1: "lookup_seg sid d1 = Some f1"
      "contents f1 = encode_segment_header sid @ blob efs" "SEGMENT_HEADER_SIZE \<le> synced f1" by metis
    from synced_moreD [OF sm f1(1)] obtain f3 where f3: "lookup_seg sid d3 = Some f3"
      "contents f3 = contents f1" "synced f1 \<le> synced f3" by metis
    have "length (contents f3) \<le> synced f3"
    proof (cases "sid = fst (last lay)")
      case True
      with act f3(1) show ?thesis by auto
    next
      case False
      have "(sid, efs) \<in> set (butlast lay)"
        using s ok False by (metis append_butlast_last_id fst_conv layout_ok_def rotate1.simps(2) set_ConsD set_rotate1)
      then obtain f where f: "lookup_seg sid d = Some f" "length (contents f) \<le> synced f"
        using du by (fastforce simp: image_durable_def)
      moreover have "lookup_seg sid d1 = lookup_seg sid d"
        using sc s False by (fastforce simp: scanned_def)
      ultimately have "f = f1" using f1(1) by simp
      with f f3 show ?thesis by simp
    qed
    with f1 f3 show ?thesis by (auto simp: seg_exact_def l4)
  qed
  have ckg: "checkpoint_good py lay c (volatile_cursor ob) (disk ob) (ckpt_file (disk ob))"
  proof -
    from du obtain f where "lookup_seg (cur_seg c) d = Some f" "cur_off c \<le> synced f"
      by (auto simp: image_durable_def)
    from scanned_synced [OF sc ok b this] obtain f1 where
      f1: "lookup_seg (cur_seg c) d1 = Some f1" "cur_off c \<le> synced f1" by blast
    from synced_moreD [OF sm f1(1)] obtain f3 where "lookup_seg (cur_seg c) d3 = Some f3"
      "synced f1 \<le> synced f3" by metis
    with f1 ck b ob(4) show ?thesis by (fastforce simp: checkpoint_good_def files l4)
  qed
  have settled: "segs_settled (disk ob) = map fst (seg_files (disk ob))" "seg_ghosts (disk ob) = []"
    "ckpt_maybe (disk ob) = [ckpt_file (disk ob)]" by (simp_all add: ob(1) settle_def)
  have fg': "format_good py (disk ob)" using fg by (simp add: format_good_def files)
  show ?thesis
    unfolding durable_inv_def
    using script fg' segment_ids_keys [OF ids ok] exact ckg ob(3) by (auto simp: keys settled)
qed


section \<open>Opening\<close>

definition opened :: "python \<Rightarrow> layout \<Rightarrow> cursor \<Rightarrow> outbox \<Rightarrow> bool" where
  "opened py lay c ob \<longleftrightarrow>
     outbox_inv py lay ob \<and> contents_of lay ob = map snd (after c lay)
     \<and> \<not> data_sync_pending ob \<and> volatile_completed_ids ob = {} \<and> checkpoint_cursor ob = c"

lemma opened_disk:
  "opened py lay c ob \<Longrightarrow> seg_files d = seg_files (disk ob) \<Longrightarrow> opened py lay c (ob\<lparr>disk := d\<rparr>)"
  by (auto simp: opened_def outbox_inv_def disk_inv_def seg_holds_def lookup_seg_def contents_of_def)

theorem open_storage_effect:
  assumes py: "python_ok py" and im: "storage_image py lay torn c (disk ob)"
    and lim: "0 < segment_max_bytes ob" "0 < segment_max_records ob" and s0: "segments ob = []"
    and r: "open_storage py depth ob = (r, ob')"
  shows "(r = Inl OutboxError
      \<or> (r = Inr () \<and> opened py lay c ob' \<and> (image_durable lay c (disk ob) \<longrightarrow> durable_inv py lay ob')))
    \<and> (io_script (disk ob) = [] \<longrightarrow> r = Inr ())"
proof -
  from im have ok: "layout_ok py lay" and b: "boundary lay c" and di: "distinct (ids_after c lay)"
    and con: "consecutive (filter (\<lambda>s. cur_seg c \<le> s) (map fst lay))" by (auto simp: storage_image_def)
  obtain r1 ob1 where ld: "load_segmented_storage py ob = (r1, ob1)" by (cases "load_segmented_storage py ob")
  note le = load_effect [OF py im lim s0 ld]
  show ?thesis
  proof (cases "r1 = Inr ()")
    case False
    with le have "r1 = Inl OutboxError" by blast
    with r ld le show ?thesis by (auto simp: open_storage_def andThen_def)
  next
    case True
    with le obtain g d1 where ob1: "ob1 = loaded c g (map fst (after c lay)) (ob\<lparr>disk := d1, segments := segment_index lay\<rparr>)"
      and ldk: "load_disk lay torn (disk ob) d1" by auto
    have n1: "io_script (disk ob) = [] \<Longrightarrow> io_script d1 = []" using le ob1 by (simp add: loaded_def Let_def)
    let ?ob0 = "ob\<lparr>disk := d1, segments := segment_index lay\<rparr>"
    have m1: "memory_inv py lay ob1" "contents_of lay ob1 = map snd (after c lay)"
      unfolding ob1 using loaded_memory [OF ok b di con, of ?ob0 g] lim by simp_all
    define ob2 where "ob2 = ob1\<lparr>data_sync_pending := record_count (active_segment ob1) > 0\<rparr>"
    have m2: "memory_inv py lay ob2" using m1(1) by (simp add: ob2_def memory_inv_def)
    have f2: "disk ob2 = d1" "volatile_completed_ids ob2 = {}" "checkpoint_cursor ob2 = c"
      "contents_of lay ob2 = map snd (after c lay)"
      using m1(2) by (simp_all add: ob2_def ob1 loaded_def Let_def contents_of_def)
    have sc: "scanned (fst (last lay)) torn lay (disk ob) d1" using ldk by (simp add: load_disk_def)
    have inv2: "outbox_inv py lay ob2" using m2 scanned_disk_inv [OF sc] f2(1) by (simp add: outbox_inv_def)
    obtain r3 ob3 where sy: "sync_data_locked ob2 = (r3, ob3)" by (cases "sync_data_locked ob2")
    from sync_effect [OF inv2 sy] have so: "sync_only ob2 ob3" "r3 = Inr () \<or> r3 = Inl OutboxError"
      "r3 = Inr () \<longrightarrow> \<not> data_sync_pending ob3"
      "r3 = Inr () \<and> data_sync_pending ob2 \<longrightarrow>
         (\<exists>f. lookup_seg (active_id ob2) (disk ob3) = Some f \<and> length (contents f) \<le> synced f)" by auto
    have unf: "(r, ob') = (case r3 of Inl e \<Rightarrow> (Inl e, ob3)
        | Inr _ \<Rightarrow> andThen (on_disk fsync_directory) (\<lambda>_. on_disk (fsync_ancestors depth)) ob3)"
      using r ld True sy by (simp add: open_storage_def andThen_def modify_def ob2_def split: sum.splits)
    have n3: "io_script (disk ob) = [] \<Longrightarrow> r3 = Inr () \<and> io_script (disk ob3) = []"
      using sync_no_failure [OF inv2 _ sy] n1 f2(1) by simp
    show ?thesis
    proof (cases "r3 = Inr ()")
      case False
      with so(2) have "r3 = Inl OutboxError" by blast
      with unf n3 show ?thesis by auto
    next
      case r3: True
      have op3: "opened py lay c ob3"
        using sync_only_inv [OF inv2 so(1)] sync_only_contents [OF so(1), of lay] so(1,3) r3 f2
        by (auto simp: opened_def sync_only_def)
      obtain r4 d4 where fd: "fsync_directory (disk ob3) = (r4, d4)" by (cases "fsync_directory (disk ob3)")
      from fsync_directory_cases [OF fd] obtain d where d: "quiet (disk ob3) d"
        "(r4 = Inl OSError \<and> d4 = d) \<or> (r4 = Inr () \<and> d4 = settle d)
         \<or> (r4 = Inr () \<and> d4 = d \<and> IoUnsupported \<in> set (io_script (disk ob3)))" .
      have n4: "io_script (disk ob3) = [] \<Longrightarrow> r4 = Inr () \<and> io_script d4 = []"
        using fd by (auto simp: fsync_directory_def no_script_calls settle_def)
      obtain r5 d5 where fa: "fsync_ancestors depth d4 = (r5, d5)" by (cases "fsync_ancestors depth d4")
      note fae = fsync_ancestors_effect [OF fa]
      show ?thesis
      proof (cases "r4 = Inr () \<and> r5 = Inr ()")
        case False
        then have "r = Inl OutboxError" using unf r3 fd fa d(2) fae by (auto simp: andThen_def on_disk_def)
        with False n3 n4 fae show ?thesis by auto
      next
        case True
        then have res: "r = Inr ()" "ob' = ob3\<lparr>disk := d5\<rparr>"
          using unf r3 fd fa by (auto simp: andThen_def on_disk_def)
        have q5: "quiet d4 d5" using fae by simp
        have "seg_files d4 = seg_files (disk ob3)"
          using d(2) quiet_fields(3) [OF d(1)] by (auto simp: settle_def)
        then have op5: "opened py lay c ob'"
          unfolding res(2) by (intro opened_disk [OF op3]) (simp add: quiet_fields(3) [OF q5])
        have "durable_inv py lay ob'" if du: "image_durable lay c (disk ob)"
        proof -
          have "IoUnsupported \<notin> set (io_script (disk ob3))"
            using du so(1) ldk f2(1)
            by (auto simp: image_durable_def sync_only_def synced_more_def load_disk_def other_files_def)
          with d(2) True have d4: "d4 = settle d" by auto
          have sm: "synced_more d1 (disk ob3)" using so(1) f2(1) by (auto simp: sync_only_def)
          have act: "\<exists>f. lookup_seg (fst (last lay)) (disk ob3) = Some f \<and> length (contents f) \<le> synced f"
          proof (cases "data_sync_pending ob2")
            case True
            with so(4) r3 active_facts(1) [OF m2] show ?thesis by simp
          next
            case False
            have em: "snd (last lay) = []"
              using False active_facts(2) [OF m1(1)] by (simp add: ob2_def)
            have "(fst (last lay), snd (last lay)) \<in> set lay" using ok by (simp add: layout_ok_def)
            from scanned_holds [OF sc this] obtain f1 where f1: "lookup_seg (fst (last lay)) d1 = Some f1"
              "contents f1 = encode_segment_header (fst (last lay)) @ blob (snd (last lay))"
              "SEGMENT_HEADER_SIZE \<le> synced f1" by metis
            from synced_moreD [OF sm f1(1)] obtain f3 where "lookup_seg (fst (last lay)) (disk ob3) = Some f3"
              "contents f3 = contents f1" "synced f1 \<le> synced f3" by metis
            with f1(2,3) em show ?thesis by (intro exI [of _ f3]) simp
          qed
          have v3: "cursor_le c (volatile_cursor ob3)" "checkpoint_cursor ob3 = c"
            using op3 by (auto simp: opened_def outbox_inv_def memory_inv_def)
          have "durable_inv py lay (ob3\<lparr>disk := d4\<rparr>)"
            by (rule opened_durable [OF im du ldk sm act]) (use d4 d(1) v3 in simp_all)
          from durable_quiet [OF this] q5 show ?thesis by (simp add: res(2))
        qed
        with op5 res(1) show ?thesis by blast
      qed
    qed
  qed
qed

end
