(* ===== verification/OutboxCrash.thy ===== *)
theory OutboxCrash
  imports OutboxRestart
begin

text \<open>
  Crashes. The process and the machine stop; what is found again is any state the storage model
  allows: each segment file cut to a length not below what was on stable storage, the checkpoint
  of any replacement since the last directory barrier, and unlinked segments possibly back.
\<close>

definition survives :: "seg_file \<Rightarrow> seg_file \<Rightarrow> bool" where
  "survives f f' \<longleftrightarrow>
     (\<exists>n. synced f \<le> n \<and> n \<le> length (contents f) \<and> f' = \<lparr>contents = take n (contents f), synced = n\<rparr>)"

definition crash_disk :: "disk \<Rightarrow> disk \<Rightarrow> bool" where
  "crash_disk d d' \<longleftrightarrow>
     fmt_file d' = fmt_file d \<and> ckpt_file d' \<in> checkpoints d \<and> distinct (map fst (seg_files d'))
     \<and> (\<forall>sid f'. lookup_seg sid d' = Some f' \<longrightarrow>
          (\<exists>f. (lookup_seg sid d = Some f \<or> (sid, f) \<in> set (seg_ghosts d)) \<and> survives f f'))
     \<and> (\<forall>sid \<in> set (segs_settled d). lookup_seg sid d \<noteq> None \<longrightarrow> lookup_seg sid d' \<noteq> None)"

section \<open>A segment cut short\<close>

lemma cut_frames:
  "frames_ok py efs \<Longrightarrow> m \<le> length (blob efs) \<Longrightarrow>
     \<exists>k torn. k \<le> length efs \<and> take m (blob efs) = blob (take k efs) @ torn \<and> torn_tail py torn
       \<and> length (blob (take k efs)) \<le> m
       \<and> (k < length efs \<longrightarrow> m < length (blob (take (Suc k) efs)))
       \<and> (k = length efs \<longrightarrow> torn = [])"
proof (induction efs arbitrary: m)
  case Nil
  then show ?case by (simp add: torn_tail_def)
next
  case (Cons ef efs)
  obtain e f where ef: "ef = (e, f)" by (cases ef)
  have fr: "frame_of py e f" "frames_ok py efs" using Cons.prems(1) ef by simp_all
  show ?case
  proof (cases "m < length f")
    case True
    have "torn_tail py (take m f)"
    proof (cases "m = 0")
      case False
      then show ?thesis using True fr(1) unfolding torn_tail_def by blast
    qed (simp add: torn_tail_def)
    with True show ?thesis
      by (intro exI [of _ 0] exI [of _ "take m f"]) (simp add: ef)
  next
    case False
    with Cons.prems(2) ef have "m - length f \<le> length (blob efs)" by simp
    from Cons.IH [OF fr(2) this] obtain k torn where
      "k \<le> length efs" "take (m - length f) (blob efs) = blob (take k efs) @ torn" "torn_tail py torn"
      "length (blob (take k efs)) \<le> m - length f"
      "k < length efs \<longrightarrow> m - length f < length (blob (take (Suc k) efs))"
      "k = length efs \<longrightarrow> torn = []" by blast
    with False show ?thesis
      by (intro exI [of _ "Suc k"] exI [of _ torn]) (auto simp: ef)
  qed
qed

lemma blob_take_mono: "j \<le> k \<Longrightarrow> length (blob (take j efs)) \<le> length (blob (take k efs))"
proof -
  assume "j \<le> k"
  then have "take j efs = take j (take k efs)" by simp
  then show ?thesis using blob_take_le by metis
qed

text \<open>The layout with its last segment cut to its first \<open>k\<close> records.\<close>

definition cut_last :: "nat \<Rightarrow> layout \<Rightarrow> layout" where
  "cut_last k lay = butlast lay @ [(fst (last lay), take k (snd (last lay)))]"

lemma items_cut:
  assumes "lay \<noteq> []"
  shows "\<exists>n. items (cut_last k lay) = take n (items lay)"
    and "length (snd (last lay)) \<le> k \<Longrightarrow> items (cut_last k lay) = items lay"
proof -
  let ?efs = "snd (last lay)"
  have lay: "lay = butlast lay @ [(fst (last lay), ?efs)]" using assms by simp
  have il: "items lay = items (butlast lay) @ seg_items (fst (last lay)) SEGMENT_HEADER_SIZE ?efs"
    by (subst lay) (simp del: append_butlast_last_id prod.collapse)
  have "seg_items s off (take k efs) = take (min k (length efs)) (seg_items s off efs)" for s off efs
    using seg_items_append [of s off "take k efs" "drop k efs"] by simp
  then have "items (cut_last k lay)
      = items (butlast lay) @ take (min k (length ?efs)) (seg_items (fst (last lay)) SEGMENT_HEADER_SIZE ?efs)"
    by (simp add: cut_last_def)
  also have "\<dots> = take (length (items (butlast lay)) + min k (length ?efs)) (items lay)"
    by (simp add: il)
  finally show "\<exists>n. items (cut_last k lay) = take n (items lay)" by blast
  show "items (cut_last k lay) = items lay" if "length ?efs \<le> k"
    using that by (simp add: cut_last_def il del: prod.collapse)
qed

lemma after_cut:
  assumes "lay \<noteq> []"
  shows "\<exists>n. after c (cut_last k lay) = take n (after c lay)"
    and "length (snd (last lay)) \<le> k \<Longrightarrow> after c (cut_last k lay) = after c lay"
proof -
  from items_cut(1) [OF assms, of k] obtain n where n: "items (cut_last k lay) = take n (items lay)" ..
  have "after c lay = after c (cut_last k lay) @ filter (at_or_after c \<circ> fst) (drop n (items lay))"
    unfolding after_def n by (metis append_take_drop_id filter_append)
  then show "\<exists>n. after c (cut_last k lay) = take n (after c lay)"
    by (intro exI [of _ "length (after c (cut_last k lay))"]) simp
  show "after c (cut_last k lay) = after c lay" if "length (snd (last lay)) \<le> k"
    using items_cut(2) [OF assms that] by (simp add: after_def)
qed

text \<open>Segments before the cursor's do not count.\<close>

lemma after_relevant:
  "after c lay = after c (filter (\<lambda>p. cur_seg c \<le> fst p) lay)"
proof (induction lay)
  case (Cons p lay)
  obtain sid efs where p: "p = (sid, efs)" by (cases p)
  have "filter (at_or_after c \<circ> fst) (seg_items sid SEGMENT_HEADER_SIZE efs) = []" if "sid < cur_seg c"
    using that seg_itemsD by (fastforce simp: filter_empty_conv at_or_after_def)
  with Cons p show ?case by (auto simp: after_def)
qed (simp add: after_def)

lemma strict_sorted_eq:
  "sorted_wrt (<) xs \<Longrightarrow> sorted_wrt (<) ys \<Longrightarrow> set xs = set (ys :: nat list) \<Longrightarrow> xs = ys"
  by (simp add: sorted_distinct_set_unique strict_sorted_iff)


section \<open>What a crash leaves is a storage image\<close>

lemma crash_lookup:
  assumes du: "durable_inv py lay ob" and cr: "crash_disk (disk ob) d'"
    and l: "lookup_seg sid d' = Some f'"
  shows "(\<exists>efs f n. (sid, efs) \<in> set lay \<and> lookup_seg sid (disk ob) = Some f
           \<and> contents f = encode_segment_header sid @ blob efs \<and> SEGMENT_HEADER_SIZE \<le> synced f
           \<and> synced f \<le> n \<and> n \<le> length (contents f) \<and> f' = \<lparr>contents = take n (contents f), synced = n\<rparr>
           \<and> (sid \<noteq> fst (last lay) \<or> \<not> data_sync_pending ob \<longrightarrow> n = length (contents f)))
       \<or> (\<exists>efs. sid \<notin> set (map fst lay) \<and> 0 < sid \<and> sid < cur_seg (checkpoint_cursor ob) \<and> sid \<le> MAX_SEGMENT_ID
           \<and> frames_ok py efs
           \<and> f' = \<lparr>contents = encode_segment_header sid @ blob efs, synced = seg_size efs\<rparr>)"
proof -
  from cr l obtain f where f: "lookup_seg sid (disk ob) = Some f \<or> (sid, f) \<in> set (seg_ghosts (disk ob))"
    "survives f f'" by (fastforce simp: crash_disk_def)
  from f(2) obtain n where n: "synced f \<le> n" "n \<le> length (contents f)"
    "f' = \<lparr>contents = take n (contents f), synced = n\<rparr>" by (auto simp: survives_def)
  from f(1) show ?thesis
  proof
    assume a: "lookup_seg sid (disk ob) = Some f"
    then have "sid \<in> set (map fst lay)" using lookup_seg_key [OF a] du by (simp add: durable_inv_def)
    then obtain efs where e: "(sid, efs) \<in> set lay" by auto
    then have "seg_exact (disk ob) sid efs (sid \<noteq> fst (last lay) \<or> \<not> data_sync_pending ob)"
      using du by (fastforce simp: durable_inv_def)
    with a e n show ?thesis by (intro disjI1) (auto simp: seg_exact_def)
  next
    assume "(sid, f) \<in> set (seg_ghosts (disk ob))"
    with du have "ghost_good py lay (checkpoint_cursor ob) (sid, f)" by (auto simp: durable_inv_def)
    with n show ?thesis by (intro disjI2) (auto simp: ghost_good_def seg_size_def)
  qed
qed

lemma crash_live:
  assumes inv: "outbox_inv py lay ob" and du: "durable_inv py lay ob" and cr: "crash_disk (disk ob) d'"
    and e: "(sid, efs) \<in> set lay"
  obtains f n where "lookup_seg sid (disk ob) = Some f" "contents f = encode_segment_header sid @ blob efs"
    "SEGMENT_HEADER_SIZE \<le> synced f" "synced f \<le> n" "n \<le> length (contents f)"
    "lookup_seg sid d' = Some \<lparr>contents = take n (contents f), synced = n\<rparr>"
    "sid \<noteq> fst (last lay) \<or> \<not> data_sync_pending ob \<longrightarrow> n = length (contents f)"
proof -
  have ok: "layout_ok py lay" using inv by (simp add: outbox_inv_def memory_inv_def)
  have k: "sid \<in> set (map fst lay)" using e by force
  from du e have "lookup_seg sid (disk ob) \<noteq> None" by (fastforce simp: durable_inv_def seg_exact_def)
  moreover have "sid \<in> set (segs_settled (disk ob))" using du k by (auto simp: durable_inv_def)
  ultimately obtain f' where l: "lookup_seg sid d' = Some f'" using cr unfolding crash_disk_def by blast
  from crash_lookup [OF du cr l] k obtain efs' f n where *: "(sid, efs') \<in> set lay"
    "lookup_seg sid (disk ob) = Some f" "contents f = encode_segment_header sid @ blob efs'"
    "SEGMENT_HEADER_SIZE \<le> synced f" "synced f \<le> n" "n \<le> length (contents f)"
    "f' = \<lparr>contents = take n (contents f), synced = n\<rparr>"
    "sid \<noteq> fst (last lay) \<or> \<not> data_sync_pending ob \<longrightarrow> n = length (contents f)" by blast
  have "efs' = efs" by (rule layout_unique [OF ok *(1) e])
  with * l show ?thesis by (intro that [of f n]) simp_all
qed

lemma crash_ghost:
  assumes "durable_inv py lay ob" and "crash_disk (disk ob) d'"
    and "lookup_seg sid d' = Some f'" and "sid \<notin> set (map fst lay)"
  shows "0 < sid" "sid < cur_seg (checkpoint_cursor ob)" "sid \<le> MAX_SEGMENT_ID"
    and "\<exists>efs. frames_ok py efs
      \<and> lookup_seg sid d' = Some \<lparr>contents = encode_segment_header sid @ blob efs, synced = seg_size efs\<rparr>"
proof -
  have "\<not> (\<exists>efs. (sid, efs) \<in> set lay)" using assms(4) by force
  with crash_lookup [OF assms(1-3)] assms(3) show "0 < sid" "sid < cur_seg (checkpoint_cursor ob)"
    "sid \<le> MAX_SEGMENT_ID" "\<exists>efs. frames_ok py efs
      \<and> lookup_seg sid d' = Some \<lparr>contents = encode_segment_header sid @ blob efs, synced = seg_size efs\<rparr>"
    by blast+
qed

text \<open>The names found after a crash: the live segments, and old ones before the checkpoint.\<close>

lemma segment_ids_lookup: "s \<in> set (segment_ids d) \<longleftrightarrow> lookup_seg s d \<noteq> None"
  by (simp add: segment_ids_def lookup_seg_def map_of_eq_None_iff)

lemma strict_last:
  "sorted_wrt (<) xs \<Longrightarrow> x \<in> set xs \<Longrightarrow> (\<And>y. y \<in> set xs \<Longrightarrow> y \<le> x) \<Longrightarrow> last xs = (x :: nat)"
proof (induction xs rule: rev_induct)
  case (snoc a xs)
  then show ?case by (auto simp: sorted_wrt_append) (metis leD)
qed simp

lemma crash_ids:
  assumes inv: "outbox_inv py lay ob" and du: "durable_inv py lay ob" and cr: "crash_disk (disk ob) d'"
  shows "sorted_wrt (<) (segment_ids d')" "set (map fst lay) \<subseteq> set (segment_ids d')"
    and "last (segment_ids d') = fst (last lay)"
    and "filter (\<lambda>s. cur_seg (checkpoint_cursor ob) \<le> s) (segment_ids d')
      = filter (\<lambda>s. cur_seg (checkpoint_cursor ob) \<le> s) (map fst lay)"
proof -
  let ?C = "cur_seg (checkpoint_cursor ob)"
  have ok: "layout_ok py lay" and b: "boundary lay (checkpoint_cursor ob)"
    using inv by (auto simp: outbox_inv_def memory_inv_def)
  from layout_cases [OF ok] obtain front L efs where lay: "lay = front @ [(L, efs)]"
    "\<forall>(s, _) \<in> set front. s < L" "fst (last lay) = L" by metis
  show ss: "sorted_wrt (<) (segment_ids d')"
    using cr by (simp add: segment_ids_def crash_disk_def strict_sorted_iff)
  show sub: "set (map fst lay) \<subseteq> set (segment_ids d')"
    by (auto simp: segment_ids_lookup elim!: crash_live [OF inv du cr])
  have CL: "?C \<le> L" using boundary_le_end [OF ok b] lay(3) by (auto simp: cursor_le_def end_of_def)
  have old: "s < ?C" if "s \<in> set (segment_ids d')" "s \<notin> set (map fst lay)" for s
    using that crash_ghost(2) [OF du cr] by (auto simp: segment_ids_lookup)
  have live: "s \<le> L" if "s \<in> set (map fst lay)" for s using that lay(1,2) by fastforce
  have "L \<in> set (segment_ids d')" using sub lay(1) by auto
  moreover have "s \<le> L" if "s \<in> set (segment_ids d')" for s
    using old [OF that] live CL by (cases "s \<in> set (map fst lay)") auto
  ultimately show "last (segment_ids d') = fst (last lay)" using strict_last [OF ss] lay(3) by blast
  show "filter (\<lambda>s. ?C \<le> s) (segment_ids d') = filter (\<lambda>s. ?C \<le> s) (map fst lay)"
  proof (rule strict_sorted_eq)
    show "sorted_wrt (<) (filter (\<lambda>s. ?C \<le> s) (segment_ids d'))" by (rule sorted_wrt_filter [OF ss])
    show "sorted_wrt (<) (filter (\<lambda>s. ?C \<le> s) (map fst lay))"
      using ok by (intro sorted_wrt_filter) (simp add: layout_ok_def)
    show "set (filter (\<lambda>s. ?C \<le> s) (segment_ids d')) = set (filter (\<lambda>s. ?C \<le> s) (map fst lay))"
      using sub old by (auto simp: not_le) (meson not_le old)
  qed
qed

text \<open>The active segment keeps a prefix of its records, all of them when no sync was pending.\<close>

lemma crash_active:
  assumes inv: "outbox_inv py lay ob" and du: "durable_inv py lay ob" and cr: "crash_disk (disk ob) d'"
    and last: "last lay = (L, efs)"
  shows "\<exists>k torn. torn_tail py torn \<and> frames_ok py (take k efs)
    \<and> seg_image d' L (take k efs) torn \<and> (\<not> data_sync_pending ob \<longrightarrow> length efs \<le> k)
    \<and> (\<exists>f. lookup_seg L d' = Some f \<and> synced f = length (contents f))
    \<and> (\<forall>j f. lookup_seg L (disk ob) = Some f \<and> SEGMENT_HEADER_SIZE + length (blob (take j efs)) \<le> synced f
         \<and> j \<le> length efs \<longrightarrow> j \<le> k)"
proof -
  have ok: "layout_ok py lay" using inv by (simp add: outbox_inv_def memory_inv_def)
  then have lastin: "(L, efs) \<in> set lay" using last by (metis last_in_set layout_ok_def)
  have fr: "frames_ok py efs" using ok lastin by (auto simp: layout_ok_def)
  from crash_live [OF inv du cr lastin] last obtain f n where f: "lookup_seg L (disk ob) = Some f"
    "contents f = encode_segment_header L @ blob efs" "SEGMENT_HEADER_SIZE \<le> synced f" "synced f \<le> n"
    "n \<le> length (contents f)" "lookup_seg L d' = Some \<lparr>contents = take n (contents f), synced = n\<rparr>"
    "\<not> data_sync_pending ob \<longrightarrow> n = length (contents f)" by (metis fst_conv)
  let ?m = "n - SEGMENT_HEADER_SIZE"
  have "?m \<le> length (blob efs)" using f(2,5) by simp
  from cut_frames [OF fr this] obtain k torn where k: "k \<le> length efs"
    "take ?m (blob efs) = blob (take k efs) @ torn" "torn_tail py torn"
    "k < length efs \<longrightarrow> ?m < length (blob (take (Suc k) efs))" by blast
  have data: "take n (contents f) = encode_segment_header L @ blob (take k efs) @ torn"
    using f(2,3,4) by (simp add: k(2))
  have "length (take n (contents f)) = n" using f(5) by simp
  then have "length (encode_segment_header L @ blob (take k efs) @ torn) = n" by (simp only: data)
  with f(3,4,6) data have im: "seg_image d' L (take k efs) torn" by (simp add: seg_image_def)
  have full: "\<not> data_sync_pending ob \<longrightarrow> length efs \<le> k"
    using f(2,7) k(4) blob_take_le [of "Suc k" efs] by (metis add_diff_cancel_left' length_append
      length_encode_segment_header not_le)
  have "j \<le> k" if "SEGMENT_HEADER_SIZE + length (blob (take j efs)) \<le> synced f" "j \<le> length efs" for j
  proof (rule ccontr)
    assume "\<not> j \<le> k"
    with that(2) k(4) blob_take_mono [of "Suc k" j efs] have "?m < length (blob (take j efs))" by simp
    with that(1) f(4) show False by simp
  qed
  moreover have "frames_ok py (take k efs)"
    using fr by (auto simp: frames_ok_def list_all_iff dest: in_set_takeD)
  ultimately show ?thesis using k(3) im full f(1,5,6)
    by (intro exI [of _ k] exI [of _ torn]) auto
qed


text \<open>The records found in each segment.\<close>

definition found_at :: "python \<Rightarrow> disk \<Rightarrow> bytes \<Rightarrow> nat \<Rightarrow> nat \<times> frames \<Rightarrow> bool" where
  "found_at py d torn active p \<longleftrightarrow>
     0 < fst p \<and> fst p \<le> MAX_SEGMENT_ID \<and> frames_ok py (snd p)
     \<and> seg_image d (fst p) (snd p) (if fst p = active then torn else [])
     \<and> (\<exists>f. lookup_seg (fst p) d = Some f \<and> synced f = length (contents f))"

lemma crash_found:
  assumes inv: "outbox_inv py lay ob" and du: "durable_inv py lay ob" and cr: "crash_disk (disk ob) d'"
    and act: "found_at py d' torn (fst (last lay)) (fst (last lay), take k (snd (last lay)))"
    and s: "s \<in> set (segment_ids d')"
  shows "\<exists>efs. found_at py d' torn (fst (last lay)) (s, efs)
    \<and> (s \<in> set (map fst lay) \<longrightarrow> (s, efs) \<in> set (cut_last k lay))"
proof (cases "s \<in> set (map fst lay)")
  case False
  have ok: "layout_ok py lay" using inv by (simp add: outbox_inv_def memory_inv_def)
  then have "fst (last lay) \<in> set (map fst lay)" by (simp add: layout_ok_def)
  with False have "s \<noteq> fst (last lay)" by blast
  moreover obtain f' where l: "lookup_seg s d' = Some f'" using s by (auto simp: segment_ids_lookup)
  note g = crash_ghost [OF du cr l False]
  moreover from g(4) obtain efs where "frames_ok py efs"
    "lookup_seg s d' = Some \<lparr>contents = encode_segment_header s @ blob efs, synced = seg_size efs\<rparr>" by blast
  ultimately show ?thesis using False
    by (intro exI [of _ efs]) (simp add: found_at_def seg_image_def seg_size_def)
next
  case True
  have ok: "layout_ok py lay" using inv by (simp add: outbox_inv_def memory_inv_def)
  then have lay: "lay = butlast lay @ [last lay]" by (simp add: layout_ok_def)
  show ?thesis
  proof (cases "s = fst (last lay)")
    case True
    with act show ?thesis by (intro exI [of _ "take k (snd (last lay))"]) (simp add: cut_last_def)
  next
    case False
    from True obtain efs where e: "(s, efs) \<in> set lay" by auto
    have "(s, efs) \<in> set (butlast lay @ [last lay])" using e lay by simp
    moreover have "(s, efs) \<noteq> last lay" using False by (metis fst_conv)
    ultimately have b: "(s, efs) \<in> set (butlast lay)" unfolding set_append by simp
    obtain f n where f: "lookup_seg s (disk ob) = Some f" "contents f = encode_segment_header s @ blob efs"
      "SEGMENT_HEADER_SIZE \<le> synced f" "synced f \<le> n" "n \<le> length (contents f)"
      "lookup_seg s d' = Some \<lparr>contents = take n (contents f), synced = n\<rparr>"
      "s \<noteq> fst (last lay) \<or> \<not> data_sync_pending ob \<longrightarrow> n = length (contents f)"
      by (rule crash_live [OF inv du cr e])
    then have "n = length (contents f)" using False by blast
    with f have "found_at py d' torn (fst (last lay)) (s, efs)" if "0 < s" "s \<le> MAX_SEGMENT_ID" "frames_ok py efs"
      using that False by (simp add: found_at_def seg_image_def)
    moreover have "0 < s" "s \<le> MAX_SEGMENT_ID" "frames_ok py efs" using ok e by (auto simp: layout_ok_def)
    ultimately show ?thesis using b
      by (intro exI [of _ efs]) (simp add: cut_last_def)
  qed
qed

lemma cut_keys: "lay \<noteq> [] \<Longrightarrow> map fst (cut_last k lay) = map fst lay"
  by (metis (no_types, lifting) append_butlast_last_id cut_last_def fst_conv list.simps(8,9) map_append)

lemma crash_layout:
  assumes inv: "outbox_inv py lay ob" and du: "durable_inv py lay ob" and cr: "crash_disk (disk ob) d'"
    and act: "found_at py d' torn (fst (last lay)) (fst (last lay), take k (snd (last lay)))"
  shows "\<exists>lay'. map fst lay' = segment_ids d' \<and> layout_ok py lay'
    \<and> (\<forall>p \<in> set lay'. found_at py d' torn (fst (last lay)) p)
    \<and> filter (\<lambda>p. cur_seg (checkpoint_cursor ob) \<le> fst p) lay'
      = filter (\<lambda>p. cur_seg (checkpoint_cursor ob) \<le> fst p) (cut_last k lay)"
proof -
  let ?C = "cur_seg (checkpoint_cursor ob)"
  note ids = crash_ids [OF inv du cr]
  have ok: "layout_ok py lay" using inv by (simp add: outbox_inv_def memory_inv_def)
  have ne: "lay \<noteq> []" and dl: "distinct (map fst lay)" using ok by (auto simp: layout_ok_def strict_sorted_iff)
  have "\<forall>s \<in> set (segment_ids d'). \<exists>efs. found_at py d' torn (fst (last lay)) (s, efs)
    \<and> (s \<in> set (map fst lay) \<longrightarrow> (s, efs) \<in> set (cut_last k lay))"
    using crash_found [OF inv du cr act] by blast
  from bchoice [OF this] obtain F where F: "\<forall>s \<in> set (segment_ids d').
      found_at py d' torn (fst (last lay)) (s, F s)
      \<and> (s \<in> set (map fst lay) \<longrightarrow> (s, F s) \<in> set (cut_last k lay))" by blast
  let ?lay = "map (\<lambda>s. (s, F s)) (segment_ids d')"
  have dc: "distinct (map fst (cut_last k lay))" using dl cut_keys [OF ne] by simp
  have "snd p = F (fst p)" if p: "p \<in> set (cut_last k lay)" for p
  proof -
    have "fst p \<in> set (map fst lay)" using p cut_keys [OF ne, of k] by (metis image_eqI set_map)
    with F ids(2) have "(fst p, F (fst p)) \<in> set (cut_last k lay)" by blast
    with p show ?thesis using eq_key_imp_eq_value [OF dc] by (metis prod.collapse)
  qed
  then have "cut_last k lay = map (\<lambda>s. (s, F s)) (map fst (cut_last k lay))"
    unfolding map_map comp_def by (intro map_idI [symmetric]) (metis prod.collapse)
  then have cutF: "cut_last k lay = map (\<lambda>s. (s, F s)) (map fst lay)" by (simp only: cut_keys [OF ne])
  have "filter (\<lambda>p. ?C \<le> fst p) ?lay = map (\<lambda>s. (s, F s)) (filter (\<lambda>s. ?C \<le> s) (segment_ids d'))"
    by (simp add: filter_map comp_def)
  also have "\<dots> = filter (\<lambda>p. ?C \<le> fst p) (map (\<lambda>s. (s, F s)) (map fst lay))"
    unfolding ids(4) filter_map by (simp add: comp_def)
  also have "\<dots> = filter (\<lambda>p. ?C \<le> fst p) (cut_last k lay)" by (simp only: cutF)
  finally have flt: "filter (\<lambda>p. ?C \<le> fst p) ?lay = filter (\<lambda>p. ?C \<le> fst p) (cut_last k lay)" .
  have "segment_ids d' \<noteq> []" using ids(2) ne by (metis bot.extremum_uniqueI image_is_empty list.set(1) set_empty set_map)
  then have "layout_ok py ?lay" using ids(1) F by (auto simp: layout_ok_def comp_def found_at_def)
  with flt F show ?thesis by (intro exI [of _ ?lay]) (auto simp: comp_def)
qed

section \<open>Recovery\<close>

text \<open>
  The queue found after a crash: some messages that had been acknowledged in memory only, then a
  prefix of the queue, the whole of it when no append was waiting for its sync.
\<close>

definition recovered :: "layout \<Rightarrow> outbox \<Rightarrow> message_envelope list \<Rightarrow> bool" where
  "recovered lay ob q \<longleftrightarrow>
     (\<exists>replayed m. q = replayed @ take m (contents_of lay ob)
        \<and> set (map msg_id replayed) \<subseteq> volatile_completed_ids ob
        \<and> (\<not> data_sync_pending ob \<longrightarrow> length (contents_of lay ob) \<le> m))"

lemma recovered_prefix:
  assumes m: "memory_inv py lay ob" and le: "cursor_le (checkpoint_cursor ob) c" "cursor_le c (volatile_cursor ob)"
    and n: "xs = take n (after c lay)" and full: "\<not> data_sync_pending ob \<longrightarrow> xs = after c lay"
  shows "recovered lay ob (map snd xs)"
proof -
  let ?P = "at_or_after (volatile_cursor ob) \<circ> fst"
  have ok: "layout_ok py lay" using m by (simp add: memory_inv_def)
  have "sorted_wrt (\<lambda>a b. precedes (fst a) (fst b)) (after c lay)"
    unfolding after_def by (rule sorted_wrt_filter [OF layout_sorted [OF ok]])
  from filter_upward [OF this, of ?P] at_or_after_mono obtain zs where
    zs: "after c lay = zs @ filter ?P (after c lay)" "\<forall>z \<in> set zs. \<not> ?P z" by fastforce
  have "filter ?P (after c lay) = after (volatile_cursor ob) lay"
    unfolding after_def filter_filter using at_or_after_le [OF le(2)] by (intro filter_cong) auto
  then have a: "after c lay = zs @ after (volatile_cursor ob) lay" using zs(1) by simp
  have vol: "st_id x \<in> volatile_completed_ids ob" if "(x, e) \<in> set zs" for x e
  proof -
    have xc: "(x, e) \<in> set (after c lay)" using a that by simp
    then have "(x, e) \<in> set (after (checkpoint_cursor ob) lay)"
      using at_or_after_le [OF le(1)] by (auto simp: after_def)
    then have "at_or_after (volatile_cursor ob) x \<or> st_id x \<in> volatile_completed_ids ob"
      using m by (fastforce simp: memory_inv_def)
    with zs(2) that show ?thesis by fastforce
  qed
  have ids: "msg_id e = st_id x" if "(x, e) \<in> set zs" for x e
  proof -
    have "(x, e) \<in> set (items lay)" using a that after_subset [of c lay] by auto
    from items_encode [OF ok this] show ?thesis by auto
  qed
  let ?r = "take n zs" and ?m = "if data_sync_pending ob then n - length zs else length (after c lay)"
  have "map snd xs = map snd (if data_sync_pending ob then ?r else zs) @ take ?m (contents_of lay ob)"
  proof (cases "data_sync_pending ob")
    case True
    then show ?thesis by (simp add: n a contents_of_def take_map)
  next
    case False
    with full have "xs = after c lay" by simp
    then show ?thesis using False by (simp add: a contents_of_def)
  qed
  moreover have "set (map msg_id (map snd (if data_sync_pending ob then ?r else zs))) \<subseteq> volatile_completed_ids ob"
    using vol ids by (auto dest!: in_set_takeD)
  moreover have "\<not> data_sync_pending ob \<longrightarrow> length (contents_of lay ob) \<le> ?m"
    by (simp add: a contents_of_def)
  ultimately show ?thesis unfolding recovered_def by blast
qed


lemma filter_ge_trans: "a \<le> b \<Longrightarrow> filter (\<lambda>x. (b :: nat) \<le> f x) (filter (\<lambda>x. a \<le> f x) xs) = filter (\<lambda>x. b \<le> f x) xs"
  unfolding filter_filter by (intro filter_cong) auto

lemma found_boundary:
  assumes ok: "layout_ok py lay" and b: "boundary lay c" and C: "C \<le> cur_seg c"
    and flt: "filter (\<lambda>p. C \<le> fst p) lay' = filter (\<lambda>p. C \<le> fst p) (cut_last k lay)"
    and k: "\<forall>j. cur_seg c = fst (last lay)
      \<and> cur_off c = SEGMENT_HEADER_SIZE + length (blob (take j (snd (last lay))))
      \<and> j \<le> length (snd (last lay)) \<longrightarrow> j \<le> k"
  shows "boundary lay' c"
proof -
  from b obtain efs j where e: "(cur_seg c, efs) \<in> set lay" "j \<le> length efs"
    "cur_off c = SEGMENT_HEADER_SIZE + length (blob (take j efs))" by (auto simp: boundary_def)
  have lay: "lay = butlast lay @ [last lay]" using ok by (simp add: layout_ok_def)
  have "\<exists>efs'. (cur_seg c, efs') \<in> set (cut_last k lay) \<and> take j efs' = take j efs \<and> j \<le> length efs'"
  proof (cases "cur_seg c = fst (last lay)")
    case True
    have "(fst (last lay), snd (last lay)) \<in> set lay" using ok by (simp add: layout_ok_def)
    then have "efs = snd (last lay)" using layout_unique [OF ok e(1)] True by simp
    moreover from this have "j \<le> k" using k True e(2,3) by blast
    ultimately show ?thesis using True e(2)
      by (intro exI [of _ "take k efs"]) (simp add: cut_last_def min_def)
  next
    case False
    have "(cur_seg c, efs) \<in> set (butlast lay @ [last lay])" using e(1) lay by simp
    moreover have "(cur_seg c, efs) \<noteq> last lay" using False by (metis fst_conv)
    ultimately have "(cur_seg c, efs) \<in> set (butlast lay)" unfolding set_append by simp
    then show ?thesis using e(2) by (intro exI [of _ efs]) (simp add: cut_last_def)
  qed
  then obtain efs' where e': "(cur_seg c, efs') \<in> set (cut_last k lay)" "take j efs' = take j efs" "j \<le> length efs'"
    by blast
  then have "(cur_seg c, efs') \<in> set (filter (\<lambda>p. C \<le> fst p) lay')" unfolding flt using C by simp
  with e' e(3) show ?thesis unfolding boundary_def by (intro exI [of _ efs'] exI [of _ j]) simp
qed

lemma crash_image:
  assumes inv: "outbox_inv py lay ob" and du: "durable_inv py lay ob" and cr: "crash_disk (disk ob) d'"
  shows "\<exists>lay' torn c. storage_image py lay' torn c d' \<and> recovered lay ob (map snd (after c lay'))
    \<and> (IoUnsupported \<notin> set (io_script d') \<longrightarrow> image_durable lay' c d')"
proof -
  let ?C = "cur_seg (checkpoint_cursor ob)" and ?L = "fst (last lay)" and ?efs = "snd (last lay)"
  have m: "memory_inv py lay ob" using inv by (simp add: outbox_inv_def)
  have ok: "layout_ok py lay" and di: "distinct (ids_after (checkpoint_cursor ob) lay)"
    and con: "consecutive (filter (\<lambda>s. ?C \<le> s) (map fst lay))" using m by (auto simp: memory_inv_def)
  have ne: "lay \<noteq> []" and Lin: "(?L, ?efs) \<in> set lay" using ok by (auto simp: layout_ok_def)
  from crash_active [OF inv du cr, of ?L ?efs] obtain k torn where k: "torn_tail py torn"
    "frames_ok py (take k ?efs)" "seg_image d' ?L (take k ?efs) torn"
    "\<not> data_sync_pending ob \<longrightarrow> length ?efs \<le> k"
    "\<exists>f. lookup_seg ?L d' = Some f \<and> synced f = length (contents f)"
    "\<forall>j f. lookup_seg ?L (disk ob) = Some f \<and> SEGMENT_HEADER_SIZE + length (blob (take j ?efs)) \<le> synced f
         \<and> j \<le> length ?efs \<longrightarrow> j \<le> k" by auto
  have "0 < ?L \<and> ?L \<le> MAX_SEGMENT_ID" using layout_cases [OF ok] by metis
  with k(2,3,5) have "found_at py d' torn ?L (?L, take k ?efs)" by (simp add: found_at_def)
  from crash_layout [OF inv du cr this] obtain lay' where lay': "map fst lay' = segment_ids d'"
    "layout_ok py lay'" "\<forall>p \<in> set lay'. found_at py d' torn ?L p"
    "filter (\<lambda>p. ?C \<le> fst p) lay' = filter (\<lambda>p. ?C \<le> fst p) (cut_last k lay)" by blast
  have "ckpt_file d' \<in> checkpoints (disk ob)" using cr by (simp add: crash_disk_def)
  with du have "checkpoint_good py lay (checkpoint_cursor ob) (volatile_cursor ob) (disk ob) (ckpt_file d')"
    by (auto simp: durable_inv_def checkpoints_def)
  then obtain g c b f where c: "ckpt_file d' = Some b" "checkpoint_text py g c = Inr b" "boundary lay c"
    "cursor_le (checkpoint_cursor ob) c" "cursor_le c (volatile_cursor ob)"
    "lookup_seg (cur_seg c) (disk ob) = Some f" "cur_off c \<le> synced f" by (auto simp: checkpoint_good_def)
  have Cc: "?C \<le> cur_seg c" using c(4) by (auto simp: cursor_le_def)
  have bd: "boundary lay' c"
    by (rule found_boundary [OF ok c(3) Cc lay'(4)]) (use k(6) c(6,7) in auto)
  have last': "fst (last lay') = ?L"
    using crash_ids(3) [OF inv du cr] lay'(1,2) by (metis last_map layout_ok_def)
  have "filter (\<lambda>p. cur_seg c \<le> fst p) lay' = filter (\<lambda>p. cur_seg c \<le> fst p) (cut_last k lay)"
    using filter_ge_trans [OF Cc, of fst lay'] filter_ge_trans [OF Cc, of fst "cut_last k lay"] lay'(4) by simp
  then have aft: "after c lay' = after c (cut_last k lay)" using after_relevant by metis
  from after_cut(1) [OF ne] obtain n where n: "after c lay' = take n (after c lay)" using aft by metis
  have full: "\<not> data_sync_pending ob \<longrightarrow> after c lay' = after c lay"
    using after_cut(2) [OF ne] k(4) aft by simp
  have rec: "recovered lay ob (map snd (after c lay'))"
    by (rule recovered_prefix [OF m c(4,5) n full])
  have "distinct (ids_after c lay)" using ids_after_le [OF ok c(4) di] .
  then have di': "distinct (ids_after c lay')" by (simp add: ids_after_def n take_map [symmetric])
  have con': "consecutive (filter (\<lambda>s. cur_seg c \<le> s) (map fst lay'))"
  proof -
    have "filter (\<lambda>s. cur_seg c \<le> s) (segment_ids d') = filter (\<lambda>s. cur_seg c \<le> s) (map fst lay)"
      using crash_ids(4) [OF inv du cr] filter_ge_trans [OF Cc, of id] by (metis (no_types, lifting) filter_cong id_apply)
    moreover have "sorted_wrt (<) (map fst lay)" using ok by (simp add: layout_ok_def)
    ultimately show ?thesis using consecutive_later [OF _ con Cc] lay'(1) by simp
  qed
  have fo: "files_of py (fst (last lay')) torn lay' d'"
    using lay'(3) k(1) by (auto simp: files_of_def found_at_def last')
  have fg: "format_good py d'" using du cr by (auto simp: durable_inv_def crash_disk_def format_good_def)
  have im: "storage_image py lay' torn c d'"
    using fg lay'(1,2) fo c(1,2) bd di' con' by (auto simp: storage_image_def)
  have "image_durable lay' c d'" if "IoUnsupported \<notin> set (io_script d')"
  proof -
    have "\<exists>f. lookup_seg sid d' = Some f \<and> length (contents f) \<le> synced f" if "(sid, efs) \<in> set lay'" for sid efs
      using lay'(3) that by (fastforce simp: found_at_def)
    moreover have "\<exists>f. lookup_seg (cur_seg c) d' = Some f \<and> cur_off c \<le> synced f"
    proof -
      from bd obtain efs where e: "(cur_seg c, efs) \<in> set lay'" "cur_off c \<le> seg_size efs"
        using boundary_le_size by blast
      from lay'(3) e(1) have "found_at py d' torn ?L (cur_seg c, efs)" by blast
      then obtain f where "lookup_seg (cur_seg c) d' = Some f" "synced f = length (contents f)"
        "seg_size efs \<le> length (contents f)" by (auto simp: found_at_def seg_image_def seg_size_def)
      with e(2) show ?thesis by auto
    qed
    ultimately show ?thesis using that unfolding image_durable_def
      by (auto dest: in_set_butlastD)
  qed
  with im rec show ?thesis by blast
qed

theorem crash_recovery_effect:
  assumes py: "python_ok py" and inv: "outbox_inv py lay ob" and du: "durable_inv py lay ob"
    and cr: "crash_disk (disk ob) d'" and lim: "0 < max_bytes" "0 < max_records"
    and r: "outbox_open py depth max_bytes max_records d' = (r, d'')"
  shows "(r = Inl OutboxError \<or> (\<exists>ob' lay'. r = Inr ob' \<and> outbox_inv py lay' ob'
        \<and> recovered lay ob (contents_of lay' ob')
        \<and> (IoUnsupported \<notin> set (io_script d') \<longrightarrow> durable_inv py lay' ob')))
    \<and> (io_script d' = [] \<longrightarrow> (\<exists>ob'. r = Inr ob'))"
proof -
  from crash_image [OF inv du cr] obtain lay' torn c where
    im: "storage_image py lay' torn c d'" "recovered lay ob (map snd (after c lay'))"
    "IoUnsupported \<notin> set (io_script d') \<longrightarrow> image_durable lay' c d'" by blast
  obtain r1 ob1 where o: "open_storage py depth (new_outbox max_bytes max_records d') = (r1, ob1)"
    by (cases "open_storage py depth (new_outbox max_bytes max_records d')")
  have new: "disk (new_outbox max_bytes max_records d') = d'" "segments (new_outbox max_bytes max_records d') = []"
    "segment_max_bytes (new_outbox max_bytes max_records d') = max_bytes"
    "segment_max_records (new_outbox max_bytes max_records d') = max_records"
    by (simp_all add: new_outbox_def)
  have "(r1 = Inl OutboxError \<or> (r1 = Inr () \<and> opened py lay' c ob1
        \<and> (image_durable lay' c d' \<longrightarrow> durable_inv py lay' ob1)))
    \<and> (io_script d' = [] \<longrightarrow> r1 = Inr ())"
    using open_storage_effect [OF py _ _ _ _ o, of lay' torn c] im(1) lim new by simp
  moreover have res: "r = (case r1 of Inl e \<Rightarrow> Inl e | Inr _ \<Rightarrow> Inr ob1)"
    using r o by (auto simp: outbox_open_def split: sum.splits)
  moreover have "outbox_inv py lay' ob1 \<and> recovered lay ob (contents_of lay' ob1)" if "opened py lay' c ob1"
    using that im(2) by (simp add: opened_def)
  ultimately show ?thesis using im(3) by (cases r1) auto
qed

end
