(* ===== verification/Storage.thy ===== *)
theory Storage
  imports OutboxOpen
begin

text \<open>
  Choosing the storage directory of an Outbox, creating it, and migrating a legacy journal
  (\<^verbatim>\<open>_resolve_or_create_storage\<close>, \<^verbatim>\<open>_install_storage_atomically\<close> and the legacy reader of
  \<^verbatim>\<open>src/reliomq/outbox.py\<close>).
\<close>

section \<open>Legacy journal records\<close>

datatype legacy_record = LegacyEnqueue pystr message_envelope | LegacyAck pystr

text \<open>\<^verbatim>\<open>Outbox._parse_json\<close>: duplicate keys and constants raise \<^verbatim>\<open>ValueError\<close>, every error is a \<^verbatim>\<open>ProtocolError\<close>.\<close>

fun without_duplicates_legacy ::
  "(pystr \<times> pyval) list \<Rightarrow> (pykey \<times> pyval) list \<Rightarrow> py_error + pyval" where
  "without_duplicates_legacy [] result = Inr (PDict result)"
| "without_duplicates_legacy ((k, v) # pairs) result =
     (if KStr k \<in> set (map fst result) then Inl ValueError
      else without_duplicates_legacy pairs (result @ [(KStr k, v)]))"

definition reject_json_constant :: "pystr \<Rightarrow> py_error + pyval" where
  "reject_json_constant value = Inl ValueError"

definition legacy_hooks :: json_hooks where
  "legacy_hooks = \<lparr>object_pairs_hook = (\<lambda>pairs. without_duplicates_legacy pairs []),
     parse_constant = reject_json_constant\<rparr>"

definition parse_json :: "python \<Rightarrow> bytes \<Rightarrow> py_error + pyval" where
  "parse_json py raw =
     (case utf8_decode raw of
        None \<Rightarrow> Inl ProtocolError
      | Some t \<Rightarrow> (case loads py legacy_hooks t of Inl _ \<Rightarrow> Inl ProtocolError | Inr v \<Rightarrow> Inr v))"

definition has_key :: "(pykey \<times> pyval) list \<Rightarrow> string \<Rightarrow> bool" where
  "has_key kvs name \<longleftrightarrow> KStr (ustr name) \<in> set (map fst kvs)"

definition decode_legacy_envelope :: "python \<Rightarrow> bytes \<Rightarrow> py_error + legacy_record" where
  "decode_legacy_envelope py raw =
     bindE (decode_message py (WBytes raw)) (\<lambda>e. Inr (LegacyEnqueue (msg_id e) e))"

definition decode_legacy_record :: "python \<Rightarrow> bytes \<Rightarrow> py_error + legacy_record" where
  "decode_legacy_record py raw =
     bindE (parse_json py raw) (\<lambda>value.
       case value of
         PDict kvs \<Rightarrow>
           if \<not> has_key kvs ''journal_version'' \<and> \<not> has_key kvs ''op''
           then decode_legacy_envelope py raw
           else if \<not> equals_one (dict_get kvs ''journal_version'') then Inl ProtocolError
           else if dict_get kvs ''op'' = PStr (ustr ''enqueue'') then
             (if \<not> same_keys kvs [''journal_version'', ''op'', ''envelope''] then Inl ProtocolError
              else (case canonical_json py (dict_get kvs ''envelope'') of
                      Inl e \<Rightarrow> Inl (if e = OutboxError then ProtocolError else e)
                    | Inr nested \<Rightarrow> decode_legacy_envelope py nested))
           else if dict_get kvs ''op'' = PStr (ustr ''ack'') then
             (if \<not> same_keys kvs [''journal_version'', ''op'', ''message_id''] then Inl ProtocolError
              else bindE (validate_message_id (dict_get kvs ''message_id'')) (\<lambda>m. Inr (LegacyAck m)))
           else Inl ProtocolError
       | _ \<Rightarrow> decode_legacy_envelope py raw)"

definition encode_enqueue :: "python \<Rightarrow> message_envelope \<Rightarrow> py_error + bytes" where
  "encode_enqueue py envelope =
     bindE (encode_message py envelope) (\<lambda>encoded.
       case read_metadata py encoded of
         Inl e \<Rightarrow> Inl (if e = UnicodeError \<or> e = JSONDecodeError then OutboxError else e)
       | Inr nested \<Rightarrow> canonical_json py (PDict
           [(KStr (ustr ''journal_version''), PInt 1),
            (KStr (ustr ''op''), PStr (ustr ''enqueue'')),
            (KStr (ustr ''envelope''), nested)]))"

definition encode_legacy_ack :: "python \<Rightarrow> pystr \<Rightarrow> py_error + bytes" where
  "encode_legacy_ack py message_id =
     bindE (validate_message_id (PStr message_id)) (\<lambda>m. canonical_json py (PDict
       [(KStr (ustr ''journal_version''), PInt 1),
        (KStr (ustr ''op''), PStr (ustr ''ack'')),
        (KStr (ustr ''message_id''), PStr m)]))"

section \<open>Replaying a legacy journal\<close>

text \<open>\<^verbatim>\<open>bytes.splitlines()\<close>: lines end with LF, CR or CR LF.\<close>

function splitlines :: "bytes \<Rightarrow> bytes list" where
  "splitlines bs =
     (if bs = [] then []
      else
        (let line = takeWhile (\<lambda>b. b \<noteq> 10 \<and> b \<noteq> 13) bs; rest = drop (length line) bs
         in line # splitlines
              (case rest of [] \<Rightarrow> [] | c # r \<Rightarrow> if c = 13 \<and> r \<noteq> [] \<and> hd r = 10 then tl r else r)))"
  by pat_completeness auto
termination
proof (relation "measure length", simp, goal_cases)
  case (1 bs line rest)
  have le: "length rest \<le> length bs" using 1 by simp
  show ?case
  proof (cases rest)
    case Nil
    then show ?thesis using 1 by simp
  next
    case (Cons c r)
    then have "length r < length bs" using le by simp
    then show ?thesis using Cons by (auto simp: less_imp_diff_less)
  qed
qed

declare splitlines.simps [simp del]

text \<open>
  The pending dictionary as an association list in insertion order. A record that does not
  decode is skipped, a duplicate enqueue is skipped, an ACK counts only for the oldest.
\<close>

definition apply_legacy ::
  "legacy_record \<Rightarrow> (pystr \<times> message_envelope) list \<Rightarrow> (pystr \<times> message_envelope) list" where
  "apply_legacy rec pend =
     (case rec of
        LegacyEnqueue m e \<Rightarrow> if m \<in> set (map fst pend) then pend else pend @ [(m, e)]
      | LegacyAck m \<Rightarrow> (case pend of [] \<Rightarrow> pend | (oldest, _) # r \<Rightarrow> if m = oldest then r else pend))"

fun replay_legacy ::
  "python \<Rightarrow> bytes list \<Rightarrow> (pystr \<times> message_envelope) list \<Rightarrow> py_error + (pystr \<times> message_envelope) list"
where
  "replay_legacy py [] pend = Inr pend"
| "replay_legacy py (raw # raws) pend =
     (case decode_legacy_record py raw of
        Inl e \<Rightarrow> if e = ProtocolError then replay_legacy py raws pend else Inl e
      | Inr rec \<Rightarrow> replay_legacy py raws (apply_legacy rec pend))"

definition read_legacy_pending :: "python \<Rightarrow> bytes \<Rightarrow> py_error + message_envelope list" where
  "read_legacy_pending py data = map_sum id (map snd) (replay_legacy py (splitlines data) [])"

section \<open>Building a storage directory\<close>

definition empty_disk :: "io list \<Rightarrow> disk" where
  "empty_disk script =
     \<lparr>fmt_file = None, ckpt_file = None, seg_files = [], ckpt_maybe = [None], segs_settled = [],
      seg_ghosts = [], io_script = script\<rparr>"

text \<open>\<^verbatim>\<open>_write_new_file_synced\<close> of the three kinds of file.\<close>

definition write_format :: "bytes \<Rightarrow> (disk, unit) proc" where
  "write_format data = andThen write_temporary (\<lambda>_ d. (Inr (), d\<lparr>fmt_file := Some data\<rparr>))"

definition write_checkpoint :: "bytes \<Rightarrow> (disk, unit) proc" where
  "write_checkpoint data =
     andThen write_temporary (\<lambda>_ d. (Inr (), d\<lparr>ckpt_file := Some data, ckpt_maybe := Some data # ckpt_maybe d\<rparr>))"

definition write_built_segment :: "nat \<Rightarrow> bytes list \<Rightarrow> (disk, unit) proc" where
  "write_built_segment segment_id frames =
     (let data = encode_segment_header segment_id @ concat frames
      in andThen write_temporary (\<lambda>_ d.
           (Inr (), update_seg segment_id \<lparr>contents = data, synced = length data\<rparr> d)))"

fun build_segments ::
  "python \<Rightarrow> nat \<Rightarrow> nat \<Rightarrow> nat \<Rightarrow> bytes list \<Rightarrow> nat \<Rightarrow> message_envelope list \<Rightarrow> (disk, unit) proc"
where
  "build_segments py max_bytes max_records segment_id frames segment_size [] =
     write_built_segment segment_id frames"
| "build_segments py max_bytes max_records segment_id frames segment_size (e # es) =
     andThen (lift_pure (bindE (encode_message py e) encode_frame)) (\<lambda>frame.
       if frames \<noteq> [] \<and> (length frames \<ge> max_records \<or> segment_size + length frame > max_bytes)
       then andThen (write_built_segment segment_id frames) (\<lambda>_.
              build_segments py max_bytes max_records (segment_id + 1) [frame]
                (SEGMENT_HEADER_SIZE + length frame) es)
       else build_segments py max_bytes max_records segment_id (frames @ [frame])
              (segment_size + length frame) es)"

definition format_text :: "python \<Rightarrow> py_error + bytes" where
  "format_text py =
     bindE (canonical_json py (PDict
       [(KStr (ustr ''format''), PStr FORMAT_NAME), (KStr (ustr ''version''), PInt 1)]))
       (\<lambda>bs. Inr (bs @ [10]))"

definition start_cursor :: cursor where
  "start_cursor = \<lparr>cur_seg = 1, cur_off = SEGMENT_HEADER_SIZE\<rparr>"

definition build_storage_directory ::
  "python \<Rightarrow> nat \<Rightarrow> nat \<Rightarrow> message_envelope list \<Rightarrow> (disk, unit) proc" where
  "build_storage_directory py max_bytes max_records pend =
     andThen (lift_pure (format_text py)) (\<lambda>format_bytes.
     andThen (write_format format_bytes) (\<lambda>_.
     andThen (build_segments py max_bytes max_records 1 [] SEGMENT_HEADER_SIZE pend) (\<lambda>_.
     andThen (lift_pure (checkpoint_text py 0 start_cursor)) (\<lambda>checkpoint.
     andThen (write_checkpoint checkpoint) (\<lambda>_. fsync_directory)))))"

section \<open>Choosing and installing\<close>

text \<open>What is at the configured path and at its sidecar \<^verbatim>\<open><path>.segments\<close>.\<close>

datatype entry = Missing | Directory disk | RegularFile bytes | OtherEntry

record place =
  at_path :: entry
  at_sidecar :: entry
  place_io :: "io list"

definition place_call :: "(place, unit) proc" where
  "place_call pl =
     (case place_io pl of
        [] \<Rightarrow> (Inr (), pl)
      | i # r \<Rightarrow> (if i = IoOk then Inr () else Inl OutboxError, pl\<lparr>place_io := r\<rparr>))"

text \<open>The barrier on the parent directory tolerates a file system that cannot sync directories.\<close>

definition sync_parent :: "(place, unit) proc" where
  "sync_parent pl =
     (case place_io pl of
        [] \<Rightarrow> (Inr (), pl)
      | i # r \<Rightarrow> (case i of IoErr _ \<Rightarrow> Inl OutboxError | _ \<Rightarrow> Inr (), pl\<lparr>place_io := r\<rparr>))"

text \<open>
  \<^verbatim>\<open>_install_storage_atomically\<close>: the directory is built aside, renamed into place, and the
  parent synced. A failure before the rename leaves the destination as it was; the temporary
  directory is removed.
\<close>

definition put_entry :: "bool \<Rightarrow> entry \<Rightarrow> place \<Rightarrow> place" where
  "put_entry sidecar x pl = (if sidecar then pl\<lparr>at_sidecar := x\<rparr> else pl\<lparr>at_path := x\<rparr>)"

definition install_storage_atomically ::
  "python \<Rightarrow> nat \<Rightarrow> nat \<Rightarrow> bool \<Rightarrow> message_envelope list \<Rightarrow> (place, unit) proc" where
  "install_storage_atomically py max_bytes max_records sidecar pend =
     andThen place_call (\<lambda>_. andThen place_call (\<lambda>_ pl.
       case build_storage_directory py max_bytes max_records pend (empty_disk (place_io pl)) of
         (Inl e, d) \<Rightarrow> (Inl (if e = OSError then OutboxError else e), pl\<lparr>place_io := io_script d\<rparr>)
       | (Inr _, d) \<Rightarrow>
           andThen place_call (\<lambda>_ pl'. sync_parent (put_entry sidecar (Directory (d\<lparr>io_script := []\<rparr>)) pl'))
             (pl\<lparr>place_io := io_script d\<rparr>)))"

text \<open>The result tells whether the sidecar is the storage directory.\<close>

definition resolve_or_create_storage :: "python \<Rightarrow> nat \<Rightarrow> nat \<Rightarrow> (place, bool) proc" where
  "resolve_or_create_storage py max_bytes max_records =
     andThen place_call (\<lambda>_. andThen place_call (\<lambda>_ pl.
       case at_path pl of
         Directory _ \<Rightarrow> if at_sidecar pl \<noteq> Missing then throw OutboxError pl else ret False pl
       | _ \<Rightarrow>
         if at_sidecar pl \<noteq> Missing then
           (case at_sidecar pl of
              Directory _ \<Rightarrow> if at_path pl = OtherEntry then throw OutboxError pl else ret True pl
            | _ \<Rightarrow> throw OutboxError pl)
         else
           (case at_path pl of
              OtherEntry \<Rightarrow> throw OutboxError pl
            | RegularFile data \<Rightarrow>
                andThen place_call (\<lambda>_.
                andThen (lift_pure (read_legacy_pending py data)) (\<lambda>pend.
                andThen (install_storage_atomically py max_bytes max_records True pend) (\<lambda>_. ret True))) pl
            | _ \<Rightarrow>
                andThen (install_storage_atomically py max_bytes max_records False []) (\<lambda>_. ret False) pl)))"

end
