(* ===== verification/StorageFacts.thy ===== *)
theory StorageFacts
  imports Storage OutboxRestart
begin

text \<open>
  The built storage directory is an image of the migrated queue: opening it gives exactly the
  pending envelopes of the legacy journal, in order, and a new queue is empty.
\<close>

section \<open>The built segments\<close>

lemma write_temporary_no_failure: "io_script d = [] \<Longrightarrow> write_temporary d = (Inr (), d)"
  by (simp add: write_temporary_def andThen_def no_script_calls)

definition holds_exactly :: "disk \<Rightarrow> nat \<times> frames \<Rightarrow> bool" where
  "holds_exactly d p \<longleftrightarrow>
     lookup_seg (fst p) d = Some \<lparr>contents = encode_segment_header (fst p) @ blob (snd p), synced = seg_size (snd p)\<rparr>"

text \<open>\<open>built sid lay d d'\<close>: the segments of \<open>lay\<close>, numbered from \<open>sid\<close>, were added to the directory.\<close>

definition built :: "nat \<Rightarrow> layout \<Rightarrow> disk \<Rightarrow> disk \<Rightarrow> bool" where
  "built sid lay d d' \<longleftrightarrow>
     map fst lay = [sid ..< sid + length lay] \<and> (\<forall>p \<in> set lay. holds_exactly d' p)
     \<and> map fst (seg_files d') = map fst (seg_files d) @ map fst lay
     \<and> fmt_file d' = fmt_file d \<and> ckpt_file d' = ckpt_file d
     \<and> (\<forall>s < sid. lookup_seg s d' = lookup_seg s d)
     \<and> set (io_script d') \<subseteq> set (io_script d) \<and> (io_script d = [] \<longrightarrow> io_script d' = [])"

lemma update_keys_new: "k \<notin> set (map fst al) \<Longrightarrow> map fst (AList.update k v al) = map fst al @ [k]"
  by (induction al) auto

lemma write_built_segment_effect:
  assumes r: "write_built_segment sid (map snd efs) d = (r, d')" and new: "\<forall>s \<ge> sid. lookup_seg s d = None"
  shows "(r = Inr () \<longrightarrow> built sid [(sid, efs)] d d') \<and> (r = Inr () \<or> r = Inl OSError)
    \<and> (io_script d = [] \<longrightarrow> r = Inr ())"
proof -
  obtain r0 d0 where w: "write_temporary d = (r0, d0)" by (cases "write_temporary d")
  have q: "quiet d d0" "r0 = Inr () \<or> r0 = Inl OSError" using write_temporary_quiet [OF w] by auto
  have n: "sid \<notin> set (map fst (seg_files d0))"
    using new quiet_fields(3) [OF q(1)] by (auto simp: lookup_seg_def map_of_eq_None_iff)
  from r w q n show ?thesis
    by (auto simp: write_built_segment_def Let_def andThen_def built_def holds_exactly_def seg_size_def
        quiet_fields quiet_lookup update_keys_new write_temporary_no_failure
        dest: quiet_fields(7) [THEN subsetD] quiet_no_calls split: sum.splits)
qed

lemma built_append:
  assumes "built sid lay d d1" and "built (sid + length lay) lay' d1 d2"
  shows "built sid (lay @ lay') d d2"
proof -
  have "holds_exactly d2 p" if "p \<in> set lay" for p
  proof -
    have "fst p \<in> set (map fst lay)" using that by simp
    moreover have "map fst lay = [sid ..< sid + length lay]" using assms(1) by (simp add: built_def)
    ultimately have "fst p \<in> set [sid ..< sid + length lay]" by (simp only:)
    then have "fst p < sid + length lay" by simp
    then show ?thesis using assms that by (simp add: built_def holds_exactly_def)
  qed
  then have h: "\<forall>p \<in> set (lay @ lay'). holds_exactly d2 p" using assms(2) by (auto simp: built_def)
  have "map fst lay = [sid ..< sid + length lay]"
    "map fst lay' = [sid + length lay ..< sid + length lay + length lay']"
    using assms unfolding built_def by blast+
  then have "map fst lay @ map fst lay' = [sid ..< sid + length lay + length lay']"
    by (simp only: upt_add_eq_append [OF le_add1])
  then have ids: "map fst (lay @ lay') = [sid ..< sid + length (lay @ lay')]"
    by (simp only: map_append length_append add.assoc)
  have "map fst (seg_files d2) = map fst (seg_files d) @ map fst (lay @ lay')"
    using assms unfolding built_def by (metis append.assoc map_append)
  moreover have "\<forall>s < sid. lookup_seg s d2 = lookup_seg s d"
    using assms unfolding built_def by (metis trans_less_add1)
  ultimately show ?thesis using ids h assms unfolding built_def by (intro conjI) (blast | simp)+
qed

lemma build_segments_effect:
  "build_segments py mb mr sid (map snd efs) sz es d = (r, d') \<Longrightarrow> frames_ok py efs \<Longrightarrow>
   \<forall>e \<in> set es. valid_message py e \<Longrightarrow> \<forall>s \<ge> sid. lookup_seg s d = None \<Longrightarrow>
   r = Inr () \<longrightarrow> (\<exists>lay. lay \<noteq> [] \<and> built sid lay d d' \<and> (\<forall>p \<in> set lay. frames_ok py (snd p))
     \<and> length lay \<le> Suc (length es) \<and> map fst (concat (map snd lay)) = map fst efs @ es)"
proof (induction es arbitrary: sid efs sz d)
  case Nil
  with write_built_segment_effect [OF _ Nil.prems(4), of efs r d'] show ?case
    by (intro impI exI [of _ "[(sid, efs)]"]) auto
next
  case (Cons e es)
  show ?case
  proof
    assume ok: "r = Inr ()"
    with Cons.prems(1) obtain payload frame where enc: "encode_message py e = Inr payload"
      "encode_frame payload = Inr frame" by (auto simp: andThen_def bindE_def split: sum.splits)
    have fr: "frame_of py e frame" using enc Cons.prems(3) by (simp add: frame_of_def)
    show "\<exists>lay. lay \<noteq> [] \<and> built sid lay d d' \<and> (\<forall>p \<in> set lay. frames_ok py (snd p))
     \<and> length lay \<le> Suc (length (e # es)) \<and> map fst (concat (map snd lay)) = map fst efs @ e # es"
    proof (cases "map snd efs \<noteq> [] \<and> (length (map snd efs) \<ge> mr \<or> sz + length frame > mb)")
      case False
      then have "build_segments py mb mr sid (map snd (efs @ [(e, frame)])) (sz + length frame) es d = (r, d')"
        using Cons.prems(1) enc by (auto simp: andThen_def)
      from Cons.IH [OF this] Cons.prems(2-4) fr ok show ?thesis by fastforce
    next
      case True
      obtain r1 d1 where w: "write_built_segment sid (map snd efs) d = (r1, d1)"
        by (cases "write_built_segment sid (map snd efs) d")
      note we = write_built_segment_effect [OF w Cons.prems(4)]
      have r1: "r1 = Inr ()" using ok Cons.prems(1) True enc w we by (auto simp: andThen_def split: if_splits)
      have b1: "built sid [(sid, efs)] d d1" using we r1 by blast
      have run: "build_segments py mb mr (Suc sid) (map snd [(e, frame)]) (SEGMENT_HEADER_SIZE + length frame) es d1 = (r, d')"
        using Cons.prems(1) True enc w r1 by (auto simp: andThen_def split: if_splits)
      have new: "\<forall>s \<ge> Suc sid. lookup_seg s d1 = None"
      proof (intro allI impI)
        fix s assume "Suc sid \<le> s"
        then have "s \<notin> set (map fst (seg_files d1))"
          using b1 Cons.prems(4) by (auto simp: built_def lookup_seg_def map_of_eq_None_iff)
        then show "lookup_seg s d1 = None" by (simp add: lookup_seg_def map_of_eq_None_iff)
      qed
      from Cons.IH [OF run _ _ new] Cons.prems(3) fr ok obtain lay where lay: "lay \<noteq> []"
        "built (Suc sid) lay d1 d'" "\<forall>p \<in> set lay. frames_ok py (snd p)" "length lay \<le> Suc (length es)"
        "map fst (concat (map snd lay)) = e # es" by auto
      have "built sid ([(sid, efs)] @ lay) d d'" by (rule built_append [OF b1]) (simp add: lay(2))
      with lay Cons.prems(2) show ?thesis by (intro exI [of _ "[(sid, efs)] @ lay"]) simp
    qed
  qed
qed


section \<open>The image of a built directory\<close>

lemma snd_items: "map snd (items lay) = map (canon_message \<circ> fst) (concat (map snd lay))"
  by (induction lay) (auto simp: seg_items_def)

lemma ids_entries: "map st_id (entries_from sid off efs) = map (msg_id \<circ> fst) efs"
  by (induction sid off efs rule: entries_from.induct) auto

lemma ids_items: "map (st_id \<circ> fst) (items lay) = map (msg_id \<circ> fst) (concat (map snd lay))"
proof -
  have "map st_id (map fst (items lay)) = map (msg_id \<circ> fst) (concat (map snd lay))"
    unfolding fst_items by (induction lay) (auto simp: ids_entries)
  then show ?thesis by (simp add: comp_def)
qed

lemma after_start:
  assumes "\<forall>s \<in> set (map fst lay). 1 \<le> s"
  shows "after start_cursor lay = items lay"
proof -
  have "at_or_after start_cursor x" if "(x, e) \<in> set (items lay)" for x e
  proof -
    from itemsD [OF that] obtain efs where "(st_seg x, efs) \<in> set lay"
      "(x, e) \<in> set (seg_items (st_seg x) SEGMENT_HEADER_SIZE efs)" by blast
    moreover from this(1) assms have "1 \<le> st_seg x" by force
    moreover from seg_itemsD [OF calculation(2)] have "SEGMENT_HEADER_SIZE \<le> st_start x" by auto
    ultimately show ?thesis by (auto simp: at_or_after_def start_cursor_def)
  qed
  then show ?thesis by (auto simp: after_def filter_id_conv)
qed

lemma consecutive_upt: "consecutive [a ..< b]"
proof (induction "b - a" arbitrary: a)
  case (Suc n)
  then have "[a ..< b] = a # [Suc a ..< b]" "consecutive [Suc a ..< b]" by (auto simp: upt_rec)
  then show ?case by (cases "Suc a < b") (simp_all add: upt_rec [of "Suc a"])
qed simp

lemma format_text_good:
  assumes py: "python_ok py" and t: "format_text py = Inr b"
  shows "\<exists>v. read_metadata py b = Inr v \<and> supported_format v"
proof -
  let ?kvs = "[(KStr (ustr ''format''), PStr FORMAT_NAME), (KStr (ustr ''version''), PInt 1)]"
  from t obtain s bs where d: "dumps py (PDict ?kvs) = Inr s" "utf8_encode s = Some bs" "b = bs @ [10]"
    by (auto simp: format_text_def canonical_json_def bindE_Inr split: sum.splits option.splits)
  have neq: "ustr ''format'' \<noteq> ustr ''version''" by code_simp
  have ok: "dict_ok (PDict ?kvs)" using neq by simp
  then have dk: "distinct (map fst ?kvs)" using neq by simp
  obtain kvs' where c: "canon (PDict ?kvs) = PDict kvs'" by simp
  have r: "read_metadata py b = Inr (PDict kvs')"
    using loads_dumps_newline [OF py default_hooks_dict ok d(1)] utf8_encode_newline [OF d(2)] c
    by (simp add: read_metadata_def d(3))
  have k: "same_keys kvs' [''format'', ''version'']"
    using map_of_canon(2) [OF c dk] by (simp add: same_keys_def)
  have found: "dict_get kvs' nm = canon v" if "map_of ?kvs (KStr (ustr nm)) = Some v" for nm v
    using map_of_canon(1) [OF c dk, of "KStr (ustr nm)"] that by (simp add: dict_get_def)
  have "dict_get kvs' ''format'' = PStr FORMAT_NAME" "dict_get kvs' ''version'' = PInt 1"
    using neq by (subst found, simp, simp)+
  with r k show ?thesis by (simp add: supported_format_def equals_one_def)
qed

lemma build_storage_effect:
  assumes py: "python_ok py" and v: "\<forall>e \<in> set pend. valid_message py e" and di: "distinct (map msg_id pend)"
    and len: "length pend < MAX_SEGMENT_ID"
    and r: "build_storage_directory py mb mr pend (empty_disk script) = (Inr (), d)"
  shows "\<exists>lay. storage_image py lay [] start_cursor d \<and> map snd (after start_cursor lay) = map canon_message pend
    \<and> (IoUnsupported \<notin> set script \<longrightarrow> image_durable lay start_cursor d)"
proof -
  from r obtain fb cb d0 d1 d2 d3 where fb: "format_text py = Inr fb" and cb: "checkpoint_text py 0 start_cursor = Inr cb"
    and s1: "write_temporary (empty_disk script) = (Inr (), d0)"
    and s2: "build_segments py mb mr 1 [] SEGMENT_HEADER_SIZE pend (d0\<lparr>fmt_file := Some fb\<rparr>) = (Inr (), d1)"
    and s3: "write_temporary d1 = (Inr (), d2)"
    and s4: "fsync_directory (d2\<lparr>ckpt_file := Some cb, ckpt_maybe := Some cb # ckpt_maybe d2\<rparr>) = (Inr (), d)"
    by (auto simp: build_storage_directory_def andThen_eq_Inr write_format_def write_checkpoint_def)
  note q0 = write_temporary_quiet [OF s1, THEN conjunct1] and q2 = write_temporary_quiet [OF s3, THEN conjunct1]
  from fsync_directory_cases [OF s4] obtain d4 where q4: "quiet (d2\<lparr>ckpt_file := Some cb, ckpt_maybe := Some cb # ckpt_maybe d2\<rparr>) d4"
    "d = settle d4 \<or> d = d4" by auto
  have e0: "seg_files d0 = []" "set (io_script d0) \<subseteq> set script"
    using quiet_fields(3,7) [OF q0] by (simp_all add: empty_disk_def)
  have new: "\<forall>s \<ge> 1. lookup_seg s (d0\<lparr>fmt_file := Some fb\<rparr>) = None" by (simp add: lookup_seg_def e0)
  from build_segments_effect [of py mb mr 1 "[]" SEGMENT_HEADER_SIZE pend _ "Inr ()" d1, OF _ _ v new] s2
  obtain lay where lay: "lay \<noteq> []" "built 1 lay (d0\<lparr>fmt_file := Some fb\<rparr>) d1" "\<forall>p \<in> set lay. frames_ok py (snd p)"
    "length lay \<le> Suc (length pend)" "map fst (concat (map snd lay)) = pend" by auto
  have files: "seg_files d = seg_files d1" "fmt_file d = Some fb" "ckpt_file d = Some cb"
    using q4(2) quiet_fields [OF q4(1)] quiet_fields [OF q2] lay(2) by (auto simp: settle_def built_def)
  have "set (io_script d4) \<subseteq> set (io_script d2)" using quiet_fields(7) [OF q4(1)] by simp
  moreover have "set (io_script d2) \<subseteq> set (io_script d1)" using quiet_fields(7) [OF q2] .
  moreover have "set (io_script d1) \<subseteq> set (io_script d0)" using lay(2) by (simp add: built_def)
  ultimately have "set (io_script d4) \<subseteq> set script" using e0(2) by blast
  then have script: "set (io_script d) \<subseteq> set script" using q4(2) by (auto simp: settle_def)
  have ids: "map fst lay = [1 ..< 1 + length lay]" and b: "map fst (seg_files d) = map fst lay"
    and hold: "\<forall>p \<in> set lay. holds_exactly d p"
    using lay(2) e0(1) files(1) by (auto simp: built_def holds_exactly_def lookup_seg_def)
  have mx: "1 + length lay \<le> Suc MAX_SEGMENT_ID" using lay(4) len by simp
  have sid: "1 \<le> s \<and> s \<le> MAX_SEGMENT_ID" if "s \<in> set (map fst lay)" for s
    using that mx unfolding ids by auto
  have "1 \<le> fst p \<and> fst p \<le> MAX_SEGMENT_ID \<and> frames_ok py (snd p)" if "p \<in> set lay" for p
    using lay(3) sid [of "fst p"] that by simp
  moreover have "sorted_wrt (<) (map fst lay)" unfolding ids by (rule sorted_wrt_upt)
  ultimately have ok: "layout_ok py lay" using lay(1) by (force simp: layout_ok_def)
  have "(1, snd (hd lay)) \<in> set lay"
    using lay(1) ids by (cases lay) (auto simp: upt_rec)
  then have bd: "boundary lay start_cursor"
    unfolding boundary_def start_cursor_def by (intro exI [of _ "snd (hd lay)"] exI [of _ 0]) simp
  have aft: "after start_cursor lay = items lay" using after_start sid by blast
  have "map (st_id \<circ> fst) (items lay) = map msg_id pend"
    unfolding ids_items lay(5) [symmetric] by simp
  then have di': "distinct (ids_after start_cursor lay)" using di by (simp add: ids_after_def aft)
  have ct: "map snd (after start_cursor lay) = map canon_message pend"
    unfolding aft snd_items lay(5) [symmetric] by simp
  have fl: "filter (\<lambda>s. cur_seg start_cursor \<le> s) (map fst lay) = map fst lay"
    using sid by (auto simp: filter_id_conv start_cursor_def)
  have fo: "files_of py (fst (last lay)) [] lay d"
    using lay(3) hold sid unfolding files_of_def
    by (fastforce simp: torn_tail_def seg_image_def holds_exactly_def seg_size_def)
  have "segment_ids d = map fst lay" unfolding segment_ids_def b ids by (rule sorted_sort_id) (rule sorted_upt)
  moreover have "format_good py d" using format_text_good [OF py fb] files(2) by (simp add: format_good_def)
  ultimately have "storage_image py lay [] start_cursor d"
    using ok fo files(3) cb bd di' consecutive_upt [of 1 "1 + length lay", folded ids]
    unfolding storage_image_def fl by blast
  moreover have "image_durable lay start_cursor d" if "IoUnsupported \<notin> set script"
  proof -
    from bd obtain efs where "(cur_seg start_cursor, efs) \<in> set lay" by (auto simp: boundary_def)
    with hold have "holds_exactly d (cur_seg start_cursor, efs)" by blast
    with hold that script show ?thesis
      by (fastforce simp: image_durable_def holds_exactly_def seg_size_def start_cursor_def dest: in_set_butlastD)
  qed
  ultimately show ?thesis using ct by blast
qed


section \<open>The legacy journal\<close>

lemma without_duplicates_legacy_distinct:
  "distinct (map fst kvs) \<Longrightarrow> set (map fst kvs) \<inter> {k. KStr k \<in> set (map fst acc)} = {} \<Longrightarrow>
     without_duplicates_legacy kvs acc = Inr (PDict (acc @ map (\<lambda>(k, v). (KStr k, v)) kvs))"
proof (induction kvs arbitrary: acc)
  case (Cons kv kvs)
  obtain k v where kv: "kv = (k, v)" by (cases kv)
  have "set (map fst kvs) \<inter> {k'. KStr k' \<in> set (map fst (acc @ [(KStr k, v)]))} = {}"
    using Cons.prems kv by auto
  with Cons.IH [of "acc @ [(KStr k, v)]"] Cons.prems show ?case by (auto simp: kv)
qed simp

lemma dict_hook_legacy: "dict_hook legacy_hooks"
  by (simp add: dict_hook_def legacy_hooks_def without_duplicates_legacy_distinct)

lemma canonical_json_Inr:
  "canonical_json py v = Inr bs \<longleftrightarrow> (\<exists>t. dumps py v = Inr t \<and> utf8_encode t = Some bs)"
  by (auto simp: canonical_json_def split: sum.splits option.splits)

lemma parse_canonical:
  assumes "python_ok py" and "dict_ok v" and "canonical_json py v = Inr bs"
  shows "parse_json py bs = Inr (canon v)"
  using assms loads_dumps [OF assms(1) dict_hook_legacy assms(2)] utf8_decode_encode
  by (auto simp: parse_json_def canonical_json_Inr)

lemma ustr_journal [simp]:
  "ustr ''journal_version'' = [106, 111, 117, 114, 110, 97, 108, 95, 118, 101, 114, 115, 105, 111, 110]"
  "ustr ''op'' = [111, 112]" "ustr ''envelope'' = [101, 110, 118, 101, 108, 111, 112, 101]"
  "ustr ''enqueue'' = [101, 110, 113, 117, 101, 117, 101]" "ustr ''ack'' = [97, 99, 107]"
  "ustr ''message_id'' = [109, 101, 115, 115, 97, 103, 101, 95, 105, 100]"
  by code_simp+

lemma decode_encode_enqueue:
  assumes py: "python_ok py" and v: "valid_message py e" and enc: "encode_enqueue py e = Inr b"
  shows "decode_legacy_record py b = Inr (LegacyEnqueue (msg_id e) (canon_message e))"
proof -
  let ?e = "PDict [(KStr (ustr ''version''), PInt (msg_version e)),
        (KStr (ustr ''event_id''), PStr (msg_id e)),
        (KStr (ustr ''topic''), PStr (msg_topic e)), (KStr (ustr ''payload''), msg_payload e)]"
  have oke: "dict_ok ?e" using v by (simp add: valid_message_def)
  from enc obtain bs nested where bs: "encode_message py e = Inr bs" and n: "read_metadata py bs = Inr nested"
    and b: "canonical_json py (PDict [(KStr (ustr ''journal_version''), PInt 1),
            (KStr (ustr ''op''), PStr (ustr ''enqueue'')), (KStr (ustr ''envelope''), nested)]) = Inr b"
    unfolding encode_enqueue_def by (cases "encode_message py e"; cases "read_metadata py (projr (encode_message py e))")
      (simp_all del: ustr_journal split: if_splits)
  from bs obtain t where t: "dumps py ?e = Inr t" "utf8_encode t = Some bs"
    by (auto simp: encode_message_def canonical_bytes_def simp del: ustr_fields split: sum.splits option.splits)
  have nested: "nested = canon ?e"
    using n loads_dumps [OF py default_hooks_dict oke t(1)] utf8_decode_encode [OF t(2)]
    by (simp add: read_metadata_def del: canon.simps)
  let ?kvs = "[(KStr (ustr ''journal_version''), PInt 1),
            (KStr (ustr ''op''), PStr (ustr ''enqueue'')), (KStr (ustr ''envelope''), nested)]"
  have okj: "dict_ok (PDict ?kvs)" using dict_ok_canon [OF oke] unfolding nested by (simp del: canon.simps)
  then have dk: "distinct (map fst ?kvs)" by simp
  obtain kvs' where c: "canon (PDict ?kvs) = PDict kvs'" by simp
  have p: "parse_json py b = Inr (PDict kvs')" using parse_canonical [OF py okj b] c by simp
  have found: "dict_get kvs' nm = canon x" if "map_of ?kvs (KStr (ustr nm)) = Some x" for nm x
    using map_of_canon(1) [OF c dk, of "KStr (ustr nm)"] that by (simp add: dict_get_def)
  have g: "dict_get kvs' ''journal_version'' = PInt 1" "dict_get kvs' ''op'' = PStr (ustr ''enqueue'')"
    "dict_get kvs' ''envelope'' = canon nested" by (subst found, simp, simp)+
  have k: "same_keys kvs' [''journal_version'', ''op'', ''envelope'']" "has_key kvs' ''op''"
    using map_of_canon(2) [OF c dk] by (simp_all add: same_keys_def has_key_def del: ustr_journal)
  have "canonical_json py (canon ?e) = Inr bs"
    unfolding canonical_json_Inr using dumps_canon [OF t(1)] t(2) by blast
  moreover have "decode_message py (WBytes bs) = Inr (canon_message e)"
    by (rule decode_encode_message [OF py v bs])
  ultimately show ?thesis
    using p g k nested
    by (simp add: decode_legacy_record_def decode_legacy_envelope_def equals_one_def del: canon.simps ustr_journal)
qed

lemma decode_encode_legacy_ack:
  assumes py: "python_ok py" and enc: "encode_legacy_ack py m = Inr b"
  shows "decode_legacy_record py b = Inr (LegacyAck m)"
proof -
  let ?kvs = "[(KStr (ustr ''journal_version''), PInt 1), (KStr (ustr ''op''), PStr (ustr ''ack'')),
        (KStr (ustr ''message_id''), PStr m)]"
  from enc have v: "validate_message_id (PStr m) = Inr m" and b: "canonical_json py (PDict ?kvs) = Inr b"
    by (auto simp: encode_legacy_ack_def bindE_Inr validate_message_id_def simp del: ustr_journal split: if_splits)
  have okj: "dict_ok (PDict ?kvs)" by simp
  then have dk: "distinct (map fst ?kvs)" by simp
  obtain kvs' where c: "canon (PDict ?kvs) = PDict kvs'" by simp
  have p: "parse_json py b = Inr (PDict kvs')" using parse_canonical [OF py okj b] c by simp
  have found: "dict_get kvs' nm = canon x" if "map_of ?kvs (KStr (ustr nm)) = Some x" for nm x
    using map_of_canon(1) [OF c dk, of "KStr (ustr nm)"] that by (simp add: dict_get_def)
  have g: "dict_get kvs' ''journal_version'' = PInt 1" "dict_get kvs' ''op'' = PStr (ustr ''ack'')"
    "dict_get kvs' ''message_id'' = PStr m" by (subst found, simp, simp)+
  have k: "same_keys kvs' [''journal_version'', ''op'', ''message_id'']" "has_key kvs' ''op''"
    using map_of_canon(2) [OF c dk] by (simp_all add: same_keys_def has_key_def del: ustr_journal)
  have "ustr ''ack'' \<noteq> ustr ''enqueue''" by simp
  with p g k v show ?thesis
    by (simp add: decode_legacy_record_def equals_one_def del: ustr_journal)
qed

text \<open>
  The replay of a journal, whatever its bytes: pairwise distinct ids, valid envelopes under
  their own ids.
\<close>

definition pending_ok :: "python \<Rightarrow> (pystr \<times> message_envelope) list \<Rightarrow> bool" where
  "pending_ok py pend \<longleftrightarrow> distinct (map fst pend) \<and> (\<forall>(m, e) \<in> set pend. msg_id e = m \<and> valid_message py e)"

lemma decode_legacy_valid:
  "decode_legacy_record py raw = Inr (LegacyEnqueue m e) \<Longrightarrow> msg_id e = m \<and> valid_message py e"
proof -
  assume a: "decode_legacy_record py raw = Inr (LegacyEnqueue m e)"
  then obtain val where v: "parse_json py raw = Inr val" by (auto simp: decode_legacy_record_def bindE_Inr)
  have "\<exists>raw'. decode_legacy_envelope py raw' = Inr (LegacyEnqueue m e)"
  proof (cases val)
    case (PDict kvs)
    with a v show ?thesis
      by (auto simp: decode_legacy_record_def bindE_Inr simp del: ustr_journal split: if_splits sum.splits)
  qed (use a v in \<open>auto simp: decode_legacy_record_def\<close>)
  then show ?thesis by (auto simp: decode_legacy_envelope_def bindE_Inr dest: decode_message_valid)
qed

lemma apply_legacy_ok:
  assumes "pending_ok py pend" and "decode_legacy_record py raw = Inr rec"
  shows "pending_ok py (apply_legacy rec pend)"
proof (cases rec)
  case (LegacyEnqueue m e)
  with assms decode_legacy_valid [of py raw m e] show ?thesis
    by (auto simp: apply_legacy_def pending_ok_def)
next
  case (LegacyAck m)
  have "apply_legacy rec pend = pend \<or> apply_legacy rec pend = tl pend"
    by (auto simp: LegacyAck apply_legacy_def split: list.splits)
  moreover have "pending_ok py (tl pend)" using assms(1) by (cases pend) (auto simp: pending_ok_def)
  ultimately show ?thesis using assms(1) by metis
qed

lemma replay_legacy_ok:
  "replay_legacy py raws pend = Inr res \<Longrightarrow> pending_ok py pend \<Longrightarrow> pending_ok py res"
  by (induction py raws pend rule: replay_legacy.induct)
    (auto split: sum.splits if_splits intro: apply_legacy_ok)

lemma read_legacy_ok:
  assumes "read_legacy_pending py data = Inr pend"
  shows "distinct (map msg_id pend)" "\<forall>e \<in> set pend. valid_message py e"
proof -
  from assms obtain res where r: "replay_legacy py (splitlines data) [] = Inr res" "pend = map snd res"
    by (cases "replay_legacy py (splitlines data) []") (auto simp: read_legacy_pending_def)
  have ok: "pending_ok py res" using replay_legacy_ok [OF r(1)] by (simp add: pending_ok_def)
  then have eq: "map msg_id pend = map fst res" by (auto simp: r(2) pending_ok_def)
  show "distinct (map msg_id pend)" using ok unfolding eq by (simp add: pending_ok_def)
  show "\<forall>e \<in> set pend. valid_message py e" using ok by (auto simp: pending_ok_def r(2))
qed

section \<open>Migration\<close>

lemma place_call_cases:
  assumes "place_call pl = (r, pl')"
  obtains io where "pl' = pl\<lparr>place_io := io\<rparr>" "set io \<subseteq> set (place_io pl)" "r = Inr () \<or> r = Inl OutboxError"
proof (cases "place_io pl")
  case Nil
  with assms show ?thesis by (intro that [of "place_io pl"]) (auto simp: place_call_def)
next
  case (Cons i rest)
  with assms show ?thesis by (intro that [of rest]) (auto simp: place_call_def split: if_splits)
qed

lemma sync_parent_cases:
  assumes "sync_parent pl = (r, pl')"
  obtains io where "pl' = pl\<lparr>place_io := io\<rparr>"
proof (cases "place_io pl")
  case Nil
  with assms show ?thesis by (intro that [of "place_io pl"]) (auto simp: sync_parent_def)
next
  case (Cons i rest)
  with assms show ?thesis by (intro that [of rest]) (auto simp: sync_parent_def)
qed

text \<open>
  Installing is atomic: the destination is missing as before, or holds the complete directory.
  Nothing else at the path changes.
\<close>

definition complete_directory :: "python \<Rightarrow> message_envelope list \<Rightarrow> entry \<Rightarrow> bool" where
  "complete_directory py pend x \<longleftrightarrow>
     (\<exists>d lay. x = Directory d \<and> storage_image py lay [] start_cursor d \<and> image_durable lay start_cursor d
        \<and> map snd (after start_cursor lay) = map canon_message pend)"

lemma storage_image_script: "storage_image py lay t c (d\<lparr>io_script := s\<rparr>) = storage_image py lay t c d"
  by (simp add: storage_image_def format_good_def segment_ids_def files_of_def seg_image_def lookup_seg_def)

lemma install_effect:
  assumes py: "python_ok py" and v: "\<forall>e \<in> set pend. valid_message py e" "distinct (map msg_id pend)"
    and len: "length pend < MAX_SEGMENT_ID" and io: "IoUnsupported \<notin> set (place_io pl)"
    and r: "install_storage_atomically py mb mr sidecar pend pl = (r, pl')"
  shows "\<exists>io'. pl' = pl\<lparr>place_io := io'\<rparr> \<and> r \<noteq> Inr ()
    \<or> (\<exists>x. pl' = (put_entry sidecar x pl)\<lparr>place_io := io'\<rparr> \<and> complete_directory py pend x)"
proof -
  obtain r1 pl1 where c1: "place_call pl = (r1, pl1)" by (cases "place_call pl")
  obtain io1 where p1: "pl1 = pl\<lparr>place_io := io1\<rparr>" "set io1 \<subseteq> set (place_io pl)" using place_call_cases [OF c1] by metis
  obtain r2 pl2 where c2: "place_call pl1 = (r2, pl2)" by (cases "place_call pl1")
  obtain io2 where p2: "pl2 = pl\<lparr>place_io := io2\<rparr>" "set io2 \<subseteq> set (place_io pl)"
    using place_call_cases [OF c2] p1 by (metis (no_types, lifting) order_trans place.select_convs(3) place.surjective place.update_convs(3))
  obtain r3 d where b: "build_storage_directory py mb mr pend (empty_disk io2) = (r3, d)"
    by (cases "build_storage_directory py mb mr pend (empty_disk io2)")
  show ?thesis
  proof (cases "r1 = Inr () \<and> r2 = Inr () \<and> r3 = Inr ()")
    case False
    then show ?thesis using r c1 c2 b p1 p2
      by (cases r1; cases r2; cases r3) (auto simp: install_storage_atomically_def andThen_def)
  next
    case True
    then have b': "build_storage_directory py mb mr pend (empty_disk io2) = (Inr (), d)" using b by simp
    from build_storage_effect [OF py v len b'] obtain lay where
      "storage_image py lay [] start_cursor d" "map snd (after start_cursor lay) = map canon_message pend"
      "image_durable lay start_cursor d" using io p2(2) by blast
    then have cd: "complete_directory py pend (Directory (d\<lparr>io_script := []\<rparr>))"
      unfolding complete_directory_def
      by (intro exI [of _ "d\<lparr>io_script := []\<rparr>"] exI [of _ lay])
        (simp add: storage_image_script image_durable_def lookup_seg_def)
    let ?pl = "pl\<lparr>place_io := io_script d\<rparr>"
    obtain r4 pl4 where c4: "place_call ?pl = (r4, pl4)" by (cases "place_call ?pl")
    obtain io4 where p4: "pl4 = pl\<lparr>place_io := io4\<rparr>" using place_call_cases [OF c4] by (metis place.surjective place.update_convs(3))
    obtain r5 pl5 where c5: "sync_parent (put_entry sidecar (Directory (d\<lparr>io_script := []\<rparr>)) pl4) = (r5, pl5)"
      by (cases "sync_parent (put_entry sidecar (Directory (d\<lparr>io_script := []\<rparr>)) pl4)")
    obtain io5 where p5: "pl5 = put_entry sidecar (Directory (d\<lparr>io_script := []\<rparr>)) pl4\<lparr>place_io := io5\<rparr>"
      using sync_parent_cases [OF c5] .
    show ?thesis
    proof (cases r4)
      case (Inl e)
      then show ?thesis using r c1 c2 b True p1 p2 c4 p4
        by (auto simp: install_storage_atomically_def andThen_def)
    next
      case (Inr u)
      then have "pl' = pl5" using r c1 c2 b True p1 p2 c4 c5
        by (auto simp: install_storage_atomically_def andThen_def)
      then have "pl' = (put_entry sidecar (Directory (d\<lparr>io_script := []\<rparr>)) pl)\<lparr>place_io := io5\<rparr>"
        unfolding p5 p4 by (simp add: put_entry_def)
      with cd show ?thesis by blast
    qed
  qed
qed

end
