(* ===== verification/OutboxLedger.thy ===== *)
theory OutboxLedger
  imports OutboxQueue
begin

text \<open>
  What the operations of the Outbox leave for later: the flag of an unsynced append and the
  messages removed only in memory. An operation that fails never adds to either.
\<close>

definition acks_kept :: "outbox \<Rightarrow> outbox \<Rightarrow> bool" where
  "acks_kept ob ob' \<longleftrightarrow> volatile_completed_ids ob' \<subseteq> volatile_completed_ids ob
     \<and> (checkpoint_generation ob' \<noteq> checkpoint_generation ob \<longrightarrow> volatile_completed_ids ob' = {})"

definition ledger :: "outbox \<Rightarrow> outbox \<Rightarrow> bool" where
  "ledger ob ob' \<longleftrightarrow> (data_sync_pending ob' \<longrightarrow> data_sync_pending ob) \<and> acks_kept ob ob'"

lemma acks_kept_trans: "acks_kept a b \<Longrightarrow> acks_kept b c \<Longrightarrow> acks_kept a c"
  unfolding acks_kept_def by (metis order_trans subset_empty)

lemma acks_kept_same:
  "volatile_completed_ids ob' = volatile_completed_ids ob \<Longrightarrow>
     checkpoint_generation ob' = checkpoint_generation ob \<Longrightarrow> acks_kept ob ob'"
  by (simp add: acks_kept_def)

lemma ledger_refl [simp]: "ledger ob ob"
  by (simp add: ledger_def acks_kept_def)

lemma ledger_trans: "ledger a b \<Longrightarrow> ledger b c \<Longrightarrow> ledger a c"
  using acks_kept_trans by (auto simp: ledger_def)

lemma ledger_disk [simp]: "ledger ob (ob\<lparr>disk := d\<rparr>)"
  by (simp add: ledger_def acks_kept_def)

lemma ledger_on_disk: "on_disk m ob = (r, ob') \<Longrightarrow> ledger ob ob'"
  by (elim on_disk_cases) simp

lemma ledger_sync: "sync_data_locked ob = (r, ob') \<Longrightarrow> ledger ob ob'
    \<and> volatile_completed_ids ob' = volatile_completed_ids ob
    \<and> checkpoint_generation ob' = checkpoint_generation ob \<and> (r = Inr () \<longrightarrow> \<not> data_sync_pending ob')"
  by (auto simp: sync_data_locked_def andThen_def modify_def ledger_def acks_kept_def on_disk_def
      split: if_splits prod.splits sum.splits)

lemma ledger_rotate:
  assumes r: "rotate_locked ob = (r, ob')"
  shows "ledger ob ob'"
proof -
  obtain r0 ob0 where s: "sync_data_locked ob = (r0, ob0)" by (cases "sync_data_locked ob")
  obtain r1 ob1 where i: "on_disk (install_segment_file (active_id ob0 + 1)) ob0 = (r1, ob1)"
    by (cases "on_disk (install_segment_file (active_id ob0 + 1)) ob0")
  have "ledger ob0 ob'"
    if "r0 = Inr u" for u
    using r s i that ledger_on_disk [OF i]
    by (cases r1) (auto simp: rotate_locked_def andThen_def modify_def Let_def ledger_def acks_kept_def split: if_splits)
  then show ?thesis using ledger_sync [OF s] r s
    by (cases r0) (auto simp: rotate_locked_def andThen_def intro: ledger_trans)
qed

lemma ledger_rotate_if_needed: "rotate_if_needed n ob = (r, ob') \<Longrightarrow> ledger ob ob'"
  by (auto simp: rotate_if_needed_def andThen_def split: if_splits prod.splits sum.splits
      dest: ledger_rotate)

lemma ledger_persist: "persist_checkpoint_locked py c ob = (r, ob') \<Longrightarrow>
    (r \<noteq> Inr () \<longrightarrow> ledger ob ob') \<and> volatile_completed_ids ob' = volatile_completed_ids ob
    \<and> data_sync_pending ob' = data_sync_pending ob"
  by (auto simp: persist_checkpoint_locked_def andThen_def modify_def Let_def on_disk_def ledger_def acks_kept_def
      split: prod.splits sum.splits)

lemma unlink_each_fields:
  "data_sync_pending (snd (unlink_each sids ob)) = data_sync_pending ob
   \<and> volatile_completed_ids (snd (unlink_each sids ob)) = volatile_completed_ids ob"
  by (induction sids ob rule: unlink_each.induct) (auto split: prod.splits sum.splits)

lemma cleanup_fields [simp]:
  "data_sync_pending (cleanup_completed_segments_locked ob) = data_sync_pending ob"
  "volatile_completed_ids (cleanup_completed_segments_locked ob) = volatile_completed_ids ob"
  using unlink_each_fields
  by (auto simp: cleanup_completed_segments_locked_def Let_def split: prod.splits) (metis snd_conv)+

lemma ledger_checkpoint:
  assumes "checkpoint py ob = (r, ob')"
  shows "ledger ob ob' \<and> (r = Inr () \<longrightarrow> \<not> data_sync_pending ob' \<and> volatile_completed_ids ob' = {})"
proof -
  obtain r0 ob0 where s: "sync_data_locked ob = (r0, ob0)" by (cases "sync_data_locked ob")
  note l0 = ledger_sync [OF s]
  obtain r1 ob1 where p: "persist_checkpoint_locked py (normalized_volatile_cursor_locked ob0) ob0 = (r1, ob1)"
    by (cases "persist_checkpoint_locked py (normalized_volatile_cursor_locked ob0) ob0")
  note l1 = ledger_persist [OF p]
  from assms s p l0 l1 show ?thesis
    by (cases r0; cases r1) (auto simp: checkpoint_def andThen_def modify_def Let_def ledger_def acks_kept_def split: if_splits)
qed

lemma ledger_read: "read_envelope_locked py x ob = (r, ob') \<Longrightarrow> \<exists>d. ob' = ob\<lparr>disk := d\<rparr>"
  by (auto simp: read_envelope_locked_def andThen_def Let_def on_disk_def
      split: prod.splits sum.splits option.splits if_splits)

lemma ledger_write_chunk:
  assumes "write_chunk_locked chunk sync ob = (r, ob')"
  shows "if r = Inr () then data_sync_pending ob' = (\<not> sync)
           \<and> acks_kept ob ob'
         else ledger ob ob' \<and> pending ob' = pending ob"
  using assms
  by (auto simp: write_chunk_locked_def andThen_def modify_def record_chunk_def Let_def on_disk_def ledger_def acks_kept_def
      split: prod.splits sum.splits)

text \<open>Appending a single framed envelope.\<close>

lemma append_loop_single:
  assumes inv: "outbox_inv py lay ob" and r: "append_loop 3 sync [x] no_append ob = (r, ob')"
  shows "case r of Inl _ \<Rightarrow> ledger ob ob' \<and> pending ob' = pending ob
    | Inr res \<Rightarrow> appended_count res = 1 \<and> data_sync_pending ob' = (\<not> sync) \<and> acks_kept ob ob'"
proof -
  obtain r1 ob1 where rot: "rotate_if_needed (length (snd x)) ob = (r1, ob1)"
    by (cases "rotate_if_needed (length (snd x)) ob")
  note l1 = ledger_rotate_if_needed [OF rot]
  have pe: "pending ob1 = pending ob"
    using rotate_if_needed_effect [OF inv rot] by (auto simp: same_queue_def)
  have three: "(3::nat) = Suc (Suc (Suc 0))" by simp
  show ?thesis
  proof (cases r1)
    case (Inl e)
    with r rot l1 pe show ?thesis unfolding three by (auto simp: andThen_def)
  next
    case (Inr b)
    from rotate_if_needed_effect [OF inv rot] Inr obtain lay' where
      "outbox_inv py lay' ob1" "\<not> would_rotate_locked ob1 (length (snd x))" by auto
    then have "next_chunk ob1 [x] \<noteq> []"
      by (intro next_chunk_nonempty) (auto simp: outbox_inv_def memory_inv_def)
    with next_chunk_prefix [of ob1 "[x]"] have c: "next_chunk ob1 [x] = [x]"
      by (cases "length (next_chunk ob1 [x])") auto
    obtain r2 ob2 where w: "write_chunk_locked [x] sync ob1 = (r2, ob2)"
      by (cases "write_chunk_locked [x] sync ob1")
    have k1: "acks_kept ob ob1" using l1 by (simp add: ledger_def)
    have "if r2 = Inr () then data_sync_pending ob2 = (\<not> sync) \<and> acks_kept ob ob2 else ledger ob ob2 \<and> pending ob2 = pending ob"
      using ledger_write_chunk [OF w] acks_kept_trans [OF k1, of ob2] ledger_trans [OF l1, of ob2] pe
      by (cases "r2 = Inr ()") simp_all
    with r rot Inr c w show ?thesis unfolding three
      by (cases r2) (auto simp: andThen_def get_state_def Let_def no_append_def)
  qed
qed

lemma outbox_append_ledger:
  assumes py: "python_ok py" and inv: "outbox_inv py lay ob" and v: "valid_message py e"
    and r: "outbox_append py e sync ob = (r, ob')"
  shows "case r of Inr True \<Rightarrow> data_sync_pending ob' = (\<not> sync) \<and> acks_kept ob ob'
          | _ \<Rightarrow> ledger ob ob' \<and> pending ob' = pending ob"
proof (cases "pending_by_id ob (msg_id e)")
  case (Some x)
  with r show ?thesis by (auto simp: outbox_append_def)
next
  case None
  obtain r0 ob0 where c: "(if list_ex (\<lambda>e. msg_id e \<in> volatile_completed_ids ob) [e]
      then checkpoint py ob else ret () ob) = (r0, ob0)" by fastforce
  have l0: "ledger ob ob0" using c by (auto split: if_splits dest: ledger_checkpoint)
  have i0: "\<exists>lay0. outbox_inv py lay0 ob0 \<and> pending_by_id ob0 = pending_by_id ob
      \<and> pending ob0 = pending ob"
    using c inv checkpoint_effect [OF inv] by (fastforce split: if_splits)
  show ?thesis
  proof (cases r0)
    case (Inl x)
    with r None c l0 i0 show ?thesis
      by (auto simp: outbox_append_def append_many_locked_def andThen_def split: if_splits)
  next
    case (Inr u)
    obtain r1 ob1 where p: "prepare_batch py [e] Map.empty ob0 = (r1, ob1)"
      by (cases "prepare_batch py [e] Map.empty ob0")
    from i0 obtain lay0 where inv0: "outbox_inv py lay0 ob0" and pb: "pending_by_id ob0 (msg_id e) = None"
      and pe: "pending ob0 = pending ob" using None by auto
    have eq: "ob1 = ob0" "\<And>un. r1 = Inr un \<Longrightarrow> \<exists>x. un = [x]"
      using p pb by (auto simp: andThen_def get_state_def split: sum.splits)
    show ?thesis
    proof (cases r1)
      case (Inl x)
      with r None c Inr p eq l0 pe show ?thesis
        by (auto simp: outbox_append_def append_many_locked_def andThen_def split: if_splits)
    next
      case un: (Inr un)
      then obtain x where x: "un = [x]" using eq(2) by blast
      obtain r2 ob2 where a: "append_loop 3 sync [x] no_append ob0 = (r2, ob2)"
        by (cases "append_loop 3 sync [x] no_append ob0")
      have "outbox_append py e sync ob = (case r2 of Inl e \<Rightarrow> Inl e | Inr res \<Rightarrow> Inr (appended_count res = 1), ob2)"
        using None c Inr p un x eq(1) a
        by (simp add: outbox_append_def append_many_locked_def andThen_def numeral_3_eq_3
            del: prepare_batch.simps append_loop.simps split: sum.splits)
      moreover have "acks_kept ob ob0" using l0 by (simp add: ledger_def)
      ultimately show ?thesis
        using r append_loop_single [OF inv0 a] ledger_trans [OF l0, of ob'] acks_kept_trans [of ob ob0 ob'] pe
        by (cases r2) auto
    qed
  qed
qed

lemma remove_oldest_ledger:
  assumes "remove_oldest py e False ob = (r, ob')"
  shows "if r = Inr True then data_sync_pending ob' = data_sync_pending ob else ledger ob ob'"
  using assms
  by (auto simp: remove_oldest_def andThen_def modify_def pop_head_def Let_def
      split: list.splits if_splits prod.splits sum.splits dest!: ledger_read)


end
