(* ===== verification/Fifo.thy ===== *)
theory Fifo
  imports Prelude
begin

text \<open>
  The contract between a store of messages and its clients: an offer that is accepted adds the
  message at the end, a removal that succeeds takes the head, nothing else changes the queue.
  Whatever the order of the calls and whichever of them fail, every message leaves in the order
  it was accepted.
\<close>

datatype 'm fifo_cmd = Offer 'm | TakeHead 'm

text \<open>
  A run collects the accepted messages, the removed ones and the final state. \<open>norm\<close> is the form
  in which the store keeps a message.
\<close>

fun run_fifo ::
  "('m \<Rightarrow> 'm) \<Rightarrow> ('s \<Rightarrow> 'm list) \<Rightarrow> ('m \<Rightarrow> ('s, bool) proc) \<Rightarrow> ('m \<Rightarrow> ('s, bool) proc)
     \<Rightarrow> 'm fifo_cmd list \<Rightarrow> 's \<Rightarrow> 'm list \<times> 'm list \<times> 's"
where
  "run_fifo norm q offer remove [] s = ([], [], s)"
| "run_fifo norm q offer remove (Offer m # cs) s =
     (case offer m s of (r, s') \<Rightarrow>
        (case run_fifo norm q offer remove cs s' of (acc, rem, t) \<Rightarrow>
           ((if r = Inr True then [norm m] else []) @ acc, rem, t)))"
| "run_fifo norm q offer remove (TakeHead m # cs) s =
     (case remove m s of (r, s') \<Rightarrow>
        (case run_fifo norm q offer remove cs s' of (acc, rem, t) \<Rightarrow>
           (acc, (if r = Inr True then [hd (q s)] else []) @ rem, t)))"

fun offered :: "'m fifo_cmd list \<Rightarrow> 'm list" where
  "offered [] = []"
| "offered (Offer m # cs) = m # offered cs"
| "offered (TakeHead m # cs) = offered cs"

locale fifo_store =
  fixes inv :: "'s \<Rightarrow> bool"
    and q :: "'s \<Rightarrow> 'm list"
    and norm :: "'m \<Rightarrow> 'm"
    and admissible :: "'m \<Rightarrow> bool"
    and offer :: "'m \<Rightarrow> ('s, bool) proc"
    and remove :: "'m \<Rightarrow> ('s, bool) proc"
  assumes offer_inv: "inv s \<Longrightarrow> admissible m \<Longrightarrow> offer m s = (r, s') \<Longrightarrow> inv s'"
    and offer_queue: "inv s \<Longrightarrow> admissible m \<Longrightarrow> offer m s = (r, s') \<Longrightarrow>
      q s' = q s @ (if r = Inr True then [norm m] else [])"
    and remove_inv: "inv s \<Longrightarrow> remove m s = (r, s') \<Longrightarrow> inv s'"
    and remove_queue: "inv s \<Longrightarrow> remove m s = (r, s') \<Longrightarrow>
      q s = (if r = Inr True then [hd (q s)] else []) @ q s'"
begin

lemma run_inv:
  "inv s \<Longrightarrow> list_all admissible (offered cs) \<Longrightarrow> run_fifo norm q offer remove cs s = (acc, rem, t) \<Longrightarrow> inv t"
proof (induction cs arbitrary: s acc rem t)
  case (Cons c cs)
  then show ?case
    by (cases c) (auto split: prod.splits dest: offer_inv remove_inv)
qed simp

text \<open>Conservation: what was queued and accepted is what was removed and is still queued, in order.\<close>

lemma conservation:
  "inv s \<Longrightarrow> list_all admissible (offered cs) \<Longrightarrow> run_fifo norm q offer remove cs s = (acc, rem, t) \<Longrightarrow>
     q s @ acc = rem @ q t"
proof (induction cs arbitrary: s acc rem t)
  case (Cons c cs)
  show ?case
  proof (cases c)
    case (Offer m)
    obtain r s' where o: "offer m s = (r, s')" by (cases "offer m s")
    obtain acc' rem' t' where run: "run_fifo norm q offer remove cs s' = (acc', rem', t')"
      by (cases "run_fifo norm q offer remove cs s'")
    have adm: "admissible m" "list_all admissible (offered cs)" using Cons.prems(2) Offer by auto
    have "q s' @ acc' = rem' @ q t'"
      by (rule Cons.IH [OF offer_inv [OF Cons.prems(1) adm(1) o] adm(2) run])
    with offer_queue [OF Cons.prems(1) adm(1) o] Cons.prems(3) Offer o run show ?thesis by auto
  next
    case (TakeHead m)
    obtain r s' where o: "remove m s = (r, s')" by (cases "remove m s")
    obtain acc' rem' t' where run: "run_fifo norm q offer remove cs s' = (acc', rem', t')"
      by (cases "run_fifo norm q offer remove cs s'")
    have adm: "list_all admissible (offered cs)" using Cons.prems(2) TakeHead by auto
    have "q s' @ acc' = rem' @ q t'"
      by (rule Cons.IH [OF remove_inv [OF Cons.prems(1) o] adm run])
    moreover have "q s = (if r = Inr True then [hd (q s)] else []) @ q s'"
      by (rule remove_queue [OF Cons.prems(1) o])
    moreover have "acc = acc'" "rem = (if r = Inr True then [hd (q s)] else []) @ rem'" "t = t'"
      using Cons.prems(3) TakeHead o run by auto
    ultimately show ?thesis by (metis (no_types, lifting) append.assoc)
  qed
qed simp

end

end
