(* ===== verification/OutboxFifo.thy ===== *)
theory OutboxFifo
  imports OutboxLedger Fifo
begin

text \<open>The Outbox is a store of messages in the sense of theory Fifo, whatever the sync flags.\<close>

lemma contents_pending: "outbox_inv py lay ob \<Longrightarrow> map msg_id (contents_of lay ob) = map st_id (pending ob)"
proof -
  assume "outbox_inv py lay ob"
  then have m: "layout_ok py lay" "pending ob = map fst (after (volatile_cursor ob) lay)"
    by (auto simp: outbox_inv_def memory_inv_def)
  have "msg_id e = st_id x" if "(x, e) \<in> set (after (volatile_cursor ob) lay)" for x e
    using items_encode [OF m(1), of x e] after_subset [of "volatile_cursor ob" lay] that by auto
  then show ?thesis by (auto simp: m(2) contents_of_def)
qed

text \<open>One envelope: accepted and last in the queue, or nothing happens to the queue.\<close>

lemma outbox_append_effect:
  assumes py: "python_ok py" and inv: "outbox_inv py lay ob" and v: "valid_message py e"
    and r: "outbox_append py e sync ob = (r, ob')"
  shows "\<exists>lay'. outbox_inv py lay' ob' \<and> same_limits ob ob'
    \<and> contents_of lay' ob' = contents_of lay ob @ (if r = Inr True then [canon_message e] else [])
    \<and> (r = Inr False \<longrightarrow> msg_id e \<in> set (map msg_id (contents_of lay ob)))
    \<and> (r = Inr True \<and> durable_inv py lay ob \<longrightarrow> durable_inv py lay' ob')"
proof (cases "pending_by_id ob (msg_id e)")
  case (Some x)
  then have "msg_id e \<in> set (map msg_id (contents_of lay ob))" using pending_index(2) [OF inv] by auto
  with Some r inv show ?thesis by (intro exI [of _ lay]) (auto simp: outbox_append_def)
next
  case None
  then have new: "msg_id e \<notin> set (map msg_id (contents_of lay ob))" using pending_index(2) [OF inv] by auto
  obtain r1 ob1 where a: "append_many py [e] sync ob = (r1, ob1)" by (cases "append_many py [e] sync ob")
  have res: "ob' = ob1" "r = (case r1 of Inl e \<Rightarrow> Inl e | Inr res \<Rightarrow> Inr (appended_count res = 1))"
    using r None a by (auto simp: outbox_append_def append_many_def andThen_def split: sum.splits)
  from append_many_effect [OF py inv _ a] v obtain k lay' where
    o: "append_outcome py [e] sync lay ob r1 k lay' ob1" by auto
  have news: "new_messages (set (map msg_id (contents_of lay ob))) [e] = [e]" using new by simp
  show ?thesis
  proof (cases r1)
    case (Inr rs)
    with o news res show ?thesis by (intro exI [of _ lay']) (auto simp: append_outcome_def Let_def)
  next
    case (Inl x)
    with res have "r = Inl x" by simp
    with outbox_append_ledger [OF py inv v r] have "pending ob' = pending ob" by simp
    moreover have i: "outbox_inv py lay' ob'" using o res by (simp add: append_outcome_def Let_def)
    ultimately have "length (contents_of lay' ob') = length (contents_of lay ob)"
      using contents_pending [OF i] contents_pending [OF inv] by (metis length_map)
    with o news res Inl i show ?thesis
      by (intro exI [of _ lay']) (auto simp: append_outcome_def Let_def split: if_splits)
  qed
qed


definition healthy :: "python \<Rightarrow> outbox \<Rightarrow> bool" where
  "healthy py ob \<longleftrightarrow> python_ok py \<and> (\<exists>lay. outbox_inv py lay ob)"

lemma healthy_append:
  assumes "healthy py ob" and "valid_message py e" and "outbox_append py e sync ob = (r, ob')"
  shows "healthy py ob'" "queue py ob' = queue py ob @ (if r = Inr True then [canon_message e] else [])"
proof -
  from assms(1) obtain lay where py: "python_ok py" and lay: "outbox_inv py lay ob" by (auto simp: healthy_def)
  from outbox_append_effect [OF py lay assms(2,3)] queue_contents [OF py] lay py
  show "healthy py ob'" "queue py ob' = queue py ob @ (if r = Inr True then [canon_message e] else [])"
    by (auto simp: healthy_def)
qed

lemma healthy_remove:
  assumes "healthy py ob" and "remove_oldest py e sync ob = (r, ob')"
  shows "healthy py ob'" "queue py ob = (if r = Inr True then [hd (queue py ob)] else []) @ queue py ob'"
proof -
  from assms(1) obtain lay where py: "python_ok py" and lay: "outbox_inv py lay ob" by (auto simp: healthy_def)
  from remove_oldest_effect [OF py lay assms(2)] obtain lay' where
    o: "removal_outcome py e sync lay ob r lay' ob'" by blast
  then have inv': "outbox_inv py lay' ob'" by (simp add: removal_outcome_def)
  then show "healthy py ob'" using py by (auto simp: healthy_def)
  have "contents_of lay ob = (if r = Inr True then [hd (contents_of lay ob)] else []) @ contents_of lay' ob'"
  proof (cases "r = Inr True")
    case True
    with o have "head_matches py (contents_of lay ob) e" "contents_of lay' ob' = tl (contents_of lay ob)"
      by (simp_all add: removal_outcome_def)
    with True show ?thesis by (cases "contents_of lay ob") (auto simp: head_matches_def)
  next
    case False
    with o show ?thesis by (cases r) (auto simp: removal_outcome_def)
  qed
  with queue_contents [OF py lay] queue_contents [OF py inv']
  show "queue py ob = (if r = Inr True then [hd (queue py ob)] else []) @ queue py ob'" by (simp only:)
qed

interpretation outbox_store: fifo_store "healthy py" "queue py" canon_message "valid_message py"
    "\<lambda>e. outbox_append py e sync" "\<lambda>e. remove_oldest py e sync'" for py sync sync'
  by unfold_locales (fact healthy_append healthy_remove)+

end
