(* ===== verification/OutboxClient.thy ===== *)
theory OutboxClient
  imports OutboxFifo OutboxQueue
begin

text \<open>
  What the clients of an Outbox rely on, stated on its queue alone: appending a batch, removing
  the head, syncing and looking up a message, with the errors each can raise.
\<close>

section \<open>Sound Outboxes\<close>

text \<open>
  \<open>healthy\<close>: memory and directory agree. \<open>secure\<close>: moreover a crash can only cost what was
  appended since the last data sync.
\<close>

definition secure :: "python \<Rightarrow> outbox \<Rightarrow> bool" where
  "secure py ob \<longleftrightarrow> python_ok py \<and> (\<exists>lay. outbox_inv py lay ob \<and> durable_inv py lay ob)"

lemma secure_healthy: "secure py ob \<Longrightarrow> healthy py ob"
  by (auto simp: secure_def healthy_def)

lemma secureE:
  assumes "secure py ob"
  obtains lay where "python_ok py" "outbox_inv py lay ob" "durable_inv py lay ob" "queue py ob = contents_of lay ob"
  using assms queue_contents by (auto simp: secure_def)

lemma healthyE:
  assumes "healthy py ob"
  obtains lay where "python_ok py" "outbox_inv py lay ob" "queue py ob = contents_of lay ob"
  using assms queue_contents by (auto simp: healthy_def)

lemma healthy_python: "healthy py ob \<Longrightarrow> python_ok py"
  by (simp add: healthy_def)

section \<open>The queue itself\<close>

lemma queue_items:
  assumes "healthy py ob" and "e \<in> set (queue py ob)"
  shows "valid_message py e" and "\<exists>b. encode_message py e = Inr b"
proof -
  from assms(1) obtain lay where l: "python_ok py" "outbox_inv py lay ob" "queue py ob = contents_of lay ob"
    by (rule healthyE)
  then have "layout_ok py lay" by (simp add: outbox_inv_def memory_inv_def)
  moreover obtain x where "(x, e) \<in> set (items lay)"
    using assms(2) l(3) after_subset [of "volatile_cursor ob" lay] by (auto simp: contents_of_def)
  ultimately show "valid_message py e" "\<exists>b. encode_message py e = Inr b" using items_encode by blast+
qed

lemma queue_distinct: "healthy py ob \<Longrightarrow> distinct (map msg_id (queue py ob))"
proof -
  assume "healthy py ob"
  then obtain lay where l: "python_ok py" "outbox_inv py lay ob" "queue py ob = contents_of lay ob"
    by (rule healthyE)
  then have m: "memory_inv py lay ob" and ok: "layout_ok py lay" by (auto simp: outbox_inv_def memory_inv_def)
  then have "distinct (ids_after (volatile_cursor ob) lay)" using ids_after_le by (auto simp: memory_inv_def)
  moreover have "ids_after (volatile_cursor ob) lay = map msg_id (contents_of lay ob)"
    using items_encode [OF ok] after_subset [of "volatile_cursor ob" lay] by (auto simp: ids_after_def contents_of_def)
  ultimately show ?thesis using l(3) by simp
qed

section \<open>Operations\<close>

lemma healthy_append_many:
  assumes "healthy py ob" and "\<forall>e \<in> set batch. valid_message py e" and "append_many py batch sync ob = (r, ob')"
  defines "news \<equiv> map canon_message (new_messages (set (map msg_id (queue py ob))) batch)"
  shows "healthy py ob'
    \<and> (\<exists>k \<le> length news. queue py ob' = queue py ob @ take k news
         \<and> (\<forall>res. r = Inr res \<longrightarrow> k = length news \<and> appended_count res = length news
              \<and> (\<forall>e \<in> set batch. agrees py (queue py ob) (msg_id e) (encode_message py e))
              \<and> (sync \<longrightarrow> \<not> data_sync_pending ob') \<and> (secure py ob \<longrightarrow> secure py ob')))
    \<and> (\<forall>x. r = Inl x \<longrightarrow> x = OutboxError \<or> (\<exists>e \<in> set batch. encode_message py e = Inl x))"
proof (cases "secure py ob")
  case True
  then obtain lay where l: "python_ok py" "outbox_inv py lay ob" "durable_inv py lay ob"
    "queue py ob = contents_of lay ob" by (rule secureE)
  from append_many_effect [OF l(1,2) assms(2,3)] obtain k lay' where
    o: "append_outcome py batch sync lay ob r k lay' ob'" by blast
  then have "outbox_inv py lay' ob'" by (simp add: append_outcome_def Let_def)
  with o l queue_contents [OF l(1) this] show ?thesis
    by (auto simp: append_outcome_def Let_def news_def healthy_def secure_def intro!: exI [of _ k])
next
  case False
  from assms(1) obtain lay where l: "python_ok py" "outbox_inv py lay ob" "queue py ob = contents_of lay ob"
    by (rule healthyE)
  from append_many_effect [OF l(1,2) assms(2,3)] obtain k lay' where
    o: "append_outcome py batch sync lay ob r k lay' ob'" by blast
  then have "outbox_inv py lay' ob'" by (simp add: append_outcome_def Let_def)
  with o l queue_contents [OF l(1) this] False show ?thesis
    by (auto simp: append_outcome_def Let_def news_def healthy_def intro!: exI [of _ k])
qed

lemma healthy_sync:
  assumes "healthy py ob" and "outbox_sync ob = (r, ob')"
  shows "healthy py ob' \<and> queue py ob' = queue py ob \<and> (r = Inr () \<or> r = Inl OutboxError)
    \<and> (r = Inr () \<longrightarrow> \<not> data_sync_pending ob') \<and> (secure py ob \<longrightarrow> secure py ob')"
proof -
  have s: "sync_data_locked ob = (r, ob')" using assms(2) by (simp add: outbox_sync_def)
  have e: "outbox_inv py lay ob' \<and> contents_of lay ob' = contents_of lay ob \<and> (r = Inr () \<or> r = Inl OutboxError)
      \<and> (r = Inr () \<longrightarrow> \<not> data_sync_pending ob') \<and> (durable_inv py lay ob \<longrightarrow> durable_inv py lay ob')"
    if "outbox_inv py lay ob" for lay
    using sync_effect [OF that s] sync_only_inv [OF that] sync_only_contents by blast
  from assms(1) obtain lay where l: "python_ok py" "outbox_inv py lay ob" "queue py ob = contents_of lay ob"
    by (rule healthyE)
  note el = e [OF l(2)]
  have "queue py ob' = contents_of lay ob'" using queue_contents [OF l(1)] el by blast
  moreover have "secure py ob \<longrightarrow> secure py ob'" using e unfolding secure_def by blast
  moreover have "healthy py ob'" using l(1) el by (auto simp: healthy_def)
  ultimately show ?thesis using el l(3) by auto
qed

lemma quiet_client:
  assumes "healthy py ob" and "quiet (disk ob) d"
  shows "healthy py (ob\<lparr>disk := d\<rparr>)" "queue py (ob\<lparr>disk := d\<rparr>) = queue py ob"
    "secure py ob \<longrightarrow> secure py (ob\<lparr>disk := d\<rparr>)"
proof -
  from assms(1) obtain lay where l: "python_ok py" "outbox_inv py lay ob" "queue py ob = contents_of lay ob"
    by (rule healthyE)
  note i = outbox_inv_quiet [OF l(2) assms(2)]
  then show "healthy py (ob\<lparr>disk := d\<rparr>)" using l(1) by (auto simp: healthy_def)
  show "queue py (ob\<lparr>disk := d\<rparr>) = queue py ob"
    using queue_contents [OF l(1) i] l(3) by (simp add: contents_of_def)
  show "secure py ob \<longrightarrow> secure py (ob\<lparr>disk := d\<rparr>)"
    unfolding secure_def using outbox_inv_quiet durable_quiet assms(2) by blast
qed

text \<open>A lookup reads the message with the id, if there is one, or raises.\<close>

lemma healthy_get:
  assumes "healthy py ob" and "outbox_get py i ob = (r, ob')"
  shows "(\<exists>d. quiet (disk ob) d \<and> ob' = ob\<lparr>disk := d\<rparr>)
    \<and> (\<forall>v. r = Inr v \<longrightarrow> (case v of None \<Rightarrow> i \<notin> set (map msg_id (queue py ob))
         | Some e \<Rightarrow> e \<in> set (queue py ob) \<and> msg_id e = i))
    \<and> (\<forall>x. r = Inl x \<longrightarrow> x = OutboxError \<or> \<not> message_id_pattern i \<and> x = ProtocolError)"
proof -
  from assms(1) obtain lay where l: "python_ok py" "outbox_inv py lay ob" "queue py ob = contents_of lay ob"
    by (rule healthyE)
  have same: "\<exists>d. quiet (disk ob) d \<and> ob = ob\<lparr>disk := d\<rparr>" by (intro exI [of _ "disk ob"]) simp
  show ?thesis
  proof (cases "message_id_pattern i")
    case False
    with assms(2) have "r = Inl ProtocolError" "ob' = ob"
      by (simp_all add: outbox_get_def validate_message_id_def andThen_def)
    with False same show ?thesis by simp
  next
    case pat: True
    show ?thesis
    proof (cases "pending_by_id ob i")
      case None
      with assms(2) pat have "r = Inr None" "ob' = ob"
        by (simp_all add: outbox_get_def validate_message_id_def andThen_def)
      with same None pending_index(2) [OF l(2)] l(3) show ?thesis by auto
    next
      case (Some x)
      from pending_index(1) [OF l(2) Some] obtain e where
        e: "(x, e) \<in> set (after (volatile_cursor ob) lay)" "msg_id e = i" by blast
      then have mem: "(x, e) \<in> set (items lay)" using after_subset by blast
      obtain r1 ob1 where rd: "read_envelope_locked py x ob = (r1, ob1)" by (cases "read_envelope_locked py x ob")
      have q: "\<exists>d. quiet (disk ob) d \<and> ob1 = ob\<lparr>disk := d\<rparr>" "r1 = Inr e \<or> r1 = Inl OutboxError"
        using read_envelope [OF l(1,2) mem] rd by (auto simp: reading_def)
      have res: "ob' = ob1" "r = (case r1 of Inl y \<Rightarrow> Inl y | Inr y \<Rightarrow> Inr (Some y))"
        using assms(2) pat Some rd
        by (auto simp: outbox_get_def validate_message_id_def andThen_def split: sum.splits)
      have "e \<in> set (queue py ob)" using e(1) l(3) by (force simp: contents_of_def)
      then show ?thesis using q res e(2) by auto
    qed
  qed
qed

lemma healthy_remove_head:
  assumes "healthy py ob" and "remove_oldest py expected sync ob = (r, ob')"
  shows "healthy py ob'
    \<and> (r = Inr True \<longrightarrow> head_matches py (queue py ob) expected \<and> queue py ob' = tl (queue py ob))
    \<and> (r = Inr False \<longrightarrow> \<not> head_matches py (queue py ob) expected \<and> queue py ob' = queue py ob)
    \<and> (\<forall>x. r = Inl x \<longrightarrow> queue py ob' = queue py ob
         \<and> (x = OutboxError \<or> encode_message py expected = Inl x))"
proof -
  from assms(1) obtain lay where l: "python_ok py" "outbox_inv py lay ob" "queue py ob = contents_of lay ob"
    by (rule healthyE)
  from remove_oldest_effect [OF l(1,2) assms(2)] obtain lay' where
    o: "removal_outcome py expected sync lay ob r lay' ob'" by blast
  then have inv': "outbox_inv py lay' ob'" by (simp add: removal_outcome_def)
  with o l queue_contents [OF l(1) inv'] show ?thesis by (auto simp: removal_outcome_def healthy_def)
qed

end
