(* ===== verification/OutboxSamples.thy ===== *)
theory OutboxSamples
  imports OutboxCrash StorageFacts OutboxClient Samples
begin

text \<open>
  A concrete sound Outbox for the witnesses: created on an empty directory with one message,
  closed and opened. Every file on its disk has synced at most what it holds.
\<close>

section \<open>A sample\<close>

lemma open_image:
  assumes py: "python_ok py" and im: "storage_image py lay torn c d" "image_durable lay c d"
    and io: "io_script d = []" and lim: "0 < max_bytes" "0 < max_records"
  obtains ob where "outbox_open py depth max_bytes max_records d = (Inr ob, disk ob)" "secure py ob"
    "queue py ob = map snd (after c lay)" "volatile_completed_ids ob = {}" "\<not> data_sync_pending ob"
proof -
  obtain r ob where o: "open_storage py depth (new_outbox max_bytes max_records d) = (r, ob)"
    by (cases "open_storage py depth (new_outbox max_bytes max_records d)")
  have "r = Inr () \<and> opened py lay c ob \<and> durable_inv py lay ob"
    using open_storage_effect [OF py _ _ _ _ o, of lay torn c] im io lim by (auto simp: new_outbox_def)
  moreover from this have "queue py ob = map snd (after c lay)"
    using queue_contents [OF py] by (auto simp: opened_def)
  ultimately show ?thesis
    using o py by (intro that [of ob]) (auto simp: outbox_open_def opened_def secure_def)
qed

lemma build_no_failure:
  assumes "raised (format_text py) = False" and "raised (checkpoint_text py 0 start_cursor) = False"
    and "encode_message py e = Inr b" and "length b \<le> MAX_RECORD_BYTES"
  shows "\<exists>d. build_storage_directory py mb mr [e] (empty_disk []) = (Inr (), d) \<and> io_script d = []"
proof -
  obtain fb cb where t: "format_text py = Inr fb" "checkpoint_text py 0 start_cursor = Inr cb"
    using assms(1,2) by (cases "format_text py"; cases "checkpoint_text py 0 start_cursor") auto
  obtain f where f: "encode_frame b = Inr f" using assms(4) by (simp add: encode_frame_def)
  have w: "write_temporary d = (Inr (), d)" "fsync_directory d = (Inr (), settle d)" if "io_script d = []" for d
    using that by (simp_all add: write_temporary_def andThen_def os_call_def next_io_def fsync_directory_def)
  show ?thesis
    using t assms(3) f
    by (simp add: build_storage_directory_def andThen_def write_format_def write_checkpoint_def
        write_built_segment_def Let_def update_seg_def empty_disk_def settle_def w)
qed

definition sample_disk :: disk where
  "sample_disk = snd (build_storage_directory sample_python 4096 10 [sample_message] (empty_disk []))"

definition with_script :: "io list \<Rightarrow> outbox \<Rightarrow> outbox" where
  "with_script script ob = ob\<lparr>disk := (disk ob)\<lparr>io_script := script\<rparr>\<rparr>"

definition sample_outbox :: outbox where
  "sample_outbox = with_script [] (case outbox_open sample_python 3 4096 10 sample_disk of (Inr ob, _) \<Rightarrow> ob)"

lemma with_no_script:
  assumes "secure py ob"
  shows "secure py (with_script [] ob)" "queue py (with_script [] ob) = queue py ob"
proof -
  obtain lay where l: "python_ok py" "outbox_inv py lay ob" "durable_inv py lay ob" "queue py ob = contents_of lay ob"
    using assms by (rule secureE)
  have i: "outbox_inv py lay (with_script [] ob)"
    unfolding with_script_def by (rule outbox_inv_quiet [OF l(2) quiet_no_script])
  moreover have "durable_inv py lay (with_script [] ob)"
    unfolding with_script_def by (rule durable_quiet [OF l(3) quiet_no_script])
  ultimately show "secure py (with_script [] ob)" using l(1) by (auto simp: secure_def)
  show "queue py (with_script [] ob) = queue py ob"
    using queue_contents [OF l(1) i] l(4) by (simp add: contents_of_def with_script_def)
qed

lemma sample_texts:
  "raised (format_text sample_python) = False" "raised (checkpoint_text sample_python 0 start_cursor) = False"
  "length sample_bytes \<le> MAX_RECORD_BYTES"
  by code_simp+

lemma sample_open:
  "\<exists>ob. outbox_open sample_python 3 4096 10 sample_disk = (Inr ob, disk ob) \<and> sample_outbox = with_script [] ob
     \<and> secure sample_python ob \<and> queue sample_python ob = [canon_message sample_message]
     \<and> volatile_completed_ids ob = {} \<and> \<not> data_sync_pending ob"
proof -
  from build_no_failure [OF sample_texts(1,2) sample_encode sample_texts(3), of 4096 10]
  have d: "build_storage_directory sample_python 4096 10 [sample_message] (empty_disk []) = (Inr (), sample_disk)"
    "io_script sample_disk = []" by (auto simp: sample_disk_def)
  from build_storage_effect [OF sample_python_ok _ _ _ d(1)] sample_valid obtain lay where
    im: "storage_image sample_python lay [] start_cursor sample_disk" "image_durable lay start_cursor sample_disk"
    "map snd (after start_cursor lay) = [canon_message sample_message]"
    by (auto simp: MAX_SEGMENT_ID_def)
  from open_image [OF sample_python_ok im(1,2) d(2), of 4096 10 3] obtain ob where
    "outbox_open sample_python 3 4096 10 sample_disk = (Inr ob, disk ob)" "secure sample_python ob"
    "queue sample_python ob = map snd (after start_cursor lay)" "volatile_completed_ids ob = {}"
    "\<not> data_sync_pending ob" by auto
  then show ?thesis by (intro exI [of _ ob]) (simp add: sample_outbox_def im(3))
qed

lemma sample_outbox_facts:
  "secure sample_python sample_outbox" "queue sample_python sample_outbox = [canon_message sample_message]"
  "volatile_completed_ids sample_outbox = {}" "\<not> data_sync_pending sample_outbox"
  "io_script (disk sample_outbox) = []"
proof -
  obtain ob where o: "sample_outbox = with_script [] ob" "secure sample_python ob"
    "queue sample_python ob = [canon_message sample_message]" "volatile_completed_ids ob = {}"
    "\<not> data_sync_pending ob" using sample_open by blast
  show "secure sample_python sample_outbox" "queue sample_python sample_outbox = [canon_message sample_message]"
    using with_no_script [OF o(2)] o(3) unfolding o(1) by simp_all
  show "volatile_completed_ids sample_outbox = {}" "\<not> data_sync_pending sample_outbox"
    "io_script (disk sample_outbox) = []"
    using o(4,5) unfolding o(1) by (simp_all add: with_script_def)
qed

text \<open>An empty one.\<close>

definition empty_outbox :: outbox where
  "empty_outbox = with_script [] (case outbox_open sample_python 3 4096 10
     (snd (build_storage_directory sample_python 4096 10 [] (empty_disk []))) of (Inr ob, _) \<Rightarrow> ob)"

lemma build_empty_no_failure:
  "\<exists>d. build_storage_directory sample_python mb mr [] (empty_disk []) = (Inr (), d) \<and> io_script d = []"
proof -
  obtain fb cb where t: "format_text sample_python = Inr fb" "checkpoint_text sample_python 0 start_cursor = Inr cb"
    using sample_texts(1,2)
    by (cases "format_text sample_python"; cases "checkpoint_text sample_python 0 start_cursor") auto
  have w: "write_temporary d = (Inr (), d)" "fsync_directory d = (Inr (), settle d)" if "io_script d = []" for d
    using that by (simp_all add: write_temporary_def andThen_def os_call_def next_io_def fsync_directory_def)
  show ?thesis
    using t by (simp add: build_storage_directory_def andThen_def write_format_def write_checkpoint_def
        write_built_segment_def Let_def update_seg_def empty_disk_def settle_def w)
qed

lemma empty_outbox_facts: "secure sample_python empty_outbox" "queue sample_python empty_outbox = []"
proof -
  from build_empty_no_failure obtain d where
    d: "build_storage_directory sample_python 4096 10 [] (empty_disk []) = (Inr (), d)" "io_script d = []" by blast
  from build_storage_effect [OF sample_python_ok _ _ _ d(1)] obtain lay where
    im: "storage_image sample_python lay [] start_cursor d" "image_durable lay start_cursor d"
    "map snd (after start_cursor lay) = []"
    by (auto simp: MAX_SEGMENT_ID_def)
  from open_image [OF sample_python_ok im(1,2) d(2), of 4096 10 3] obtain ob where
    ob: "outbox_open sample_python 3 4096 10 d = (Inr ob, disk ob)" "secure sample_python ob"
    "queue sample_python ob = map snd (after start_cursor lay)" by auto
  then have "empty_outbox = with_script [] ob" using d by (simp add: empty_outbox_def)
  with with_no_script [OF ob(2)] ob(3) im(3)
  show "secure sample_python empty_outbox" "queue sample_python empty_outbox = []" by simp_all
qed

section \<open>No file claims more than it holds\<close>

text \<open>The synced part of a file is a part of it, from the moment the storage is opened.\<close>

definition sane :: "disk \<Rightarrow> bool" where
  "sane d \<longleftrightarrow> (\<forall>(sid, f) \<in> set (seg_files d). synced f \<le> length (contents f))"

lemma sane_update: "sane d \<Longrightarrow> synced f \<le> length (contents f) \<Longrightarrow> sane (update_seg sid f d)"
proof -
  have "x \<in> set al \<or> x = (sid, f)" if "x \<in> set (AList.update sid f al)" for x and al :: "(nat \<times> seg_file) list"
    using that by (induction al) (auto split: if_splits)
  then show "sane d \<Longrightarrow> synced f \<le> length (contents f) \<Longrightarrow> sane (update_seg sid f d)"
    by (fastforce simp: sane_def update_seg_def)
qed

lemma sane_lookup: "sane d \<Longrightarrow> lookup_seg sid d = Some f \<Longrightarrow> synced f \<le> length (contents f)"
  by (auto simp: sane_def lookup_seg_def dest: map_of_SomeD)

lemma next_io_sane [simp]: "next_io d = (i, d') \<Longrightarrow> sane d' = sane d"
  using next_io_frame by (simp add: sane_def)

lemma settle_sane [simp]: "sane (settle d) = sane d"
  by (simp add: sane_def settle_def)

lemma keeps_os_call [keeps_intros]: "keeps sane os_call"
  and keeps_fsync_directory [keeps_intros]: "keeps sane fsync_directory"
  and keeps_fsync_ancestor [keeps_intros]: "keeps sane fsync_ancestor"
  by (auto simp: keeps_def os_call_def fsync_directory_def fsync_ancestor_def split: prod.splits io.splits)

lemma keeps_fsync_ancestors [keeps_intros]: "keeps sane (fsync_ancestors n)"
proof (induction n)
  case (Suc n)
  then show ?case unfolding fsync_ancestors.simps by (intro keeps_intros)
qed (simp add: keeps_def)

lemma keeps_fsync_seg [keeps_intros]: "keeps sane (fsync_seg sid)"
proof (rule keepsI)
  fix d assume d: "sane d"
  obtain r d1 where o: "os_call d = (r, d1)" by (cases "os_call d")
  have "sane d1" using keepsD [OF keeps_os_call d o] .
  then show "sane (snd (fsync_seg sid d))"
    using d o by (auto simp: fsync_seg_def andThen_def sane_update split: option.splits sum.splits)
qed

lemma keeps_truncate_seg [keeps_intros]: "keeps sane (truncate_seg sid n)"
proof (rule keepsI)
  fix d assume d: "sane d"
  obtain r d1 where o: "os_call d = (r, d1)" by (cases "os_call d")
  have "sane d1" using keepsD [OF keeps_os_call d o] .
  then show "sane (snd (truncate_seg sid n d))"
    using d o sane_lookup [OF d]
    by (force simp: truncate_seg_def andThen_def intro!: sane_update split: option.splits sum.splits)
qed

lemma keeps_repair [keeps_intros]: "keeps sane (repair_torn_tail sid n)"
  unfolding repair_torn_tail_def by (intro keeps_intros)

definition sane_outbox :: "outbox \<Rightarrow> bool" where
  "sane_outbox ob \<longleftrightarrow> sane (disk ob)"

lemma keeps_on_disk [keeps_intros]: "keeps sane m \<Longrightarrow> keeps sane_outbox (on_disk m)"
  by (fastforce simp: keeps_def sane_outbox_def on_disk_def split: prod.splits)

lemma keeps_modify: "(\<And>ob. disk (f ob) = disk ob) \<Longrightarrow> keeps sane_outbox (modify f)"
  by (simp add: keeps_def modify_def sane_outbox_def)

lemma keeps_snd: "keeps I m \<Longrightarrow> I s \<Longrightarrow> I (snd (m s))"
  by (simp add: keeps_def)

lemma keeps_if: "(\<And>s. keeps I (m s)) \<Longrightarrow> (\<And>s. keeps I (n s)) \<Longrightarrow> keeps I (\<lambda>s. if c s then m s s else n s s)"
  by (simp add: keeps_def)

lemma keeps_sync [keeps_intros]: "keeps sane_outbox sync_data_locked"
  unfolding sync_data_locked_def
  by (intro keeps_if [where m = "\<lambda>_. ret ()"] keeps_intros keeps_modify) simp

lemma keeps_validate [keeps_intros]: "keeps sane_outbox (validate_format_file py)"
proof -
  have "keeps sane_outbox (\<lambda>ob. case fmt_file (disk ob) of None \<Rightarrow> throw OutboxError ob
       | Some bs \<Rightarrow>
           (case read_metadata py bs of
              Inl e \<Rightarrow> throw (if e = UnicodeError \<or> e = JSONDecodeError then OutboxError else e) ob
            | Inr v \<Rightarrow> if supported_format v then ret () ob else throw OutboxError ob))"
    by (auto simp: keeps_def split: option.splits sum.splits)
  then show ?thesis unfolding validate_format_file_def by (intro keeps_intros)
qed

lemma keeps_replay [keeps_intros]: "keeps sane_outbox replay_from_earliest"
  by (simp add: keeps_def replay_from_earliest_def sane_outbox_def)

lemma keeps_read_checkpoint [keeps_intros]: "keeps sane_outbox (read_checkpoint_conservatively py)"
proof -
  have "keeps sane_outbox (\<lambda>ob. case ckpt_file (disk ob) of
         None \<Rightarrow> replay_from_earliest ob
       | Some bs \<Rightarrow>
           (case parse_checkpoint py bs of
              Inr (g, c) \<Rightarrow> ret c (ob\<lparr>checkpoint_generation := g, checkpoint_needs_rewrite := False\<rparr>)
            | Inl e \<Rightarrow>
                if e = UnicodeError \<or> e = JSONDecodeError \<or> e = ValueError
                then replay_from_earliest ob else throw e ob))"
    by (auto simp: keeps_def replay_from_earliest_def sane_outbox_def split: option.splits sum.splits)
  then show ?thesis unfolding read_checkpoint_conservatively_def by (intro keeps_intros)
qed

lemma keeps_scan_segment [keeps_intros]: "keeps sane_outbox (scan_segment py sid active)"
  unfolding scan_segment_def
proof (rule keeps_andThen, rule keeps_on_disk, rule keeps_os_call, rule keepsI)
  fix x ob assume ob: "sane_outbox ob"
  have fin: "sane_outbox (snd (andThen (on_disk m) (\<lambda>_. ret y) ob))" if "keeps sane m"
    for m :: "(disk, unit) proc" and y :: "segment \<times> stored list"
    by (rule keeps_snd [where I = sane_outbox, OF _ ob]) (intro keeps_intros that)
  show "sane_outbox (snd (case lookup_seg sid (disk ob) of None \<Rightarrow> throw OutboxError ob
       | Some f \<Rightarrow>
           (case bindE (check_segment_header sid (contents f))
                   (\<lambda>_. scan_records py sid SEGMENT_HEADER_SIZE (drop SEGMENT_HEADER_SIZE (contents f))) of
              Inl e \<Rightarrow> throw e ob
            | Inr (entries, None) \<Rightarrow>
                andThen (on_disk os_call) (\<lambda>_.
                  ret (\<lparr>byte_size = length (contents f), record_count = length entries\<rparr>, entries)) ob
            | Inr (entries, Some torn_at) \<Rightarrow>
                if \<not> active then throw OutboxError ob
                else andThen (on_disk (repair_torn_tail sid torn_at)) (\<lambda>_.
                       ret (\<lparr>byte_size = torn_at, record_count = length entries\<rparr>, entries)) ob)))"
    using ob fin keeps_os_call keeps_repair
    by (simp split: option.split sum.split prod.split)
qed

lemma keeps_scan_all [keeps_intros]: "keeps sane_outbox (scan_all py active sids)"
proof (induction sids)
  case (Cons sid sids)
  have "keeps sane_outbox (\<lambda>ob. if sid \<in> set (map fst (segments ob)) then throw OutboxError ob
       else andThen (modify (\<lambda>ob. ob\<lparr>segments := AList.update sid s (segments ob)\<rparr>)) (\<lambda>_.
              andThen (scan_all py active sids) (\<lambda>more. ret (entries @ more))) ob)" for s entries
    by (intro keeps_if [where m = "\<lambda>_. throw OutboxError"] keeps_intros keeps_modify Cons.IH) simp
  then show ?case unfolding scan_all.simps case_prod_unfold by (intro keeps_intros)
qed (simp add: keeps_def)

lemma keeps_adopt [keeps_intros]: "keeps sane_outbox (adopt_pending entries c)"
proof (rule keepsI)
  fix ob assume "sane_outbox ob"
  then show "sane_outbox (snd (adopt_pending entries c ob))"
    by (simp add: adopt_pending_def Let_def modify_def sane_outbox_def)
qed

lemma keeps_load [keeps_intros]: "keeps sane_outbox (load_segmented_storage py)"
proof -
  have "keeps sane_outbox (\<lambda>ob. andThen (if checkpoint_known ob entries read_cursor then ret read_cursor
      else replay_from_earliest) (adopt_pending entries) ob)" for entries read_cursor
  proof (rule keepsI)
    fix ob assume ob: "sane_outbox ob"
    show "sane_outbox (snd (andThen (if checkpoint_known ob entries read_cursor then ret read_cursor
      else replay_from_earliest) (adopt_pending entries) ob))"
      by (rule keeps_snd [where I = sane_outbox, OF _ ob], cases "checkpoint_known ob entries read_cursor")
         (simp_all del: ret_apply add: keeps_intros if_True if_False cong del: if_weak_cong)
  qed
  then have "keeps sane_outbox (andThen (scan_all py a ids) (\<lambda>entries.
         andThen (read_checkpoint_conservatively py) (\<lambda>read_cursor ob.
           andThen (if checkpoint_known ob entries read_cursor then ret read_cursor
                    else replay_from_earliest)
             (adopt_pending entries) ob)))" for a ids
    by (intro keeps_intros)
  then have "keeps sane_outbox (\<lambda>ob. if list_ex (\<lambda>sid. sid = 0 \<or> sid > MAX_SEGMENT_ID) (segment_ids (disk ob)) then throw OutboxError ob
       else if segment_ids (disk ob) = [] then throw OutboxError ob
       else
         andThen (scan_all py (last (segment_ids (disk ob))) (segment_ids (disk ob))) (\<lambda>entries.
         andThen (read_checkpoint_conservatively py) (\<lambda>read_cursor ob.
           andThen (if checkpoint_known ob entries read_cursor then ret read_cursor
                    else replay_from_earliest)
             (adopt_pending entries) ob)) ob)"
    by (simp add: keeps_def)
  then show ?thesis unfolding load_segmented_storage_def Let_def by (intro keeps_intros)
qed

lemma open_sane:
  assumes "sane d" and "outbox_open py depth mb mr d = (Inr ob, d')"
  shows "sane (disk ob)"
proof -
  have "keeps sane_outbox (open_storage py depth)"
    unfolding open_storage_def by (intro keeps_intros keeps_modify) auto
  then show ?thesis
    using assms by (auto simp: outbox_open_def sane_outbox_def new_outbox_def keeps_def split: prod.splits sum.splits)
       (metis (no_types, lifting) outbox.select_convs(13) snd_conv)
qed

end
