(* ===== verification/OutboxProperties.thy ===== *)
theory OutboxProperties
  imports OutboxSamples
begin

text \<open>
  The properties of the Outbox: what appending and removing do, first in first out, recovery
  after a crash, bounds of a chunk, and migration of a legacy journal. \<open>queue py ob\<close> is what
  \<^verbatim>\<open>load\<close> would return.
\<close>

section \<open>Recovery\<close>

text \<open>
  C5. Crash recovery. After a crash at any point from a secure state, opening the directory
  either raises \<^verbatim>\<open>OutboxError\<close> (only if a call of the operating system fails) or gives an Outbox
  whose queue is the queue before the crash, preceded by messages that had been completed in
  memory only, and cut short at most when the last appends were not synced. Nothing is reordered,
  invented or lost in the middle, and the Outbox is secure again.
\<close>

theorem crash_recovery:
  assumes "secure py ob" and "crash_disk (disk ob) d'" and "0 < max_bytes" and "0 < max_records"
    and "outbox_open py depth max_bytes max_records d' = (r, d'')"
  shows "(r = Inl OutboxError
       \<or> (\<exists>ob' replayed m. r = Inr ob' \<and> healthy py ob' \<and> queue py ob' = replayed @ take m (queue py ob)
            \<and> set (map msg_id replayed) \<subseteq> volatile_completed_ids ob
            \<and> (\<not> data_sync_pending ob \<longrightarrow> length (queue py ob) \<le> m)
            \<and> (IoUnsupported \<notin> set (io_script d') \<longrightarrow> secure py ob')))
    \<and> (io_script d' = [] \<longrightarrow> (\<exists>ob'. r = Inr ob'))"
proof -
  obtain lay where l: "python_ok py" "outbox_inv py lay ob" "durable_inv py lay ob" "queue py ob = contents_of lay ob"
    using assms(1) by (rule secureE)
  note e = crash_recovery_effect [OF l(1-3) assms(2-5)]
  show ?thesis
  proof (rule conjI)
    show "io_script d' = [] \<longrightarrow> (\<exists>ob'. r = Inr ob')" using e by blast
  next
    show "r = Inl OutboxError \<or> (\<exists>ob' replayed m. r = Inr ob' \<and> healthy py ob'
            \<and> queue py ob' = replayed @ take m (queue py ob)
            \<and> set (map msg_id replayed) \<subseteq> volatile_completed_ids ob
            \<and> (\<not> data_sync_pending ob \<longrightarrow> length (queue py ob) \<le> m)
            \<and> (IoUnsupported \<notin> set (io_script d') \<longrightarrow> secure py ob'))"
    proof (cases "r = Inl OutboxError")
      case False
      with e obtain ob' lay' where o: "r = Inr ob'" "outbox_inv py lay' ob'" "recovered lay ob (contents_of lay' ob')"
        "IoUnsupported \<notin> set (io_script d') \<longrightarrow> durable_inv py lay' ob'" by blast
      from o(3) obtain replayed m where "contents_of lay' ob' = replayed @ take m (contents_of lay ob)"
        "set (map msg_id replayed) \<subseteq> volatile_completed_ids ob"
        "\<not> data_sync_pending ob \<longrightarrow> length (contents_of lay ob) \<le> m" unfolding recovered_def by blast
      moreover have "healthy py ob'" using l(1) o(2) by (auto simp: healthy_def)
      moreover have "IoUnsupported \<notin> set (io_script d') \<longrightarrow> secure py ob'"
        using l(1) o(2,4) by (auto simp: secure_def)
      moreover note queue_contents [OF l(1) o(2)]
      ultimately show ?thesis using o(1) l(4) by (intro disjI2 exI [of _ ob'] exI [of _ replayed] exI [of _ m]) simp
    qed simp
  qed
qed

lemma crash_everything_written:
  assumes "secure py ob" and "sane (disk ob)"
  shows "crash_disk (disk ob)
    ((disk ob)\<lparr>seg_files := map (\<lambda>(s, f). (s, f\<lparr>synced := length (contents f)\<rparr>)) (seg_files (disk ob))\<rparr>)"
proof -
  obtain lay where "durable_inv py lay ob" using assms(1) by (rule secureE)
  then have d: "distinct (map fst (seg_files (disk ob)))" by (simp add: durable_inv_def)
  have m: "map_of (map (\<lambda>(s, f). (s, f\<lparr>synced := length (contents f)\<rparr>)) al) sid
      = map_option (\<lambda>f. f\<lparr>synced := length (contents f)\<rparr>) (map_of al sid)" for al sid
    by (induction al) auto
  have "survives f (f\<lparr>synced := length (contents f)\<rparr>)" if "lookup_seg sid (disk ob) = Some f" for sid f
    using sane_lookup [OF assms(2) that] by (auto simp: survives_def)
  moreover have "fst ` set (map (\<lambda>(s, f). (s, f\<lparr>synced := length (contents f)\<rparr>)) al) = fst ` set al" for al
    by force
  ultimately show ?thesis
    using d unfolding crash_disk_def lookup_seg_def
    by (simp add: checkpoints_def comp_def case_prod_unfold m [unfolded case_prod_unfold]
        del: map_of_eq_None_iff) (auto simp: m [unfolded case_prod_unfold])
qed

lemma sample_sane: "sane (disk sample_outbox)"
proof -
  have "sane sample_disk"
  proof -
    from build_no_failure [OF sample_texts(1,2) sample_encode sample_texts(3), of 4096 10]
    obtain fb cb f where "format_text sample_python = Inr fb" "checkpoint_text sample_python 0 start_cursor = Inr cb"
      "encode_frame sample_bytes = Inr f"
      using sample_texts
      by (cases "format_text sample_python"; cases "checkpoint_text sample_python 0 start_cursor";
          cases "encode_frame sample_bytes") (auto simp: encode_frame_def)
    then show ?thesis
      by (simp add: sample_disk_def build_storage_directory_def andThen_def write_format_def write_checkpoint_def
        write_built_segment_def Let_def update_seg_def empty_disk_def settle_def write_temporary_def os_call_def
        next_io_def fsync_directory_def sane_def)
  qed
  moreover obtain ob where o: "outbox_open sample_python 3 4096 10 sample_disk = (Inr ob, disk ob)"
    "sample_outbox = with_script [] ob" using sample_open by blast
  ultimately have "sane (disk ob)" using open_sane by blast
  then show ?thesis unfolding o(2) by (simp add: with_script_def sane_def)
qed

definition sample_crash :: disk where
  "sample_crash = (disk sample_outbox)\<lparr>seg_files := map (\<lambda>(s, f). (s, f\<lparr>synced := length (contents f)\<rparr>))
     (seg_files (disk sample_outbox))\<rparr>"

theorem crash_recovery_witness:
  "\<exists>ob' d. outbox_open sample_python 3 4096 10 sample_crash = (Inr ob', d)
     \<and> queue sample_python ob' = [canon_message sample_message]"
proof -
  obtain r d where r: "outbox_open sample_python 3 4096 10 sample_crash = (r, d)"
    by (cases "outbox_open sample_python 3 4096 10 sample_crash")
  have cr: "crash_disk (disk sample_outbox) sample_crash"
    unfolding sample_crash_def by (rule crash_everything_written [OF sample_outbox_facts(1) sample_sane])
  have io: "io_script sample_crash = []" by (simp add: sample_crash_def sample_outbox_facts)
  note e = crash_recovery [OF sample_outbox_facts(1) cr zero_less_numeral zero_less_numeral r]
  obtain ob' where ob': "r = Inr ob'" using conjunct2 [OF e] io by blast
  obtain replayed m where q: "queue sample_python ob' = replayed @ take m (queue sample_python sample_outbox)"
    "set (map msg_id replayed) \<subseteq> {}" "length (queue sample_python sample_outbox) \<le> m"
    using conjunct1 [OF e, unfolded ob' sum.inject] sample_outbox_facts(3,4) by (metis Inl_Inr_False)
  have "replayed = []" using q(2) by simp
  then have "queue sample_python ob' = [canon_message sample_message]"
    using q(1,3) by (simp add: sample_outbox_facts(2))
  then show ?thesis using r ob' by blast
qed

section \<open>The queue\<close>

text \<open>
  C8. First in, first out. However appends and removals are interleaved and whichever of them fail
  or are refused, the messages that were queued or accepted are those removed followed by those
  still queued, in the order of acceptance.
\<close>

theorem outbox_fifo:
  assumes "healthy py ob" and "list_all (valid_message py) (offered cs)"
    and "run_fifo canon_message (queue py) (\<lambda>e. outbox_append py e sync) (\<lambda>e. remove_oldest py e sync') cs ob
      = (accepted, removed, ob')"
  shows "queue py ob @ accepted = removed @ queue py ob' \<and> healthy py ob'"
  using outbox_store.conservation [OF assms] outbox_store.run_inv [OF assms] by simp

theorem outbox_fifo_witness:
  "\<exists>accepted removed ob'.
     run_fifo canon_message (queue sample_python) (\<lambda>e. outbox_append sample_python e True)
       (\<lambda>e. remove_oldest sample_python e False)
       [Offer sample_message, TakeHead (canon_message sample_message)] sample_outbox = (accepted, removed, ob')
     \<and> queue sample_python sample_outbox @ accepted = removed @ queue sample_python ob'
     \<and> healthy sample_python ob'"
proof -
  obtain a r ob' where run: "run_fifo canon_message (queue sample_python)
      (\<lambda>e. outbox_append sample_python e True) (\<lambda>e. remove_oldest sample_python e False)
       [Offer sample_message, TakeHead (canon_message sample_message)] sample_outbox = (a, r, ob')"
    by (cases "run_fifo canon_message (queue sample_python) (\<lambda>e. outbox_append sample_python e True)
       (\<lambda>e. remove_oldest sample_python e False)
       [Offer sample_message, TakeHead (canon_message sample_message)] sample_outbox") blast
  show ?thesis using outbox_fifo [OF secure_healthy [OF sample_outbox_facts(1)] _ run] run by simp
qed

text \<open>
  C17. Appending a batch. Of the messages whose ids are not yet pending, repetitions inside the
  batch left out, a prefix is added in order: all of them when the call returns, which then also
  counts them, and none of the appended data is unsynced when a sync was asked for.
\<close>

theorem append_many_queue:
  assumes "healthy py ob" and "\<forall>e \<in> set batch. valid_message py e" and "append_many py batch sync ob = (r, ob')"
  defines "news \<equiv> map canon_message (new_messages (set (map msg_id (queue py ob))) batch)"
  shows "healthy py ob'
    \<and> (\<exists>k \<le> length news. queue py ob' = queue py ob @ take k news
         \<and> (\<forall>res. r = Inr res \<longrightarrow> k = length news \<and> appended_count res = length news
              \<and> (sync \<longrightarrow> \<not> data_sync_pending ob') \<and> (secure py ob \<longrightarrow> secure py ob')))"
  unfolding news_def using healthy_append_many [OF assms(1-3)] by blast

theorem append_many_queue_witness:
  "\<exists>r ob'. append_many sample_python [sample_message] True sample_outbox = (r, ob')
    \<and> healthy sample_python ob'"
proof -
  obtain r ob' where run: "append_many sample_python [sample_message] True sample_outbox = (r, ob')"
    by (cases "append_many sample_python [sample_message] True sample_outbox")
  show ?thesis using append_many_queue [OF secure_healthy [OF sample_outbox_facts(1)] _ run] run by simp
qed

text \<open>
  C21. An id that is pending with different content is refused: the append raises and the queue
  is unchanged.
\<close>

theorem append_conflict:
  assumes "healthy py ob" and "valid_message py e" and "a \<in> set (queue py ob)" and "msg_id a = msg_id e"
    and "encode_message py a \<noteq> encode_message py e" and "append_many py [e] sync ob = (r, ob')"
  shows "raised r \<and> queue py ob' = queue py ob"
proof -
  from assms(1) obtain lay where l: "python_ok py" "outbox_inv py lay ob" "queue py ob = contents_of lay ob"
    by (rule healthyE)
  from append_many_effect [OF l(1,2) _ assms(6)] assms(2) obtain k lay' where
    o: "append_outcome py [e] sync lay ob r k lay' ob'" by auto
  then have inv': "outbox_inv py lay' ob'" by (simp add: append_outcome_def Let_def)
  have "msg_id e \<in> set (map msg_id (contents_of lay ob))" using assms(3,4) l(3) by (auto simp flip: assms(4))
  with o have "contents_of lay' ob' = contents_of lay ob" by (auto simp: append_outcome_def Let_def)
  moreover have "\<not> agrees py (contents_of lay ob) (msg_id e) (encode_message py e)"
    using assms(3-5) l(3) by (auto simp: agrees_def)
  with o have "raised r" by (cases r) (auto simp: append_outcome_def Let_def)
  ultimately show ?thesis using l(3) queue_contents [OF l(1) inv'] by simp
qed

definition sample_other :: message_envelope where
  "sample_other = sample_message\<lparr>msg_payload := PNone\<rparr>"

lemma sample_other_facts:
  "valid_message sample_python sample_other"
  "encode_message sample_python sample_message \<noteq> encode_message sample_python sample_other"
proof -
  have "MessageEnvelope sample_python (PStr (msg_topic sample_other)) (msg_payload sample_other)
      (PStr (msg_id sample_other)) (PInt (msg_version sample_other)) = Inr sample_other"
    by code_simp
  then show "valid_message sample_python sample_other" by (simp add: valid_message_def sample_other_def)
  show "encode_message sample_python sample_message \<noteq> encode_message sample_python sample_other"
    unfolding sample_encode [symmetric] by code_simp
qed

theorem append_conflict_witness:
  "\<exists>r ob'. append_many sample_python [sample_other] True sample_outbox = (r, ob') \<and> raised r
     \<and> queue sample_python ob' = [canon_message sample_message]"
proof -
  obtain r ob' where run: "append_many sample_python [sample_other] True sample_outbox = (r, ob')"
    by (cases "append_many sample_python [sample_other] True sample_outbox")
  have "msg_id sample_message = msg_id sample_other" by (simp add: sample_other_def)
  with append_conflict [OF secure_healthy [OF sample_outbox_facts(1)] sample_other_facts(1), of "canon_message sample_message"]
    run sample_other_facts(2) encode_canon_message [OF sample_encode]
  show ?thesis by (simp add: sample_outbox_facts(2))
qed

text \<open>
  C18. Removing. The oldest message is removed exactly when the expected one has its id and its
  content; a refusal and an error leave the queue as it was. After a removal that was asked to be
  durable, the checkpoint on disk is past the message.
\<close>

theorem remove_oldest_queue:
  assumes "healthy py ob" and "remove_oldest py expected sync ob = (r, ob')"
  shows "healthy py ob'
    \<and> (r = Inr True \<longrightarrow> head_matches py (queue py ob) expected \<and> queue py ob' = tl (queue py ob))
    \<and> (r = Inr False \<longrightarrow> \<not> head_matches py (queue py ob) expected \<and> queue py ob' = queue py ob)
    \<and> (\<forall>e. r = Inl e \<longrightarrow> queue py ob' = queue py ob)"
  using healthy_remove_head [OF assms] by blast

theorem remove_oldest_queue_witness:
  "\<exists>r ob'. remove_oldest sample_python sample_message True sample_outbox = (r, ob') \<and> healthy sample_python ob'
     \<and> (r = Inr True \<longrightarrow> queue sample_python ob' = [])"
proof -
  obtain r ob' where run: "remove_oldest sample_python sample_message True sample_outbox = (r, ob')"
    by (cases "remove_oldest sample_python sample_message True sample_outbox")
  show ?thesis using remove_oldest_queue [OF secure_healthy [OF sample_outbox_facts(1)] run] run
    by (simp add: sample_outbox_facts)
qed

text \<open>
  C22. The bounds of a segment: the chunk chosen for the active segment keeps both limits, unless
  it is a single record.
\<close>

lemma choose_chunk_bounds:
  "0 < n \<Longrightarrow> choose_chunk ar ab n cb rs \<noteq> [] \<Longrightarrow>
     int (n + length (choose_chunk ar ab n cb rs)) \<le> ar \<and> cb + int (length (blob (choose_chunk ar ab n cb rs))) \<le> ab"
proof (induction ar ab n cb rs rule: choose_chunk.induct)
  case (2 ar ab n cb e f rs)
  let ?c = "choose_chunk ar ab (Suc n) (cb + int (length f)) rs"
  from 2(2,3) have c: "choose_chunk ar ab n cb ((e, f) # rs) = (e, f) # ?c"
    and le: "int n < ar" "cb + int (length f) \<le> ab" by (auto simp: Let_def split: if_splits)
  show ?case
  proof (cases "?c = []")
    case True
    with le show ?thesis unfolding c by simp
  next
    case False
    with 2(1) [OF refl] 2(2) le have "int (Suc n + length ?c) \<le> ar \<and> cb + int (length f) + int (length (blob ?c)) \<le> ab"
      by auto
    then show ?thesis unfolding c by simp
  qed
qed simp

theorem next_chunk_bounds:
  assumes "length (next_chunk ob remaining) \<noteq> 1" and "next_chunk ob remaining \<noteq> []"
  shows "record_count (active_segment ob) + length (next_chunk ob remaining) \<le> segment_max_records ob
    \<and> byte_size (active_segment ob) + length (blob (next_chunk ob remaining)) \<le> segment_max_bytes ob"
proof -
  let ?ar = "int (segment_max_records ob) - int (record_count (active_segment ob))"
  let ?ab = "int (segment_max_bytes ob) - int (byte_size (active_segment ob))"
  obtain e f rs where rem: "remaining = (e, f) # rs"
    using assms(2) by (cases remaining) (auto simp: next_chunk_def)
  let ?c = "choose_chunk ?ar ?ab 1 (int (length f)) rs"
  have c: "next_chunk ob remaining = (e, f) # ?c" "?c \<noteq> []"
    using assms unfolding next_chunk_def rem by (auto simp: Let_def split: if_splits)
  from choose_chunk_bounds [OF _ c(2)] show ?thesis unfolding c(1) by simp
qed

text \<open>Two empty frames fit; the bounds are the configured ones.\<close>

theorem next_chunk_bounds_witness:
  "let ob = new_outbox 4096 10 (empty_disk []); c = next_chunk ob [(sample_message, []), (sample_message, [])]
   in record_count (active_segment ob) + length c \<le> 10 \<and> byte_size (active_segment ob) + length (blob c) \<le> 4096"
  using next_chunk_bounds [of "new_outbox 4096 10 (empty_disk [])" "[(sample_message, []), (sample_message, [])]"]
  by (simp add: new_outbox_def next_chunk_def active_segment_def active_id_def max_key_def)

section \<open>Migration\<close>



lemma sample_enqueue: "raised (encode_enqueue sample_python sample_message) = False"
  by code_simp

lemma sample_ack_record: "raised (encode_legacy_ack sample_python (ustr ''m-1'')) = False"
  by code_simp





text \<open>
  C23. The records of the legacy journal are read back: an enqueue record as its message, an ack
  record as its id.
\<close>

theorem legacy_records_round_trip:
  assumes "python_ok py" and "valid_message py e" and "encode_enqueue py e = Inr b"
    and "encode_legacy_ack py m = Inr c"
  shows "decode_legacy_record py b = Inr (LegacyEnqueue (msg_id e) (canon_message e))
    \<and> decode_legacy_record py c = Inr (LegacyAck m)"
  using decode_encode_enqueue [OF assms(1-3)] decode_encode_legacy_ack [OF assms(1,4)] by blast

theorem legacy_records_round_trip_witness:
  "\<exists>b c. encode_enqueue sample_python sample_message = Inr b \<and> encode_legacy_ack sample_python (ustr ''m-1'') = Inr c
    \<and> decode_legacy_record sample_python b = Inr (LegacyEnqueue (ustr ''m-1'') (canon_message sample_message))
    \<and> decode_legacy_record sample_python c = Inr (LegacyAck (ustr ''m-1''))"
proof -
  obtain b c where "encode_enqueue sample_python sample_message = Inr b"
    "encode_legacy_ack sample_python (ustr ''m-1'') = Inr c"
    using sample_enqueue sample_ack_record
    by (cases "encode_enqueue sample_python sample_message";
        cases "encode_legacy_ack sample_python (ustr ''m-1'')") auto
  with legacy_records_round_trip [OF sample_python_ok sample_valid, of b "ustr ''m-1''" c] show ?thesis
    by (auto simp: sample_message_def)
qed

end
