(* ===== verification/Durability.thy ===== *)
theory Durability
  imports Protocol
begin

text \<open>
  The delivery modes and their validation (\<^verbatim>\<open>src/reliomq/durability.py\<close>). Thresholds are
  unbounded integers, durations and ratios are IEEE 754 doubles given by their bit patterns.
  Every finite double is a whole number of units of 2 to the power -1074; \<open>float_units\<close> is
  that number, so comparisons of doubles are comparisons of integers.
\<close>

section \<open>Doubles\<close>

text \<open>The position of the highest bit of a positive number.\<close>

fun log2 :: "nat \<Rightarrow> nat" where
  "log2 n = (if n < 2 then 0 else Suc (log2 (n div 2)))"

declare log2.simps [simp del]

text \<open>
  \<^verbatim>\<open>float(i)\<close> of an integer: the nearest double, ties to the even mantissa; \<open>None\<close> is the
  \<^verbatim>\<open>OverflowError\<close>.
\<close>

definition float_of_int :: "int \<Rightarrow> float64 option" where
  "float_of_int i =
     (let n = nat \<bar>i\<bar>; e = log2 n;
          m = (if e \<le> 52 then n * 2 ^ (52 - e)
               else let q = n div 2 ^ (e - 52); r = n mod 2 ^ (e - 52); half = 2 ^ (e - 53)
                    in if r > half \<or> (r = half \<and> odd q) then q + 1 else q);
          bits = (e + 1023) * 2 ^ 52 + m - 2 ^ 52
      in if n = 0 then Some 0
         else if bits \<ge> 0x7FF * 2 ^ 52 then None
         else Some (of_nat (bits + (if i < 0 then 2 ^ 63 else 0))))"

section \<open>Validators\<close>

definition positive_integer :: "pyval \<Rightarrow> py_error + int" where
  "positive_integer value =
     (case value of PInt i \<Rightarrow> if i \<le> 0 then Inl ValueError else Inr i | _ \<Rightarrow> Inl ValueError)"

definition optional_positive_integer :: "pyval \<Rightarrow> py_error + int option" where
  "optional_positive_integer value =
     (if value = PNone then Inr None else map_sum id Some (positive_integer value))"

text \<open>\<^verbatim>\<open>float(value)\<close> of a value whose type is exactly \<^verbatim>\<open>int\<close> or \<^verbatim>\<open>float\<close>.\<close>

definition to_float :: "pyval \<Rightarrow> float64 option" where
  "to_float value = (case value of PInt i \<Rightarrow> float_of_int i | PFloat w \<Rightarrow> Some w | _ \<Rightarrow> None)"

definition finite_number :: "bool \<Rightarrow> pyval \<Rightarrow> py_error + float64" where
  "finite_number allow_zero value =
     (case to_float value of
        None \<Rightarrow> Inl ValueError
      | Some normalized \<Rightarrow>
          if \<not> float_isfinite normalized
             \<or> (if allow_zero then float_units normalized < 0 else float_units normalized \<le> 0)
          then Inl ValueError else Inr normalized)"

definition optional_finite_number :: "bool \<Rightarrow> pyval \<Rightarrow> py_error + float64 option" where
  "optional_finite_number allow_zero value =
     (if value = PNone then Inr None else map_sum id Some (finite_number allow_zero value))"

section \<open>The modes\<close>

record group_mode =
  sync_messages :: "int option"
  sync_interval :: "float64 option"
  sync_bytes :: "int option"
  ack_checkpoint_messages :: "int option"
  ack_checkpoint_interval :: "float64 option"

record fast_mode =
  ram_max_messages :: int
  ram_max_bytes :: int
  high_watermark :: "float64 option"
  max_ram_age :: "float64 option"
  disconnect_grace :: "float64 option"
  spill_batch_messages :: int
  spill_batch_bytes :: int

datatype delivery_mode = DurableMode | GroupMode group_mode | FastMode fast_mode

text \<open>The constructors: \<^verbatim>\<open>__post_init__\<close> validates and normalises the fields in this order.\<close>

definition make_group_mode ::
  "pyval \<Rightarrow> pyval \<Rightarrow> pyval \<Rightarrow> pyval \<Rightarrow> pyval \<Rightarrow> py_error + group_mode" where
  "make_group_mode messages interval nbytes ack_messages ack_interval =
     bindE (optional_positive_integer messages) (\<lambda>sm.
     bindE (optional_finite_number False interval) (\<lambda>si.
     bindE (optional_positive_integer nbytes) (\<lambda>sb.
     bindE (optional_positive_integer ack_messages) (\<lambda>am.
     bindE (optional_finite_number False ack_interval) (\<lambda>ai.
       if sm = None \<and> si = None \<and> sb = None then Inl ValueError
       else if am = None \<and> ai = None then Inl ValueError
       else Inr \<lparr>sync_messages = sm, sync_interval = si, sync_bytes = sb,
                 ack_checkpoint_messages = am, ack_checkpoint_interval = ai\<rparr>)))))"

definition ONE :: float64 where
  "ONE = 0x3FF0000000000000"

definition make_fast_mode ::
  "pyval \<Rightarrow> pyval \<Rightarrow> pyval \<Rightarrow> pyval \<Rightarrow> pyval \<Rightarrow> pyval \<Rightarrow> pyval \<Rightarrow> py_error + fast_mode" where
  "make_fast_mode max_messages max_bytes watermark age grace batch_messages batch_bytes =
     bindE (positive_integer max_messages) (\<lambda>rm.
     bindE (positive_integer max_bytes) (\<lambda>rb.
     bindE (optional_finite_number False watermark) (\<lambda>hw.
       if (case hw of None \<Rightarrow> False | Some w \<Rightarrow> float_units w > float_units ONE) then Inl ValueError
       else
     bindE (optional_finite_number False age) (\<lambda>ma.
     bindE (optional_finite_number True grace) (\<lambda>dg.
     bindE (positive_integer batch_messages) (\<lambda>bm.
     bindE (positive_integer batch_bytes) (\<lambda>bb.
       Inr \<lparr>ram_max_messages = rm, ram_max_bytes = rb, high_watermark = hw, max_ram_age = ma,
            disconnect_grace = dg, spill_batch_messages = bm, spill_batch_bytes = bb\<rparr>)))))))"

text \<open>The default arguments: 0.25 s and 1 s; a watermark of 0.75, 5 s and 3 s.\<close>

definition default_group_mode :: "py_error + group_mode" where
  "default_group_mode = make_group_mode (PInt 20) (PFloat 0x3FD0000000000000) (PInt (64 * 1024))
     (PInt 50) (PFloat ONE)"

definition default_fast_mode :: "py_error + fast_mode" where
  "default_fast_mode = make_fast_mode (PInt 10000) (PInt (32 * 1024 * 1024))
     (PFloat 0x3FE8000000000000) (PFloat 0x4014000000000000) (PFloat 0x4008000000000000)
     (PInt 1000) (PInt (4 * 1024 * 1024))"

text \<open>The \<^verbatim>\<open>mode\<close> argument: absent, a mode, or an object of another type.\<close>

datatype mode_argument = NoMode | SomeMode delivery_mode | OtherObject

definition resolve_mode :: "mode_argument \<Rightarrow> py_error + delivery_mode" where
  "resolve_mode mode =
     (case mode of
        NoMode \<Rightarrow> map_sum id FastMode default_fast_mode
      | SomeMode m \<Rightarrow> Inr m
      | OtherObject \<Rightarrow> Inl TypeError)"

section \<open>What validation guarantees\<close>

definition positive_duration :: "float64 option \<Rightarrow> bool" where
  "positive_duration d = (case d of None \<Rightarrow> True | Some w \<Rightarrow> float_isfinite w \<and> 0 < float_units w)"

definition positive_count :: "int option \<Rightarrow> bool" where
  "positive_count c = (case c of None \<Rightarrow> True | Some i \<Rightarrow> 0 < i)"

definition group_mode_ok :: "group_mode \<Rightarrow> bool" where
  "group_mode_ok m \<longleftrightarrow>
     positive_count (sync_messages m) \<and> positive_duration (sync_interval m)
     \<and> positive_count (sync_bytes m) \<and> positive_count (ack_checkpoint_messages m)
     \<and> positive_duration (ack_checkpoint_interval m)
     \<and> \<not> (sync_messages m = None \<and> sync_interval m = None \<and> sync_bytes m = None)
     \<and> \<not> (ack_checkpoint_messages m = None \<and> ack_checkpoint_interval m = None)"

definition fast_mode_ok :: "fast_mode \<Rightarrow> bool" where
  "fast_mode_ok m \<longleftrightarrow>
     0 < ram_max_messages m \<and> 0 < ram_max_bytes m \<and> positive_duration (high_watermark m)
     \<and> (case high_watermark m of None \<Rightarrow> True | Some w \<Rightarrow> float_units w \<le> float_units ONE)
     \<and> positive_duration (max_ram_age m)
     \<and> (case disconnect_grace m of None \<Rightarrow> True | Some w \<Rightarrow> float_isfinite w \<and> 0 \<le> float_units w)
     \<and> 0 < spill_batch_messages m \<and> 0 < spill_batch_bytes m"

lemma optional_positive_integer_ok: "optional_positive_integer v = Inr c \<Longrightarrow> positive_count c"
  by (auto simp: optional_positive_integer_def positive_integer_def positive_count_def
      split: if_splits pyval.splits)

lemma positive_integer_ok: "positive_integer v = Inr i \<Longrightarrow> 0 < i \<and> v = PInt i"
  by (auto simp: positive_integer_def split: if_splits pyval.splits)

lemma optional_finite_number_ok:
  "optional_finite_number False v = Inr d \<Longrightarrow> positive_duration d"
  by (auto simp: optional_finite_number_def finite_number_def positive_duration_def
      split: if_splits option.splits)

lemma optional_finite_number_zero:
  "optional_finite_number True v = Inr d
     \<Longrightarrow> case d of None \<Rightarrow> True | Some w \<Rightarrow> float_isfinite w \<and> 0 \<le> float_units w"
  by (auto simp: optional_finite_number_def finite_number_def split: if_splits option.splits)

lemma make_group_mode_ok: "make_group_mode a b c d e = Inr m \<Longrightarrow> group_mode_ok m"
  by (auto simp: make_group_mode_def bindE_Inr group_mode_ok_def split: if_splits
      dest: optional_positive_integer_ok optional_finite_number_ok)

lemma make_fast_mode_ok: "make_fast_mode a b c d e f g = Inr m \<Longrightarrow> fast_mode_ok m"
  by (auto simp: make_fast_mode_def bindE_Inr fast_mode_ok_def not_less split: if_splits option.splits
      dest: positive_integer_ok optional_finite_number_ok optional_finite_number_zero)

text \<open>The defaults are valid: the modes a client gets without choosing.\<close>

lemma float_literals [simp]:
  "float_units 0x3FD0000000000000 = 2 ^ 1072" "float_units 0x3FE8000000000000 = 3 * 2 ^ 1072"
  "float_units ONE = 2 ^ 1074" "float_units 0x4008000000000000 = 3 * 2 ^ 1074"
  "float_units 0x4014000000000000 = 5 * 2 ^ 1074"
  "float_isfinite 0x3FD0000000000000" "float_isfinite 0x3FE8000000000000" "float_isfinite ONE"
  "float_isfinite 0x4008000000000000" "float_isfinite 0x4014000000000000"
  by (simp_all add: float_units_def ONE_def float_isfinite_def)

lemma default_fast_mode_value:
  "default_fast_mode = Inr \<lparr>ram_max_messages = 10000, ram_max_bytes = 33554432,
     high_watermark = Some 0x3FE8000000000000, max_ram_age = Some 0x4014000000000000,
     disconnect_grace = Some 0x4008000000000000, spill_batch_messages = 1000,
     spill_batch_bytes = 4194304\<rparr>"
  by (simp add: default_fast_mode_def make_fast_mode_def positive_integer_def
      optional_finite_number_def finite_number_def to_float_def)

lemma default_group_mode_value:
  "default_group_mode = Inr \<lparr>sync_messages = Some 20, sync_interval = Some 0x3FD0000000000000,
     sync_bytes = Some 65536, ack_checkpoint_messages = Some 50, ack_checkpoint_interval = Some ONE\<rparr>"
  by (simp add: default_group_mode_def make_group_mode_def positive_integer_def
      optional_positive_integer_def optional_finite_number_def finite_number_def to_float_def)

end
