(* ===== verification/Persistence.thy ===== *)
theory Persistence
  imports Outbox Durability
begin

text \<open>
  The persistence policy (\<^verbatim>\<open>src/reliomq/persistence.py\<close>): when the messages and the ACK
  progress of a client cross their durability boundaries. The policy owns the outbox, the
  counters of what is not yet durable and two timers. Its lock serialises the methods and the
  timer callbacks, so each is one function on the state.
\<close>

section \<open>State\<close>

text \<open>
  Clock readings and durations are integers, in the unit of \<open>float_units\<close>, and differences
  are exact. The clock is monotonic: reading it consumes one step of \<open>clock_steps\<close>.
  A timer is the delay it was armed with and its generation; \<open>data_timer\<close> and \<open>ack_timer\<close>
  hold the live ones. Cancelling a timer whose callback already waits for the lock does not
  stop the callback, so \<open>on_data_timer\<close> may be called with any generation.
\<close>

type_synonym time = int

record timer =
  tm_delay :: time
  tm_generation :: nat

record policy =
  outbox_of :: outbox
  mode :: delivery_mode
  now :: time
  clock_steps :: "nat list"
  unsynced_messages :: nat
  unsynced_bytes :: nat
  last_data_sync :: time
  acked_since_checkpoint :: nat
  last_ack_checkpoint :: time
  data_timer :: "timer option"
  ack_timer :: "timer option"
  data_timer_generation :: nat
  ack_timer_generation :: nat

type_synonym 'a policy_proc = "(policy, 'a) proc"

definition read_clock :: "policy \<Rightarrow> time \<times> policy" where
  "read_clock p =
     (case clock_steps p of
        [] \<Rightarrow> (now p, p)
      | s # r \<Rightarrow> (now p + int s, p\<lparr>now := now p + int s, clock_steps := r\<rparr>))"

definition on_outbox :: "'a ob_proc \<Rightarrow> 'a policy_proc" where
  "on_outbox m p = (case m (outbox_of p) of (r, ob) \<Rightarrow> (r, p\<lparr>outbox_of := ob\<rparr>))"

definition new_policy :: "outbox \<Rightarrow> delivery_mode \<Rightarrow> time \<Rightarrow> nat list \<Rightarrow> policy" where
  "new_policy ob m t steps =
     \<lparr>outbox_of = ob, mode = m, now = t, clock_steps = steps, unsynced_messages = 0,
      unsynced_bytes = 0, last_data_sync = t, acked_since_checkpoint = 0, last_ack_checkpoint = t,
      data_timer = None, ack_timer = None, data_timer_generation = 0, ack_timer_generation = 0\<rparr>"

section \<open>Timers\<close>

definition cancel_data_timer :: "policy \<Rightarrow> policy" where
  "cancel_data_timer p =
     p\<lparr>data_timer_generation := Suc (data_timer_generation p), data_timer := None\<rparr>"

definition cancel_ack_timer :: "policy \<Rightarrow> policy" where
  "cancel_ack_timer p =
     p\<lparr>ack_timer_generation := Suc (ack_timer_generation p), ack_timer := None\<rparr>"

definition arm_data_timer :: "group_mode \<Rightarrow> bool \<Rightarrow> policy \<Rightarrow> policy" where
  "arm_data_timer gm retry p =
     (if data_timer p \<noteq> None \<or> unsynced_messages p = 0 then p
      else (case sync_interval gm of
              None \<Rightarrow> p
            | Some w \<Rightarrow>
                (let (delay, p1) =
                       (if retry then (float_units w, p)
                        else (case read_clock p of (t, p') \<Rightarrow>
                                (max 0 (last_data_sync p + float_units w - t), p')));
                     g = Suc (data_timer_generation p1)
                 in p1\<lparr>data_timer_generation := g,
                       data_timer := Some \<lparr>tm_delay = delay, tm_generation = g\<rparr>\<rparr>)))"

definition arm_ack_timer :: "group_mode \<Rightarrow> bool \<Rightarrow> policy \<Rightarrow> policy" where
  "arm_ack_timer gm retry p =
     (if ack_timer p \<noteq> None \<or> acked_since_checkpoint p = 0 then p
      else (case ack_checkpoint_interval gm of
              None \<Rightarrow> p
            | Some w \<Rightarrow>
                (let (delay, p1) =
                       (if retry then (float_units w, p)
                        else (case read_clock p of (t, p') \<Rightarrow>
                                (max 0 (last_ack_checkpoint p + float_units w - t), p')));
                     g = Suc (ack_timer_generation p1)
                 in p1\<lparr>ack_timer_generation := g,
                       ack_timer := Some \<lparr>tm_delay = delay, tm_generation = g\<rparr>\<rparr>)))"

section \<open>Group syncs and checkpoints\<close>

definition clear_unsynced :: "time \<Rightarrow> policy \<Rightarrow> policy" where
  "clear_unsynced t p = p\<lparr>unsynced_messages := 0, unsynced_bytes := 0, last_data_sync := t\<rparr>"

definition clear_acked :: "time \<Rightarrow> policy \<Rightarrow> policy" where
  "clear_acked t p = p\<lparr>acked_since_checkpoint := 0, last_ack_checkpoint := t\<rparr>"

definition sync_group_data :: "group_mode \<Rightarrow> bool \<Rightarrow> unit policy_proc" where
  "sync_group_data gm suppress_errors p =
     (let p0 = cancel_data_timer p in
      if unsynced_messages p0 = 0 then ret () p0
      else (case on_outbox outbox_sync p0 of
              (Inl e, p1) \<Rightarrow>
                if e \<noteq> OutboxError \<or> \<not> suppress_errors then (Inl e, p1)
                else ret () (arm_data_timer gm True p1)
            | (Inr _, p1) \<Rightarrow>
                (case read_clock p1 of (t, p2) \<Rightarrow> ret () (clear_unsynced t p2))))"

definition checkpoint_group :: "python \<Rightarrow> group_mode \<Rightarrow> bool \<Rightarrow> unit policy_proc" where
  "checkpoint_group py gm suppress_errors p =
     (let p0 = cancel_ack_timer p in
      if acked_since_checkpoint p0 = 0 then ret () p0
      else (case on_outbox (checkpoint py) p0 of
              (Inl e, p1) \<Rightarrow>
                if e \<noteq> OutboxError \<or> \<not> suppress_errors then (Inl e, p1)
                else ret () (arm_ack_timer gm True p1)
            | (Inr _, p1) \<Rightarrow>
                (case read_clock p1 of (t, p2) \<Rightarrow>
                   ret () (clear_unsynced t (cancel_data_timer (clear_acked t p2))))))"

section \<open>Publishing\<close>

definition append_durable :: "python \<Rightarrow> message_envelope \<Rightarrow> bool policy_proc" where
  "append_durable py envelope = on_outbox (outbox_append py envelope True)"

definition append_many_durable :: "python \<Rightarrow> message_envelope list \<Rightarrow> append_result policy_proc" where
  "append_many_durable py envelopes = on_outbox (append_many py envelopes True)"

definition reached :: "int option \<Rightarrow> nat \<Rightarrow> bool" where
  "reached threshold n = (case threshold of None \<Rightarrow> False | Some k \<Rightarrow> int n \<ge> k)"

definition elapsed :: "float64 option \<Rightarrow> time \<Rightarrow> time \<Rightarrow> bool" where
  "elapsed interval t since = (case interval of None \<Rightarrow> False | Some w \<Rightarrow> t - since \<ge> float_units w)"

text \<open>
  The bookkeeping after an accepted append: a rotation synced the previous range, and the safe
  reuse of an id checkpointed the ACK progress. \<open>old\<close> is the Outbox before the append.
\<close>

definition data_boundary_crossed :: "outbox \<Rightarrow> time \<Rightarrow> policy \<Rightarrow> policy" where
  "data_boundary_crossed old t p =
     (if data_sync_generation (outbox_of p) \<noteq> data_sync_generation old
      then clear_unsynced t (cancel_data_timer p) else p)"

definition ack_boundary_crossed :: "outbox \<Rightarrow> time \<Rightarrow> policy \<Rightarrow> policy" where
  "ack_boundary_crossed old t p =
     (if checkpoint_generation (outbox_of p) \<noteq> checkpoint_generation old
      then clear_acked t (cancel_ack_timer p) else p)"

text \<open>An accepted message of \<open>n\<close> framed bytes joins the unsynced range.\<close>

definition booked :: "outbox \<Rightarrow> time \<Rightarrow> nat \<Rightarrow> policy \<Rightarrow> policy" where
  "booked old t n p =
     (let p' = ack_boundary_crossed old t (data_boundary_crossed old t p)
      in p'\<lparr>unsynced_messages := unsynced_messages p' + 1, unsynced_bytes := unsynced_bytes p' + n\<rparr>)"

definition data_due :: "group_mode \<Rightarrow> time \<Rightarrow> policy \<Rightarrow> bool" where
  "data_due gm t p \<longleftrightarrow>
     reached (sync_messages gm) (unsynced_messages p) \<or> reached (sync_bytes gm) (unsynced_bytes p)
     \<or> elapsed (sync_interval gm) t (last_data_sync p)"

definition append_group :: "python \<Rightarrow> group_mode \<Rightarrow> message_envelope \<Rightarrow> bool policy_proc" where
  "append_group py gm envelope p =
     (case record_size py envelope of
        Inl e \<Rightarrow> throw e p
      | Inr framed_bytes \<Rightarrow>
          andThen (on_outbox (outbox_append py envelope False)) (\<lambda>appended p1.
            if \<not> appended then ret False p1
            else (case read_clock p1 of (t, p2) \<Rightarrow>
              andThen (\<lambda>s. if data_due gm t s then sync_group_data gm True s
                            else ret () (arm_data_timer gm False s))
                (\<lambda>_ p5. andThen (if completed_closed_segment_pending (outbox_of p5)
                                 then checkpoint_group py gm True else ret ())
                          (\<lambda>_. ret True) p5)
                (booked (outbox_of p) t framed_bytes p2))) p)"

definition policy_append :: "python \<Rightarrow> message_envelope \<Rightarrow> bool policy_proc" where
  "policy_append py envelope p =
     (case mode p of
        DurableMode \<Rightarrow> append_durable py envelope p
      | GroupMode gm \<Rightarrow> append_group py gm envelope p
      | FastMode _ \<Rightarrow> throw RuntimeError p)"

section \<open>Completing\<close>

definition complete_group :: "python \<Rightarrow> group_mode \<Rightarrow> message_envelope \<Rightarrow> bool policy_proc" where
  "complete_group py gm envelope =
     andThen (on_outbox (remove_oldest py envelope False)) (\<lambda>removed p1.
       if \<not> removed then ret False p1
       else (case read_clock (p1\<lparr>acked_since_checkpoint := acked_since_checkpoint p1 + 1\<rparr>) of (t, p2) \<Rightarrow>
         (let due = reached (ack_checkpoint_messages gm) (acked_since_checkpoint p2)
                    \<or> elapsed (ack_checkpoint_interval gm) t (last_ack_checkpoint p2)
                    \<or> completed_closed_segment_pending (outbox_of p2)
          in andThen (\<lambda>s. if due then checkpoint_group py gm True s
                          else ret () (arm_ack_timer gm False s)) (\<lambda>_. ret True) p2)))"

definition policy_complete :: "python \<Rightarrow> message_envelope \<Rightarrow> bool policy_proc" where
  "policy_complete py envelope p =
     (case mode p of
        GroupMode gm \<Rightarrow> complete_group py gm envelope p
      | _ \<Rightarrow> on_outbox (remove_oldest py envelope True) p)"

definition policy_checkpoint :: "python \<Rightarrow> unit policy_proc" where
  "policy_checkpoint py p =
     (case mode p of
        GroupMode gm \<Rightarrow> checkpoint_group py gm False p
      | _ \<Rightarrow> on_outbox (checkpoint py) p)"

definition policy_flush :: "python \<Rightarrow> unit policy_proc" where
  "policy_flush py p =
     (case mode p of
        GroupMode gm \<Rightarrow>
          andThen (\<lambda>s. if unsynced_messages s \<noteq> 0 then sync_group_data gm False s else ret () s)
            (\<lambda>_ s. if acked_since_checkpoint s \<noteq> 0 then checkpoint_group py gm False s else ret () s)
            (cancel_ack_timer (cancel_data_timer p))
      | _ \<Rightarrow> ret () p)"

section \<open>Timer callbacks\<close>

definition on_data_timer :: "group_mode \<Rightarrow> nat \<Rightarrow> unit policy_proc" where
  "on_data_timer gm generation p =
     (if generation \<noteq> data_timer_generation p then ret () p
      else sync_group_data gm True (p\<lparr>data_timer := None\<rparr>))"

definition on_ack_timer :: "python \<Rightarrow> group_mode \<Rightarrow> nat \<Rightarrow> unit policy_proc" where
  "on_ack_timer py gm generation p =
     (if generation \<noteq> ack_timer_generation p then ret () p
      else checkpoint_group py gm True (p\<lparr>ack_timer := None\<rparr>))"

end
