(* ===== verification/PersistenceFacts.thy ===== *)
theory PersistenceFacts
  imports Persistence OutboxFifo
begin

text \<open>
  The policy's invariant: its counters cover everything the Outbox has not made durable, its
  live timers are the ones of the current generation and fire within the mode's intervals. It
  holds after every method and callback, in any order and with any pattern of I/O failures.
\<close>

section \<open>The invariant\<close>

definition counted :: "policy \<Rightarrow> bool" where
  "counted p \<longleftrightarrow>
     (data_sync_pending (outbox_of p) \<longrightarrow> 0 < unsynced_messages p)
     \<and> (volatile_completed_ids (outbox_of p) \<noteq> {} \<longrightarrow> 0 < acked_since_checkpoint p)"

definition timer_ok :: "float64 option \<Rightarrow> nat \<Rightarrow> nat \<Rightarrow> timer option \<Rightarrow> bool" where
  "timer_ok interval generation count t =
     (case t of None \<Rightarrow> True
      | Some tm \<Rightarrow> 0 < count \<and> tm_generation tm = generation
          \<and> (case interval of None \<Rightarrow> False | Some w \<Rightarrow> 0 \<le> tm_delay tm \<and> tm_delay tm \<le> float_units w))"

definition timers_ok :: "group_mode \<Rightarrow> policy \<Rightarrow> bool" where
  "timers_ok gm p \<longleftrightarrow>
     timer_ok (sync_interval gm) (data_timer_generation p) (unsynced_messages p) (data_timer p)
     \<and> timer_ok (ack_checkpoint_interval gm) (ack_timer_generation p) (acked_since_checkpoint p) (ack_timer p)
     \<and> last_data_sync p \<le> now p \<and> last_ack_checkpoint p \<le> now p"

definition group_inv :: "python \<Rightarrow> group_mode \<Rightarrow> policy \<Rightarrow> bool" where
  "group_inv py gm p \<longleftrightarrow>
     python_ok py \<and> group_mode_ok gm \<and> mode p = GroupMode gm
     \<and> (\<exists>lay. outbox_inv py lay (outbox_of p)) \<and> counted p \<and> timers_ok gm p"

lemma group_inv_outbox: "group_inv py gm p \<Longrightarrow> \<exists>lay. outbox_inv py lay (outbox_of p)"
  by (simp add: group_inv_def)

section \<open>Small steps\<close>

lemma read_clock_cases:
  assumes "read_clock p = (t, p')"
  obtains steps where "p' = p\<lparr>now := t, clock_steps := steps\<rparr>" "now p \<le> t"
proof (cases "clock_steps p")
  case Nil
  with assms have "t = now p" "p' = p\<lparr>now := now p, clock_steps := clock_steps p\<rparr>"
    by (auto simp: read_clock_def)
  then show ?thesis by (intro that [of "clock_steps p"]) simp_all
next
  case (Cons s r)
  with assms that show ?thesis by (auto simp: read_clock_def)
qed

lemma group_inv_clock:
  assumes "group_inv py gm p" and "read_clock p = (t, p')"
  shows "group_inv py gm p'"
proof -
  from read_clock_cases [OF assms(2)] obtain steps where
    "p' = p\<lparr>now := t, clock_steps := steps\<rparr>" "now p \<le> t" .
  with assms(1) show ?thesis by (auto simp: group_inv_def counted_def timers_ok_def)
qed

lemma group_inv_cancel:
  assumes "group_inv py gm p"
  shows "group_inv py gm (cancel_data_timer p)" "group_inv py gm (cancel_ack_timer p)"
  using assms
  by (auto simp: group_inv_def counted_def timers_ok_def timer_ok_def cancel_data_timer_def cancel_ack_timer_def)

lemma interval_nonneg:
  "group_mode_ok gm \<Longrightarrow> sync_interval gm = Some w \<Longrightarrow> 0 \<le> float_units w"
  "group_mode_ok gm \<Longrightarrow> ack_checkpoint_interval gm = Some w \<Longrightarrow> 0 \<le> float_units w"
  by (auto simp: group_mode_ok_def positive_duration_def)

lemma group_inv_arm_data:
  assumes "group_inv py gm p"
  shows "group_inv py gm (arm_data_timer gm retry p)"
proof -
  obtain t p1 where c: "read_clock p = (t, p1)" by (cases "read_clock p")
  from read_clock_cases [OF c] obtain steps where p1: "p1 = p\<lparr>now := t, clock_steps := steps\<rparr>" "now p \<le> t" .
  show ?thesis using assms c p1 interval_nonneg(1) [of gm]
    by (auto simp: arm_data_timer_def group_inv_def counted_def timers_ok_def timer_ok_def Let_def
        split: option.splits)
qed

lemma group_inv_arm_ack:
  assumes "group_inv py gm p"
  shows "group_inv py gm (arm_ack_timer gm retry p)"
proof -
  obtain t p1 where c: "read_clock p = (t, p1)" by (cases "read_clock p")
  from read_clock_cases [OF c] obtain steps where p1: "p1 = p\<lparr>now := t, clock_steps := steps\<rparr>" "now p \<le> t" .
  show ?thesis using assms c p1 interval_nonneg(2) [of gm]
    by (auto simp: arm_ack_timer_def group_inv_def counted_def timers_ok_def timer_ok_def Let_def
        split: option.splits)
qed

lemma on_outbox_cases:
  assumes "on_outbox m p = (r, p')"
  obtains ob where "m (outbox_of p) = (r, ob)" "p' = p\<lparr>outbox_of := ob\<rparr>"
  using assms by (cases "m (outbox_of p)") (auto simp: on_outbox_def)

lemma group_inv_ledger:
  assumes "group_inv py gm p" and "ledger (outbox_of p) ob" and "outbox_inv py lay ob"
  shows "group_inv py gm (p\<lparr>outbox_of := ob\<rparr>)"
  using assms by (auto simp: group_inv_def counted_def timers_ok_def ledger_def acks_kept_def)

text \<open>Clearing a counter needs its boundary to have been crossed and its timer to be off.\<close>

lemma group_inv_clear_unsynced:
  assumes "group_inv py gm p" "\<not> data_sync_pending (outbox_of p)" "data_timer p = None" "t \<le> now p"
  shows "group_inv py gm (clear_unsynced t p)"
  using assms by (auto simp: group_inv_def counted_def timers_ok_def timer_ok_def clear_unsynced_def)

lemma group_inv_clear_acked:
  assumes "group_inv py gm p" "volatile_completed_ids (outbox_of p) = {}" "ack_timer p = None" "t \<le> now p"
  shows "group_inv py gm (clear_acked t p)"
  using assms by (auto simp: group_inv_def counted_def timers_ok_def timer_ok_def clear_acked_def)

section \<open>Group syncs and checkpoints\<close>

text \<open>\<open>armed\<close>: whatever is not yet durable has a timer running, when the mode has the interval.\<close>

definition data_armed :: "group_mode \<Rightarrow> policy \<Rightarrow> bool" where
  "data_armed gm p \<longleftrightarrow> (0 < unsynced_messages p \<and> sync_interval gm \<noteq> None \<longrightarrow> data_timer p \<noteq> None)"

definition ack_armed :: "group_mode \<Rightarrow> policy \<Rightarrow> bool" where
  "ack_armed gm p \<longleftrightarrow> (0 < acked_since_checkpoint p \<and> ack_checkpoint_interval gm \<noteq> None \<longrightarrow> ack_timer p \<noteq> None)"

lemma arm_data_armed: "data_armed gm (arm_data_timer gm retry p)"
  by (auto simp: data_armed_def arm_data_timer_def read_clock_def Let_def split: option.splits list.splits)

lemma arm_ack_armed: "ack_armed gm (arm_ack_timer gm retry p)"
  by (auto simp: ack_armed_def arm_ack_timer_def read_clock_def Let_def split: option.splits list.splits)

lemma arm_data_fields [simp]:
  "outbox_of (arm_data_timer gm retry p) = outbox_of p"
  "unsynced_messages (arm_data_timer gm retry p) = unsynced_messages p"
  "acked_since_checkpoint (arm_data_timer gm retry p) = acked_since_checkpoint p"
  "ack_timer (arm_data_timer gm retry p) = ack_timer p"
  by (auto simp: arm_data_timer_def read_clock_def Let_def split: option.splits list.splits)

lemma arm_ack_fields [simp]:
  "outbox_of (arm_ack_timer gm retry p) = outbox_of p"
  "unsynced_messages (arm_ack_timer gm retry p) = unsynced_messages p"
  "acked_since_checkpoint (arm_ack_timer gm retry p) = acked_since_checkpoint p"
  "data_timer (arm_ack_timer gm retry p) = data_timer p"
  "unsynced_bytes (arm_ack_timer gm retry p) = unsynced_bytes p"
  by (auto simp: arm_ack_timer_def read_clock_def Let_def split: option.splits list.splits)

text \<open>
  A group sync either leaves nothing unsynced, or fails: then the range stays counted, and a
  suppressed failure has armed the retry timer.
\<close>

lemma sync_group_data_effect:
  assumes inv: "group_inv py gm p" and r: "sync_group_data gm suppress p = (r, p')"
  shows "group_inv py gm p' \<and> contents_of lay (outbox_of p') = contents_of lay (outbox_of p)
    \<and> (r = Inl OutboxError \<and> \<not> suppress \<or> r = Inr () \<and> data_armed gm p')
    \<and> (r = Inr () \<and> (\<not> suppress \<or> unsynced_messages p' = 0)
         \<longrightarrow> unsynced_messages p' = 0 \<and> \<not> data_sync_pending (outbox_of p'))
    \<and> acked_since_checkpoint p' = acked_since_checkpoint p \<and> ack_timer p' = ack_timer p
    \<and> volatile_completed_ids (outbox_of p') = volatile_completed_ids (outbox_of p)
    \<and> (io_script (disk (outbox_of p)) = [] \<and> unsynced_messages p \<noteq> 0 \<longrightarrow>
         unsynced_messages p' = 0 \<and> unsynced_bytes p' = 0)
    \<and> (\<forall>lay. outbox_inv py lay (outbox_of p) \<longrightarrow> outbox_inv py lay (outbox_of p'))"
proof -
  let ?p0 = "cancel_data_timer p"
  have inv0: "group_inv py gm ?p0" using group_inv_cancel(1) [OF inv] .
  have f0: "outbox_of ?p0 = outbox_of p" "data_timer ?p0 = None" "ack_timer ?p0 = ack_timer p"
    "unsynced_messages ?p0 = unsynced_messages p" "acked_since_checkpoint ?p0 = acked_since_checkpoint p"
    by (simp_all add: cancel_data_timer_def)
  from inv obtain lay0 where i0: "outbox_inv py lay0 (outbox_of p)" by (auto dest: group_inv_outbox)
  show ?thesis
  proof (cases "unsynced_messages p = 0")
    case True
    with r f0 have "r = Inr ()" "p' = ?p0" by (simp_all add: sync_group_data_def)
    with inv0 f0 True inv show ?thesis by (auto simp: data_armed_def group_inv_def counted_def)
  next
    case False
    obtain r1 p1 where s: "on_outbox outbox_sync ?p0 = (r1, p1)" by (cases "on_outbox outbox_sync ?p0")
    then obtain ob where ob: "sync_data_locked (outbox_of p) = (r1, ob)" "p1 = ?p0\<lparr>outbox_of := ob\<rparr>"
      by (elim on_outbox_cases) (simp add: outbox_sync_def f0)
    from sync_effect [OF i0 ob(1)] have so: "sync_only (outbox_of p) ob" "r1 = Inr () \<or> r1 = Inl OutboxError"
      "r1 = Inr () \<longrightarrow> \<not> data_sync_pending ob" by auto
    have ct: "contents_of lay ob = contents_of lay (outbox_of p)" using sync_only_contents [OF so(1)] .
    note led = ledger_sync [OF ob(1)]
    have nf: "io_script (disk (outbox_of p)) = [] \<longrightarrow> r1 = Inr ()" using sync_no_failure [OF i0 _ ob(1)] by blast
    have io: "\<forall>lay. outbox_inv py lay (outbox_of p) \<longrightarrow> outbox_inv py lay ob"
      using sync_only_inv [OF _ so(1)] by blast
    have inv1: "group_inv py gm p1"
      unfolding ob(2) by (rule group_inv_ledger [OF inv0 _ sync_only_inv [OF i0 so(1)]]) (use led f0 in simp)
    show ?thesis
    proof (cases r1)
      case (Inl e)
      then have e: "e = OutboxError" using so(2) by simp
      show ?thesis
      proof (cases suppress)
        case True
        with r s Inl e False f0 have "r = Inr ()" "p' = arm_data_timer gm True p1"
          by (simp_all add: sync_group_data_def)
        with True group_inv_arm_data [OF inv1] arm_data_armed ct led False f0 ob(2) nf Inl io show ?thesis by simp
      next
        case noisy: False
        with r s Inl e False f0 have "r = Inl OutboxError" "p' = p1" by (simp_all add: sync_group_data_def)
        with noisy inv1 ct led f0 ob(2) nf Inl io show ?thesis by simp
      qed
    next
      case (Inr u)
      obtain t p2 where c: "read_clock p1 = (t, p2)" by (cases "read_clock p1")
      from read_clock_cases [OF c] obtain steps where p2: "p2 = p1\<lparr>now := t, clock_steps := steps\<rparr>" .
      have "r = Inr ()" "p' = clear_unsynced t p2"
        using r s Inr False f0 c by (simp_all add: sync_group_data_def)
      moreover have "group_inv py gm (clear_unsynced t p2)"
        by (rule group_inv_clear_unsynced [OF group_inv_clock [OF inv1 c]]) (use p2 ob(2) so(3) Inr f0 in simp_all)
      ultimately show ?thesis using p2 ob(2) so(3) Inr f0 ct led io
        by (simp add: clear_unsynced_def data_armed_def)
    qed
  qed
qed


text \<open>The Outbox's own checkpoint, as the policy sees it: the queue is the same.\<close>

lemma outbox_checkpoint_effect:
  assumes inv: "outbox_inv py lay ob" and r: "checkpoint py ob = (r, ob')"
  shows "(\<exists>lay'. outbox_inv py lay' ob' \<and> contents_of lay' ob' = contents_of lay ob)
    \<and> (r = Inr () \<or> r = Inl OutboxError) \<and> ledger ob ob'
    \<and> (r = Inr () \<longrightarrow> \<not> data_sync_pending ob' \<and> volatile_completed_ids ob' = {})"
  using checkpoint_effect [OF inv r] ledger_checkpoint [OF r] by blast

lemma checkpoint_group_effect:
  assumes inv: "group_inv py gm p" and lay: "outbox_inv py lay (outbox_of p)"
    and r: "checkpoint_group py gm suppress p = (r, p')"
  shows "group_inv py gm p'
    \<and> (\<exists>lay'. outbox_inv py lay' (outbox_of p') \<and> contents_of lay' (outbox_of p') = contents_of lay (outbox_of p))
    \<and> (r = Inl OutboxError \<and> \<not> suppress \<or> r = Inr () \<and> ack_armed gm p')
    \<and> (r = Inr () \<and> (\<not> suppress \<or> acked_since_checkpoint p' = 0)
         \<longrightarrow> acked_since_checkpoint p' = 0 \<and> volatile_completed_ids (outbox_of p') = {})
    \<and> (unsynced_messages p' = unsynced_messages p \<and> unsynced_bytes p' = unsynced_bytes p
         \<and> data_timer p' = data_timer p \<or> unsynced_messages p' = 0 \<and> unsynced_bytes p' = 0)"
proof -
  let ?p0 = "cancel_ack_timer p"
  have inv0: "group_inv py gm ?p0" using group_inv_cancel(2) [OF inv] .
  have f0: "outbox_of ?p0 = outbox_of p" "ack_timer ?p0 = None" "data_timer ?p0 = data_timer p"
    "unsynced_messages ?p0 = unsynced_messages p" "acked_since_checkpoint ?p0 = acked_since_checkpoint p"
    "unsynced_bytes ?p0 = unsynced_bytes p"
    by (simp_all add: cancel_ack_timer_def)
  show ?thesis
  proof (cases "acked_since_checkpoint p = 0")
    case True
    with r f0 have "r = Inr ()" "p' = ?p0" by (simp_all add: checkpoint_group_def)
    with inv0 f0 True inv lay show ?thesis by (auto simp: ack_armed_def group_inv_def counted_def)
  next
    case False
    obtain r1 p1 where s: "on_outbox (checkpoint py) ?p0 = (r1, p1)"
      by (cases "on_outbox (checkpoint py) ?p0")
    then obtain ob where ob: "checkpoint py (outbox_of p) = (r1, ob)" "p1 = ?p0\<lparr>outbox_of := ob\<rparr>"
      by (elim on_outbox_cases) (simp add: f0)
    from outbox_checkpoint_effect [OF lay ob(1)] obtain lay' where
      ck: "outbox_inv py lay' ob" "contents_of lay' ob = contents_of lay (outbox_of p)"
      "r1 = Inr () \<or> r1 = Inl OutboxError" "ledger (outbox_of p) ob"
      "r1 = Inr () \<longrightarrow> \<not> data_sync_pending ob \<and> volatile_completed_ids ob = {}" by blast
    have inv1: "group_inv py gm p1"
      unfolding ob(2) by (rule group_inv_ledger [OF inv0 _ ck(1)]) (use ck(4) f0 in simp)
    show ?thesis
    proof (cases r1)
      case (Inl e)
      then have e: "e = OutboxError" using ck(3) by simp
      show ?thesis
      proof (cases suppress)
        case True
        with r s Inl e False f0 have "r = Inr ()" "p' = arm_ack_timer gm True p1"
          by (simp_all add: checkpoint_group_def)
        with True group_inv_arm_ack [OF inv1] arm_ack_armed ck(1,2) False f0 ob(2) show ?thesis by auto
      next
        case noisy: False
        with r s Inl e False f0 have "r = Inl OutboxError" "p' = p1" by (simp_all add: checkpoint_group_def)
        with noisy inv1 ck(1,2) f0 ob(2) show ?thesis by auto
      qed
    next
      case (Inr u)
      obtain t p2 where c: "read_clock p1 = (t, p2)" by (cases "read_clock p1")
      from read_clock_cases [OF c] obtain steps where p2: "p2 = p1\<lparr>now := t, clock_steps := steps\<rparr>" .
      let ?q = "clear_unsynced t (cancel_data_timer (clear_acked t p2))"
      have p': "r = Inr ()" "p' = ?q" using r s Inr False f0 c by (simp_all add: checkpoint_group_def)
      have "group_inv py gm (clear_acked t p2)"
        by (rule group_inv_clear_acked [OF group_inv_clock [OF inv1 c]]) (use p2 ob(2) ck(5) Inr f0 in simp_all)
      from group_inv_cancel(1) [OF this] have "group_inv py gm ?q"
        by (rule group_inv_clear_unsynced)
          (use p2 ob(2) ck(5) Inr in \<open>simp_all add: clear_acked_def cancel_data_timer_def\<close>)
      moreover have "outbox_of ?q = ob" "acked_since_checkpoint ?q = 0" "unsynced_messages ?q = 0"
        "unsynced_bytes ?q = 0"
        by (simp_all add: clear_unsynced_def cancel_data_timer_def clear_acked_def p2 ob(2))
      ultimately show ?thesis using p' ck Inr by (auto simp: ack_armed_def)
    qed
  qed
qed

section \<open>Publishing and completing\<close>


lemma record_size_positive: "record_size py e = Inr n \<Longrightarrow> 0 < n"
  by (auto simp: record_size_def bindE_Inr RECORD_HEADER_SIZE_def split: if_splits)

lemma booked_fields [simp]:
  "outbox_of (booked old t n p) = outbox_of p" "unsynced_messages (booked old t n p) \<noteq> 0"
  by (simp_all add: booked_def Let_def ack_boundary_crossed_def data_boundary_crossed_def
      clear_acked_def cancel_ack_timer_def clear_unsynced_def cancel_data_timer_def)

lemma booked_inv:
  assumes inv: "group_inv py gm p" and ob: "outbox_inv py lay ob" and k: "acks_kept (outbox_of p) ob"
    and t: "now p \<le> t"
  shows "group_inv py gm (booked (outbox_of p) t n (p\<lparr>outbox_of := ob, now := t, clock_steps := steps\<rparr>))"
  using assms
  by (auto simp: booked_def Let_def ack_boundary_crossed_def data_boundary_crossed_def
      clear_acked_def cancel_ack_timer_def clear_unsynced_def cancel_data_timer_def
      group_inv_def counted_def timers_ok_def timer_ok_def acks_kept_def split: option.splits)

text \<open>
  After an accepted append the policy is below its thresholds (or a failed sync has its retry
  timer running) and the unsynced range has a timer.
\<close>

definition within_limits :: "group_mode \<Rightarrow> policy \<Rightarrow> bool" where
  "within_limits gm p \<longleftrightarrow>
     \<not> reached (sync_messages gm) (unsynced_messages p) \<and> \<not> reached (sync_bytes gm) (unsynced_bytes p)"

lemma zero_within: "group_mode_ok gm \<Longrightarrow> unsynced_messages p = 0 \<Longrightarrow> unsynced_bytes p = 0 \<Longrightarrow> within_limits gm p"
  by (auto simp: within_limits_def reached_def group_mode_ok_def positive_count_def split: option.splits)

definition settled :: "python \<Rightarrow> group_mode \<Rightarrow> policy \<Rightarrow> policy \<Rightarrow> bool" where
  "settled py gm p p' \<longleftrightarrow>
     group_inv py gm p' \<and> data_armed gm p'
     \<and> (\<forall>lay. outbox_inv py lay (outbox_of p) \<longrightarrow>
          (\<exists>lay'. outbox_inv py lay' (outbox_of p') \<and> contents_of lay' (outbox_of p') = contents_of lay (outbox_of p)))
     \<and> (io_script (disk (outbox_of p)) = [] \<longrightarrow> within_limits gm p')"

lemma data_step_effect:
  assumes inv: "group_inv py gm p" and u: "unsynced_messages p \<noteq> 0"
    and r: "(if data_due gm t p then sync_group_data gm True p else ret () (arm_data_timer gm False p)) = (r, p')"
  shows "r = Inr () \<and> settled py gm p p'"
proof (cases "data_due gm t p")
  case True
  with r have s: "sync_group_data gm True p = (r, p')" by simp
  note e = sync_group_data_effect [OF inv s]
  have "group_mode_ok gm" using inv by (simp add: group_inv_def)
  with e u show ?thesis by (auto simp: settled_def intro: zero_within)
next
  case False
  with r have "r = Inr ()" "p' = arm_data_timer gm False p" by simp_all
  moreover have "unsynced_bytes (arm_data_timer gm False p) = unsynced_bytes p"
    by (auto simp: arm_data_timer_def read_clock_def Let_def split: option.splits list.splits)
  ultimately show ?thesis using False inv group_inv_arm_data [OF inv] arm_data_armed
    by (auto simp: settled_def within_limits_def data_due_def)
qed


lemma checkpoint_settled:
  assumes st: "settled py gm p p'" and lay: "outbox_inv py lay0 (outbox_of p)"
    and r: "checkpoint_group py gm True p' = (r, q)"
  shows "r = Inr () \<and> settled py gm p q"
proof -
  have inv: "group_inv py gm p'" using st by (simp add: settled_def)
  obtain lay1 where l1: "outbox_inv py lay1 (outbox_of p')" using group_inv_outbox [OF inv] by blast
  note e = checkpoint_group_effect [OF inv _ r]
  have "r = Inr ()" "group_inv py gm q" using e [OF l1] by auto
  moreover have "data_armed gm q" using e [OF l1] st by (auto simp: settled_def data_armed_def)
  moreover have "\<exists>lay'. outbox_inv py lay' (outbox_of q) \<and> contents_of lay' (outbox_of q) = contents_of lay (outbox_of p)"
    if "outbox_inv py lay (outbox_of p)" for lay
  proof -
    from st that obtain lay1 where
      "outbox_inv py lay1 (outbox_of p')" "contents_of lay1 (outbox_of p') = contents_of lay (outbox_of p)"
      by (auto simp: settled_def)
    with e [of lay1] show ?thesis by auto
  qed
  moreover have "within_limits gm q" if "within_limits gm p'"
    using e [OF l1] that inv zero_within [of gm q] by (auto simp: within_limits_def group_inv_def)
  ultimately show ?thesis using st by (simp add: settled_def)
qed

lemma append_group_effect:
  assumes inv: "group_inv py gm p" and lay: "outbox_inv py lay (outbox_of p)" and v: "valid_message py e"
    and r: "append_group py gm e p = (r, p')"
  shows "group_inv py gm p'
    \<and> (\<exists>lay'. outbox_inv py lay' (outbox_of p')
         \<and> contents_of lay' (outbox_of p')
             = contents_of lay (outbox_of p) @ (if r = Inr True then [canon_message e] else []))
    \<and> (r = Inr False \<longrightarrow> msg_id e \<in> set (map msg_id (contents_of lay (outbox_of p))))
    \<and> (r = Inr True \<longrightarrow> data_armed gm p'
         \<and> (io_script (disk (outbox_of p)) = [] \<longrightarrow> within_limits gm p'))"
proof (cases "record_size py e")
  case (Inl x)
  with r have "r = Inl x" "p' = p" by (auto simp: append_group_def)
  with inv lay show ?thesis by auto
next
  case (Inr n)
  have py: "python_ok py" using inv by (simp add: group_inv_def)
  obtain r1 p1 where a: "on_outbox (outbox_append py e False) p = (r1, p1)"
    by (cases "on_outbox (outbox_append py e False) p")
  then obtain ob where ob: "outbox_append py e False (outbox_of p) = (r1, ob)" "p1 = p\<lparr>outbox_of := ob\<rparr>"
    by (elim on_outbox_cases)
  note led = outbox_append_ledger [OF py lay v ob(1)]
  from outbox_append_effect [OF py lay v ob(1)] obtain lay1 where
    o: "outbox_inv py lay1 ob" "same_limits (outbox_of p) ob"
    "contents_of lay1 ob = contents_of lay (outbox_of p) @ (if r1 = Inr True then [canon_message e] else [])"
    "r1 = Inr False \<longrightarrow> msg_id e \<in> set (map msg_id (contents_of lay (outbox_of p)))" by blast
  show ?thesis
  proof (cases "r1 = Inr True")
    case False
    then have "r = r1" "p' = p1"
      using r Inr a by (auto simp: append_group_def andThen_def split: sum.splits)
    moreover have "group_inv py gm p1"
      unfolding ob(2) by (rule group_inv_ledger [OF inv _ o(1)]) (use led False in \<open>auto split: sum.splits bool.splits\<close>)
    ultimately show ?thesis using o ob(2) False by auto
  next
    case True
    obtain t p2 where c: "read_clock p1 = (t, p2)" by (cases "read_clock p1")
    from read_clock_cases [OF c] obtain steps where p2: "p2 = p1\<lparr>now := t, clock_steps := steps\<rparr>" "now p1 \<le> t" .
    let ?p4 = "booked (outbox_of p) t n p2"
    have ob4: "outbox_of ?p4 = ob" by (simp add: p2 ob(2))
    have k: "acks_kept (outbox_of p) ob" using led True by simp
    have inv4: "group_inv py gm ?p4"
      using booked_inv [OF inv o(1) k, of t n steps] p2 ob(2) by simp
    obtain r5 p5 where s5: "(if data_due gm t ?p4 then sync_group_data gm True ?p4
        else ret () (arm_data_timer gm False ?p4)) = (r5, p5)" by fastforce
    from data_step_effect [OF inv4 _ s5] have st5: "r5 = Inr ()" "settled py gm ?p4 p5" by auto
    obtain r6 p6 where s6: "(if completed_closed_segment_pending (outbox_of p5)
        then checkpoint_group py gm True else ret ()) p5 = (r6, p6)" by fastforce
    have l4: "outbox_inv py lay1 (outbox_of ?p4)" using o(1) ob4 by simp
    have st6: "r6 = Inr ()" "settled py gm ?p4 p6"
      using s6 st5(2) checkpoint_settled [OF st5(2) l4] by (auto split: if_splits)
    have "r = Inr True" "p' = p6"
      using r Inr a True c s5 s6 st5(1) st6(1) by (auto simp: append_group_def andThen_def)
    moreover have "io_script (disk (outbox_of p)) = [] \<longrightarrow> io_script (disk ob) = []"
      using o(2) by (auto simp: same_limits_def)
    ultimately show ?thesis using st6(2) o ob4 l4 True by (fastforce simp: settled_def)
  qed
qed


lemma group_inv_acked:
  assumes inv: "group_inv py gm p" and ob: "outbox_inv py lay ob"
    and d: "data_sync_pending ob = data_sync_pending (outbox_of p)"
  shows "group_inv py gm (p\<lparr>outbox_of := ob, acked_since_checkpoint := acked_since_checkpoint p + 1\<rparr>)"
  using assms by (auto simp: group_inv_def counted_def timers_ok_def timer_ok_def split: option.splits)

lemma complete_group_effect:
  assumes inv: "group_inv py gm p" and lay: "outbox_inv py lay (outbox_of p)"
    and r: "complete_group py gm e p = (r, p')"
  shows "group_inv py gm p'
    \<and> (\<exists>lay'. outbox_inv py lay' (outbox_of p')
         \<and> contents_of lay' (outbox_of p')
             = (if r = Inr True then tl else id) (contents_of lay (outbox_of p)))
    \<and> (r = Inr True \<longrightarrow> head_matches py (contents_of lay (outbox_of p)) e \<and> ack_armed gm p')
    \<and> (r = Inr False \<longrightarrow> \<not> head_matches py (contents_of lay (outbox_of p)) e)"
proof -
  have py: "python_ok py" using inv by (simp add: group_inv_def)
  obtain r1 p1 where a: "on_outbox (remove_oldest py e False) p = (r1, p1)"
    by (cases "on_outbox (remove_oldest py e False) p")
  then obtain ob where ob: "remove_oldest py e False (outbox_of p) = (r1, ob)" "p1 = p\<lparr>outbox_of := ob\<rparr>"
    by (elim on_outbox_cases)
  note led = remove_oldest_ledger [OF ob(1)]
  from remove_oldest_effect [OF py lay ob(1)] obtain lay1 where
    o: "removal_outcome py e False lay (outbox_of p) r1 lay1 ob" by blast
  have o1: "outbox_inv py lay1 ob" using o by (simp add: removal_outcome_def)
  show ?thesis
  proof (cases "r1 = Inr True")
    case False
    then have "r = r1" "p' = p1"
      using r a by (auto simp: complete_group_def andThen_def split: sum.splits)
    moreover have "group_inv py gm p1"
      unfolding ob(2) by (rule group_inv_ledger [OF inv _ o1]) (use led False in simp)
    ultimately show ?thesis using o ob(2) False
      by (cases r1) (auto simp: removal_outcome_def)
  next
    case True
    let ?q = "p1\<lparr>acked_since_checkpoint := acked_since_checkpoint p1 + 1\<rparr>"
    obtain t p2 where c: "read_clock ?q = (t, p2)" by (cases "read_clock ?q")
    from read_clock_cases [OF c] obtain steps where p2: "p2 = ?q\<lparr>now := t, clock_steps := steps\<rparr>" .
    have "group_inv py gm ?q"
      using group_inv_acked [OF inv o1] led True ob(2) by simp
    from group_inv_clock [OF this c] have inv2: "group_inv py gm p2" .
    have ob2: "outbox_of p2 = ob" by (simp add: p2 ob(2))
    let ?due = "reached (ack_checkpoint_messages gm) (acked_since_checkpoint p2)
        \<or> elapsed (ack_checkpoint_interval gm) t (last_ack_checkpoint p2)
        \<or> completed_closed_segment_pending (outbox_of p2)"
    obtain r3 p3 where s: "(if ?due then checkpoint_group py gm True p2
        else ret () (arm_ack_timer gm False p2)) = (r3, p3)" by fastforce
    have l2: "outbox_inv py lay1 (outbox_of p2)" using o1 ob2 by simp
    have "r3 = Inr () \<and> group_inv py gm p3 \<and> ack_armed gm p3
      \<and> (\<exists>lay'. outbox_inv py lay' (outbox_of p3) \<and> contents_of lay' (outbox_of p3) = contents_of lay1 ob)"
    proof (cases ?due)
      case True
      with s checkpoint_group_effect [OF inv2 l2, of True r3 p3] ob2 show ?thesis by auto
    next
      case False
      then have "p3 = arm_ack_timer gm False p2" "r3 = Inr ()" using s by auto
      with inv2 group_inv_arm_ack arm_ack_armed l2 ob2 show ?thesis by auto
    qed
    moreover have "r = (case r3 of Inl e \<Rightarrow> Inl e | Inr _ \<Rightarrow> Inr True)" "p' = p3"
      using r a True c s by (auto simp: complete_group_def andThen_def Let_def split: sum.splits)
    ultimately show ?thesis using o True by (auto simp: removal_outcome_def)
  qed
qed

section \<open>Flushing\<close>

text \<open>
  A flush that returns leaves nothing to lose: no unsynced append, no ACK progress in memory
  only, and both counters are zero.
\<close>

lemma policy_flush_effect:
  assumes inv: "group_inv py gm p" and lay: "outbox_inv py lay (outbox_of p)"
    and r: "policy_flush py p = (r, p')"
  shows "group_inv py gm p'
    \<and> (\<exists>lay'. outbox_inv py lay' (outbox_of p') \<and> contents_of lay' (outbox_of p') = contents_of lay (outbox_of p))
    \<and> (r = Inr () \<or> r = Inl OutboxError)
    \<and> (r = Inr () \<longrightarrow> unsynced_messages p' = 0 \<and> acked_since_checkpoint p' = 0
         \<and> \<not> data_sync_pending (outbox_of p') \<and> volatile_completed_ids (outbox_of p') = {})"
proof -
  let ?p0 = "cancel_ack_timer (cancel_data_timer p)"
  have m: "mode p = GroupMode gm" using inv by (simp add: group_inv_def)
  have inv0: "group_inv py gm ?p0" using group_inv_cancel [OF group_inv_cancel(1) [OF inv]] by simp
  have ob0: "outbox_of ?p0 = outbox_of p" by (simp add: cancel_ack_timer_def cancel_data_timer_def)
  obtain r1 p1 where s1: "(if unsynced_messages ?p0 \<noteq> 0 then sync_group_data gm False ?p0
      else ret () ?p0) = (r1, p1)" by fastforce
  have e1: "group_inv py gm p1 \<and> (r1 = Inr () \<or> r1 = Inl OutboxError)
      \<and> (r1 = Inr () \<longrightarrow> unsynced_messages p1 = 0)
      \<and> outbox_inv py lay (outbox_of p1) \<and> contents_of lay (outbox_of p1) = contents_of lay (outbox_of p)"
  proof (cases "unsynced_messages ?p0 = 0")
    case True
    with s1 inv0 lay ob0 show ?thesis by auto
  next
    case False
    with s1 sync_group_data_effect [OF inv0, of False r1 p1 lay] lay ob0 show ?thesis by auto
  qed
  show ?thesis
  proof (cases r1)
    case (Inl x)
    with r s1 m have "r = Inl x" "p' = p1" by (auto simp: policy_flush_def andThen_def)
    with e1 Inl show ?thesis by auto
  next
    case (Inr u)
    obtain r2 p2 where s2: "(if acked_since_checkpoint p1 \<noteq> 0 then checkpoint_group py gm False p1
        else ret () p1) = (r2, p2)" by fastforce
    have "r = r2" "p' = p2"
      using r s1 s2 m Inr by (auto simp: policy_flush_def andThen_def)
    moreover have "group_inv py gm p2 \<and> (r2 = Inr () \<or> r2 = Inl OutboxError)
      \<and> (\<exists>lay'. outbox_inv py lay' (outbox_of p2) \<and> contents_of lay' (outbox_of p2) = contents_of lay (outbox_of p))
      \<and> (r2 = Inr () \<longrightarrow> unsynced_messages p2 = 0 \<and> acked_since_checkpoint p2 = 0)"
    proof (cases "acked_since_checkpoint p1 = 0")
      case True
      with s2 e1 Inr show ?thesis by auto
    next
      case False
      with s2 e1 Inr checkpoint_group_effect [of py gm p1 lay False r2 p2] show ?thesis by auto
    qed
    ultimately show ?thesis by (auto simp: group_inv_def counted_def)
  qed
qed

section \<open>Any order of calls and callbacks\<close>

datatype policy_op =
    DoAppend message_envelope | DoComplete message_envelope | DoCheckpoint | DoFlush
  | DataTimerFires nat | AckTimerFires nat

definition unit_op :: "unit policy_proc \<Rightarrow> bool policy_proc" where
  "unit_op m = andThen m (\<lambda>_. ret True)"

fun run_op :: "python \<Rightarrow> group_mode \<Rightarrow> policy_op \<Rightarrow> bool policy_proc" where
  "run_op py gm (DoAppend e) = policy_append py e"
| "run_op py gm (DoComplete e) = policy_complete py e"
| "run_op py gm DoCheckpoint = unit_op (policy_checkpoint py)"
| "run_op py gm DoFlush = unit_op (policy_flush py)"
| "run_op py gm (DataTimerFires g) = unit_op (on_data_timer gm g)"
| "run_op py gm (AckTimerFires g) = unit_op (on_ack_timer py gm g)"

text \<open>A run ignores the results: a raised exception leaves the policy in the state it had reached.\<close>

fun run_ops :: "python \<Rightarrow> group_mode \<Rightarrow> policy_op list \<Rightarrow> policy \<Rightarrow> policy" where
  "run_ops py gm [] p = p"
| "run_ops py gm (c # cs) p = run_ops py gm cs (snd (run_op py gm c p))"

definition valid_op :: "python \<Rightarrow> policy_op \<Rightarrow> bool" where
  "valid_op py c = (case c of DoAppend e \<Rightarrow> valid_message py e | _ \<Rightarrow> True)"

lemma group_inv_timer_off:
  assumes "group_inv py gm p"
  shows "group_inv py gm (p\<lparr>data_timer := None\<rparr>)" "group_inv py gm (p\<lparr>ack_timer := None\<rparr>)"
  using assms by (auto simp: group_inv_def counted_def timers_ok_def timer_ok_def)

lemma snd_unit_op: "snd (unit_op m p) = snd (m p)"
  by (auto simp: unit_op_def andThen_def split: prod.splits sum.splits)

lemma run_op_inv:
  assumes inv: "group_inv py gm p" and v: "valid_op py c"
  shows "group_inv py gm (snd (run_op py gm c p))"
proof -
  have m: "mode p = GroupMode gm" using inv by (simp add: group_inv_def)
  obtain lay where lay: "outbox_inv py lay (outbox_of p)" using group_inv_outbox [OF inv] by blast
  have lay0: "outbox_inv py lay (outbox_of (p\<lparr>ack_timer := None\<rparr>))" using lay by simp
  show ?thesis
  proof (cases c)
    case (DoAppend e)
    with v append_group_effect [OF inv lay, of e] show ?thesis
      by (cases "append_group py gm e p") (auto simp: policy_append_def m valid_op_def)
  next
    case (DoComplete e)
    with complete_group_effect [OF inv lay, of e] show ?thesis
      by (cases "complete_group py gm e p") (auto simp: policy_complete_def m)
  next
    case DoCheckpoint
    with checkpoint_group_effect [OF inv lay, of False] show ?thesis
      by (cases "checkpoint_group py gm False p") (auto simp: policy_checkpoint_def m snd_unit_op)
  next
    case DoFlush
    with policy_flush_effect [OF inv lay] show ?thesis
      by (cases "policy_flush py p") (auto simp: snd_unit_op)
  next
    case (DataTimerFires g)
    with inv sync_group_data_effect [OF group_inv_timer_off(1) [OF inv], of True] show ?thesis
      by (cases "sync_group_data gm True (p\<lparr>data_timer := None\<rparr>)") (auto simp: on_data_timer_def snd_unit_op)
  next
    case (AckTimerFires g)
    with inv checkpoint_group_effect [OF group_inv_timer_off(2) [OF inv] lay0, of True] show ?thesis
      by (cases "checkpoint_group py gm True (p\<lparr>ack_timer := None\<rparr>)") (auto simp: on_ack_timer_def snd_unit_op)
  qed
qed

lemma run_ops_inv:
  "group_inv py gm p \<Longrightarrow> list_all (valid_op py) cs \<Longrightarrow> group_inv py gm (run_ops py gm cs p)"
  by (induction cs arbitrary: p) (auto intro: run_op_inv)

text \<open>A policy built on an Outbox that has nothing outstanding starts in the invariant.\<close>

lemma new_policy_inv:
  assumes "python_ok py" "group_mode_ok gm" "outbox_inv py lay ob" "\<not> data_sync_pending ob"
    and "volatile_completed_ids ob = {}"
  shows "group_inv py gm (new_policy ob (GroupMode gm) t steps)"
  using assms by (auto simp: group_inv_def new_policy_def counted_def timers_ok_def timer_ok_def)


section \<open>The policy as a store of messages\<close>

definition group_queue :: "python \<Rightarrow> policy \<Rightarrow> message_envelope list" where
  "group_queue py p = queue py (outbox_of p)"

lemma group_append_queue:
  assumes "group_inv py gm p" and "valid_message py e" and "policy_append py e p = (r, p')"
  shows "group_inv py gm p'" "group_queue py p' = group_queue py p @ (if r = Inr True then [canon_message e] else [])"
proof -
  from group_inv_outbox [OF assms(1)] obtain lay where lay: "outbox_inv py lay (outbox_of p)" ..
  have py: "python_ok py" and m: "mode p = GroupMode gm" using assms(1) by (simp_all add: group_inv_def)
  with assms(3) have a: "append_group py gm e p = (r, p')" by (simp add: policy_append_def)
  from append_group_effect [OF assms(1) lay assms(2) a] queue_contents [OF py]
  show "group_inv py gm p'"
    "group_queue py p' = group_queue py p @ (if r = Inr True then [canon_message e] else [])"
    using lay by (auto simp: group_queue_def)
qed

lemma head_matches_Cons: "head_matches py q e \<Longrightarrow> q = hd q # tl q"
  by (cases q) (auto simp: head_matches_def)

lemma group_complete_queue:
  assumes "group_inv py gm p" and "policy_complete py e p = (r, p')"
  shows "group_inv py gm p'"
    "group_queue py p = (if r = Inr True then [hd (group_queue py p)] else []) @ group_queue py p'"
proof -
  from group_inv_outbox [OF assms(1)] obtain lay where lay: "outbox_inv py lay (outbox_of p)" ..
  have py: "python_ok py" and m: "mode p = GroupMode gm" using assms(1) by (simp_all add: group_inv_def)
  with assms(2) have a: "complete_group py gm e p = (r, p')" by (simp add: policy_complete_def)
  from complete_group_effect [OF assms(1) lay a] queue_contents [OF py] head_matches_Cons
  show "group_inv py gm p'"
    "group_queue py p = (if r = Inr True then [hd (group_queue py p)] else []) @ group_queue py p'"
    using lay by (auto simp: group_queue_def)
qed

interpretation group_store: fifo_store "group_inv py gm" "group_queue py" canon_message "valid_message py"
    "policy_append py" "policy_complete py" for py gm
  by unfold_locales (fact group_append_queue group_complete_queue)+

end
