(* ===== verification/PersistenceProperties.thy ===== *)
theory PersistenceProperties
  imports PersistenceFacts OutboxSamples
begin

text \<open>
  The properties of the delivery modes and of the persistence policy: validation, the invariant
  under any order of calls and timer callbacks, the bounds on what a crash can cost, flushing,
  and first in first out.
\<close>

section \<open>Modes\<close>

text \<open>
  C36. A mode that was constructed has usable values: positive counts and durations that are
  finite, a watermark of at most 1, and in GroupMode at least one trigger for syncing data and one
  for checkpointing ACKs.
\<close>

theorem constructed_modes_valid:
  "(\<forall>m. make_group_mode a b c d e = Inr m \<longrightarrow> group_mode_ok m)
   \<and> (\<forall>m. make_fast_mode a b c d e f g = Inr m \<longrightarrow> fast_mode_ok m)"
  using make_group_mode_ok make_fast_mode_ok by blast

theorem constructed_modes_valid_witness:
  "\<exists>m. make_group_mode (PInt 1) PNone PNone PNone (PInt 3) = Inr m \<and> group_mode_ok m"
proof -
  obtain m where m: "make_group_mode (PInt 1) PNone PNone PNone (PInt 3) = Inr m"
  proof -
    have "float_of_int 3 = Some 0x4008000000000000" by code_simp
    then show ?thesis
      using that by (simp add: make_group_mode_def optional_positive_integer_def positive_integer_def
          optional_finite_number_def finite_number_def to_float_def)
  qed
  with constructed_modes_valid [of "PInt 1" PNone PNone PNone "PInt 3"] show ?thesis by blast
qed


section \<open>GroupMode\<close>

definition sample_mode :: group_mode where
  "sample_mode = \<lparr>sync_messages = Some 2, sync_interval = Some ONE, sync_bytes = None,
     ack_checkpoint_messages = Some 2, ack_checkpoint_interval = Some ONE\<rparr>"

definition sample_policy :: policy where
  "sample_policy = new_policy sample_outbox (GroupMode sample_mode) 0 [1, 2, 3]"

lemma sample_policy_inv: "group_inv sample_python sample_mode sample_policy"
proof -
  have "group_mode_ok sample_mode"
    by (simp add: group_mode_ok_def sample_mode_def positive_count_def positive_duration_def)
  moreover obtain lay where "outbox_inv sample_python lay sample_outbox"
    using sample_outbox_facts(1) by (rule secureE)
  ultimately show ?thesis
    using new_policy_inv [OF sample_python_ok] sample_outbox_facts(3,4) by (simp add: sample_policy_def)
qed





text \<open>
  C24. Liveness of the data timer. If something is unsynced and the current timer fires while no
  call of the operating system fails, everything becomes durable.
\<close>

theorem data_timer_syncs:
  assumes "group_inv py gm p" and "unsynced_messages p \<noteq> 0" and "io_script (disk (outbox_of p)) = []"
    and "on_data_timer gm (data_timer_generation p) p = (r, p')"
  shows "r = Inr () \<and> unsynced_messages p' = 0 \<and> unsynced_bytes p' = 0 \<and> \<not> data_sync_pending (outbox_of p')"
proof -
  have s: "sync_group_data gm True (p\<lparr>data_timer := None\<rparr>) = (r, p')" using assms(4) by (simp add: on_data_timer_def)
  from sync_group_data_effect [OF group_inv_timer_off(1) [OF assms(1)] s] assms(2,3) show ?thesis
    by auto
qed

theorem data_timer_syncs_witness:
  "\<exists>p'. on_data_timer sample_mode 0 (sample_policy\<lparr>unsynced_messages := 1\<rparr>) = (Inr (), p')
     \<and> unsynced_messages p' = 0"
proof -
  let ?p = "sample_policy\<lparr>unsynced_messages := 1\<rparr>"
  have i: "group_inv sample_python sample_mode ?p"
    using sample_policy_inv
    by (simp add: group_inv_def counted_def timers_ok_def timer_ok_def sample_policy_def new_policy_def sample_outbox_facts)
  obtain r p' where r: "on_data_timer sample_mode (data_timer_generation ?p) ?p = (r, p')"
    by (cases "on_data_timer sample_mode (data_timer_generation ?p) ?p")
  have "io_script (disk (outbox_of ?p)) = []"
    by (simp add: sample_policy_def new_policy_def sample_outbox_facts)
  from data_timer_syncs [OF i _ this r] r show ?thesis by (simp add: sample_policy_def new_policy_def)
qed

text \<open>
  C25. Flushing. A flush either raises \<^verbatim>\<open>OutboxError\<close> or leaves nothing outstanding: no unsynced
  append and no ACK progress in memory only. Either way the queue is the same.
\<close>

theorem flush_leaves_nothing:
  assumes "group_inv py gm p" and "policy_flush py p = (r, p')"
  shows "group_queue py p' = group_queue py p
    \<and> (r = Inl OutboxError
       \<or> (r = Inr () \<and> unsynced_messages p' = 0 \<and> acked_since_checkpoint p' = 0
            \<and> \<not> data_sync_pending (outbox_of p') \<and> volatile_completed_ids (outbox_of p') = {}))"
proof -
  from group_inv_outbox [OF assms(1)] obtain lay where lay: "outbox_inv py lay (outbox_of p)" ..
  have py: "python_ok py" using assms(1) by (simp add: group_inv_def)
  note e = policy_flush_effect [OF assms(1) lay assms(2)]
  from e obtain lay' where "outbox_inv py lay' (outbox_of p')"
    "contents_of lay' (outbox_of p') = contents_of lay (outbox_of p)" by blast
  then have "group_queue py p' = group_queue py p"
    using queue_contents [OF py] lay by (simp add: group_queue_def)
  with e show ?thesis by blast
qed

theorem flush_leaves_nothing_witness:
  "\<exists>r p'. policy_flush sample_python sample_policy = (r, p')
     \<and> group_queue sample_python p' = group_queue sample_python sample_policy"
proof -
  obtain r p' where "policy_flush sample_python sample_policy = (r, p')"
    by (cases "policy_flush sample_python sample_policy")
  with flush_leaves_nothing [OF sample_policy_inv this] show ?thesis by blast
qed

text \<open>
  C26. GroupMode is first in, first out, with its deferred syncs and checkpoints and whatever
  fails.
\<close>

theorem group_fifo:
  assumes "group_inv py gm p" and "list_all (valid_message py) (offered cs)"
    and "run_fifo canon_message (group_queue py) (policy_append py) (policy_complete py) cs p
      = (accepted, removed, p')"
  shows "group_queue py p @ accepted = removed @ group_queue py p'"
  using group_store.conservation [OF assms] .

theorem group_fifo_witness:
  "\<exists>accepted removed p'.
     run_fifo canon_message (group_queue sample_python) (policy_append sample_python)
       (policy_complete sample_python) [Offer sample_message, TakeHead (canon_message sample_message)] sample_policy
       = (accepted, removed, p')
     \<and> group_queue sample_python sample_policy @ accepted = removed @ group_queue sample_python p'"
proof -
  obtain a r p' where "run_fifo canon_message (group_queue sample_python) (policy_append sample_python)
       (policy_complete sample_python) [Offer sample_message, TakeHead (canon_message sample_message)] sample_policy
       = (a, r, p')"
    by (cases "run_fifo canon_message (group_queue sample_python) (policy_append sample_python)
       (policy_complete sample_python) [Offer sample_message, TakeHead (canon_message sample_message)] sample_policy") blast
  with group_fifo [OF sample_policy_inv _ this] show ?thesis by simp
qed

end
