(* ===== verification/Config.thy ===== *)
theory Config
  imports Durability
begin

text \<open>
  The configuration objects (\<^verbatim>\<open>src/reliomq/config.py\<close>) and the log levels they accept
  (\<^verbatim>\<open>src/reliomq/observability.py\<close>). A constructor takes a record of its arguments, in which
  \<open>PNone\<close> is an argument that was not given, and returns a validated record or an error.
\<close>

section \<open>Text helpers of the standard library\<close>

text \<open>\<^verbatim>\<open>str.isspace\<close> of one character, and \<^verbatim>\<open>str.strip\<close>.\<close>

definition py_space :: "nat \<Rightarrow> bool" where
  "py_space c \<longleftrightarrow> (9 \<le> c \<and> c \<le> 13) \<or> (0x1C \<le> c \<and> c \<le> 0x20) \<or> c = 0x85 \<or> c = 0xA0 \<or> c = 0x1680
     \<or> (0x2000 \<le> c \<and> c \<le> 0x200A) \<or> c = 0x2028 \<or> c = 0x2029 \<or> c = 0x202F \<or> c = 0x205F \<or> c = 0x3000"

definition strip :: "pystr \<Rightarrow> pystr" where
  "strip s = rev (dropWhile py_space (rev (dropWhile py_space s)))"

text \<open>
  \<^verbatim>\<open>str.upper\<close> as far as it can produce the name of a log level: ASCII letters, and the dotless i,
  the only other character whose upper case is one of the letters in those names.
\<close>

definition upper :: "pystr \<Rightarrow> pystr" where
  "upper s = map (\<lambda>c. if 97 \<le> c \<and> c \<le> 122 then c - 32 else if c = 0x131 then 73 else c) s"

text \<open>A POSIX path: its root and its components. Empty components and dots are dropped.\<close>

record path =
  root :: pystr
  parts :: "pystr list"

fun split_slash :: "pystr \<Rightarrow> pystr \<Rightarrow> pystr list" where
  "split_slash [] acc = [acc]"
| "split_slash (c # cs) acc = (if c = 47 then acc # split_slash cs [] else split_slash cs (acc @ [c]))"

definition parse_path :: "pystr \<Rightarrow> path" where
  "parse_path s =
     \<lparr>root = (if take 1 s \<noteq> [47] then []
              else if take 2 s = [47, 47] \<and> take 3 s \<noteq> [47, 47, 47] then [47, 47] else [47]),
      parts = filter (\<lambda>p. p \<noteq> [] \<and> p \<noteq> [46]) (split_slash s [])\<rparr>"

text \<open>
  \<^verbatim>\<open>Path.expanduser\<close>: \<open>home\<close> is what the environment answers for a first component that starts
  with a tilde; an answer that still starts with a tilde is a \<^verbatim>\<open>RuntimeError\<close>.
\<close>

definition expanduser :: "(pystr \<Rightarrow> pystr) \<Rightarrow> path \<Rightarrow> py_error + path" where
  "expanduser home p =
     (case parts p of
        first # rest \<Rightarrow>
          if root p = [] \<and> take 1 first = [126] then
            (if take 1 (home first) = [126] then Inl RuntimeError
             else (let q = parse_path (home first) in Inr (q\<lparr>parts := parts q @ rest\<rparr>)))
          else Inr p
      | [] \<Rightarrow> Inr p)"

section \<open>Log levels\<close>

definition DEBUG :: int where
  "DEBUG = 10"

definition LEVEL_NAMES :: "(pystr \<times> int) list" where
  "LEVEL_NAMES = [(ustr ''DEBUG'', 10), (ustr ''INFO'', 20), (ustr ''WARNING'', 30),
     (ustr ''WARN'', 30), (ustr ''ERROR'', 40), (ustr ''CRITICAL'', 50)]"

definition normalize_log_level :: "pyval \<Rightarrow> py_error + int" where
  "normalize_log_level value =
     (case value of
        PInt i \<Rightarrow> Inr i
      | PStr s \<Rightarrow> (case map_of LEVEL_NAMES (upper (strip s)) of None \<Rightarrow> Inl ValueError | Some l \<Rightarrow> Inr l)
      | _ \<Rightarrow> Inl ValueError)"

section \<open>Field validators\<close>

definition config_text :: "pyval \<Rightarrow> py_error + pystr" where
  "config_text value =
     (case value of
        PStr s \<Rightarrow> if strip s = [] \<or> 0 \<in> set s \<or> utf8_encode s = None then Inl ConfigError else Inr s
      | _ \<Rightarrow> Inl ConfigError)"

definition config_host :: "pyval \<Rightarrow> py_error + pystr" where
  "config_host value =
     bindE (config_text value) (\<lambda>t.
       let host = strip t in if list_ex py_space host then Inl ConfigError else Inr host)"

definition config_port :: "pyval \<Rightarrow> py_error + int" where
  "config_port value =
     (case value of PInt i \<Rightarrow> if 1 \<le> i \<and> i \<le> 65535 then Inr i else Inl ConfigError
      | _ \<Rightarrow> Inl ConfigError)"

definition config_keepalive :: "pyval \<Rightarrow> py_error + int" where
  "config_keepalive value =
     (case value of PInt i \<Rightarrow> if 1 \<le> i \<and> i \<le> 65535 then Inr i else Inl ConfigError
      | _ \<Rightarrow> Inl ConfigError)"

definition config_positive_number :: "pyval \<Rightarrow> py_error + float64" where
  "config_positive_number value =
     (case value of
        PInt i \<Rightarrow>
          if i \<le> 0 then Inl ConfigError
          else (case float_of_int i of None \<Rightarrow> Inl ConfigError | Some w \<Rightarrow> Inr w)
      | PFloat w \<Rightarrow> if \<not> float_isfinite w \<or> float_units w \<le> 0 then Inl ConfigError else Inr w
      | _ \<Rightarrow> Inl ConfigError)"

definition config_positive_integer :: "pyval \<Rightarrow> py_error + int" where
  "config_positive_integer value =
     (case value of PInt i \<Rightarrow> if i \<le> 0 then Inl ConfigError else Inr i | _ \<Rightarrow> Inl ConfigError)"

definition qos_one :: "pyval \<Rightarrow> py_error + int" where
  "qos_one value = (case value of PInt i \<Rightarrow> if i = 1 then Inr i else Inl ConfigError | _ \<Rightarrow> Inl ConfigError)"

text \<open>The length of the UTF-8 form of a text that has one.\<close>

definition utf8_length :: "pystr \<Rightarrow> nat" where
  "utf8_length s = (case utf8_encode s of None \<Rightarrow> 0 | Some bs \<Rightarrow> length bs)"

definition config_client_id :: "pyval \<Rightarrow> py_error + pystr option" where
  "config_client_id value =
     (if value = PNone then Inr None
      else bindE (config_text value) (\<lambda>s.
             if utf8_length s > 65535 then Inl ConfigError else Inr (Some s)))"

definition config_publish_topic :: "pyval \<Rightarrow> py_error + pystr" where
  "config_publish_topic value =
     bindE (config_text value) (\<lambda>topic.
       if 43 \<in> set topic \<or> 35 \<in> set topic then Inl ConfigError
       else if utf8_length topic > 65535 then Inl ConfigError else Inr topic)"

text \<open>
  The path argument: a \<^verbatim>\<open>str\<close>, an \<^verbatim>\<open>os.PathLike\<close> whose \<^verbatim>\<open>__fspath__\<close> is a text, one whose
  \<^verbatim>\<open>__fspath__\<close> is \<^verbatim>\<open>bytes\<close> (or \<^verbatim>\<open>bytes\<close> itself), or an object that is no path.
\<close>

datatype path_argument = TextPath pystr | PathLike pystr | BytesPath bytes | NotAPath

definition outbox_path_value :: "(pystr \<Rightarrow> pystr) \<Rightarrow> path_argument \<Rightarrow> py_error + path" where
  "outbox_path_value home value =
     (let from_text = (\<lambda>raw. if raw = [] \<or> 0 \<in> set raw then Inl ConfigError
                              else expanduser home (parse_path raw))
      in case value of
           TextPath raw \<Rightarrow> from_text raw
         | PathLike raw \<Rightarrow> from_text raw
         | BytesPath _ \<Rightarrow> Inl ConfigError
         | NotAPath \<Rightarrow> Inl ConfigError)"

definition validate_reconnect_range :: "float64 \<Rightarrow> float64 \<Rightarrow> py_error + unit" where
  "validate_reconnect_range minimum maximum =
     (if float_units minimum > float_units maximum then Inl ConfigError else Inr ())"

definition debug_flag :: "pyval \<Rightarrow> py_error + bool" where
  "debug_flag value = (case value of PBool b \<Rightarrow> Inr b | _ \<Rightarrow> Inl ConfigError)"

definition config_log_level :: "pyval \<Rightarrow> bool \<Rightarrow> py_error + int option" where
  "config_log_level value debug =
     (if value = PNone then Inr (if debug then Some DEBUG else None)
      else (case normalize_log_level value of
              Inl _ \<Rightarrow> Inl ConfigError
            | Inr resolved \<Rightarrow>
                if debug \<and> resolved \<noteq> DEBUG then Inl ConfigError else Inr (Some resolved)))"

section \<open>Renamed arguments\<close>

definition given :: "pyval \<Rightarrow> pyval option" where
  "given v = (if v = PNone then None else Some v)"

definition resolve_one :: "pyval \<Rightarrow> pyval \<Rightarrow> string \<Rightarrow> pyval \<Rightarrow> py_error + pyval" where
  "resolve_one new_value old_value old_name dflt =
     snd (resolve_renamed_argument py_eq (given new_value) (given old_value) old_name dflt ConfigError)"

definition DEFAULT_RELAY_TOPIC :: pyval where
  "DEFAULT_RELAY_TOPIC = PStr (ustr ''reliomq/messages'')"

definition DEFAULT_DELIVERY_ACK_TOPIC :: pyval where
  "DEFAULT_DELIVERY_ACK_TOPIC = PStr (ustr ''reliomq/acks'')"

definition resolve_relay_topic :: "pyval \<Rightarrow> pyval \<Rightarrow> pyval \<Rightarrow> py_error + pyval" where
  "resolve_relay_topic relay_topic envelope_topic data_topic =
     snd (resolve_renamed_argument_chain py_eq (given relay_topic) ''relay_topic''
       [(given envelope_topic, ''envelope_topic''), (given data_topic, ''data_topic'')]
       DEFAULT_RELAY_TOPIC ConfigError)"

section \<open>SenderConfig\<close>

record sender_config =
  sc_host :: pystr
  sc_outbox_path :: path
  sc_port :: int
  sc_client_id :: "pystr option"
  sc_relay_topic :: pystr
  sc_delivery_ack_topic :: pystr
  sc_qos :: int
  sc_delivery_ack_timeout :: float64
  sc_retry_interval :: float64
  sc_keepalive :: int
  sc_mqtt_puback_timeout :: float64
  sc_reconnect_min_delay :: float64
  sc_reconnect_max_delay :: float64
  sc_log_level :: "int option"
  sc_debug :: bool

record sender_args =
  a_host :: pyval
  a_outbox_path :: "path_argument option"
  a_port :: pyval
  a_client_id :: pyval
  a_relay_topic :: pyval
  a_delivery_ack_topic :: pyval
  a_qos :: pyval
  a_delivery_ack_timeout :: pyval
  a_retry_interval :: pyval
  a_keepalive :: pyval
  a_mqtt_puback_timeout :: pyval
  a_reconnect_min_delay :: pyval
  a_reconnect_max_delay :: pyval
  a_log_level :: pyval
  a_debug :: pyval
  a_queue_path :: "path_argument option"
  a_envelope_topic :: pyval
  a_data_topic :: pyval
  a_ack_topic :: pyval
  a_ack_timeout :: pyval
  a_publish_timeout :: pyval

text \<open>The keyword defaults of \<^verbatim>\<open>SenderConfig.__init__\<close>: 1.0, 10.0 and 60.0 as doubles.\<close>

definition sender_args_default :: "pyval \<Rightarrow> path_argument \<Rightarrow> sender_args" where
  "sender_args_default host outbox_path =
     \<lparr>a_host = host, a_outbox_path = Some outbox_path, a_port = PInt 1883, a_client_id = PNone,
      a_relay_topic = PNone, a_delivery_ack_topic = PNone, a_qos = PInt 1,
      a_delivery_ack_timeout = PNone, a_retry_interval = PFloat 0x4024000000000000,
      a_keepalive = PInt 60, a_mqtt_puback_timeout = PNone,
      a_reconnect_min_delay = PFloat ONE, a_reconnect_max_delay = PFloat 0x404E000000000000,
      a_log_level = PNone, a_debug = PBool False, a_queue_path = None, a_envelope_topic = PNone,
      a_data_topic = PNone, a_ack_topic = PNone, a_ack_timeout = PNone, a_publish_timeout = PNone\<rparr>"

text \<open>\<^verbatim>\<open>__post_init__\<close>: every field validated and normalised, in this order.\<close>

definition sender_post_init :: "(pystr \<Rightarrow> pystr) \<Rightarrow> path_argument \<Rightarrow> sender_args \<Rightarrow> py_error + sender_config" where
  "sender_post_init home outbox_path a =
     bindE (config_host (a_host a)) (\<lambda>host.
     bindE (outbox_path_value home outbox_path) (\<lambda>path.
     bindE (config_port (a_port a)) (\<lambda>port.
     bindE (config_client_id (a_client_id a)) (\<lambda>client_id.
     bindE (config_publish_topic (a_relay_topic a)) (\<lambda>relay_topic.
     bindE (config_publish_topic (a_delivery_ack_topic a)) (\<lambda>ack_topic.
       if relay_topic = ack_topic then Inl ConfigError
       else
     bindE (qos_one (a_qos a)) (\<lambda>qos.
     bindE (config_positive_number (a_delivery_ack_timeout a)) (\<lambda>ack_timeout.
     bindE (config_positive_number (a_retry_interval a)) (\<lambda>retry_interval.
     bindE (config_keepalive (a_keepalive a)) (\<lambda>keepalive.
     bindE (config_positive_number (a_mqtt_puback_timeout a)) (\<lambda>puback_timeout.
     bindE (config_positive_number (a_reconnect_min_delay a)) (\<lambda>reconnect_minimum.
     bindE (config_positive_number (a_reconnect_max_delay a)) (\<lambda>reconnect_maximum.
     bindE (validate_reconnect_range reconnect_minimum reconnect_maximum) (\<lambda>_.
     bindE (debug_flag (a_debug a)) (\<lambda>debug.
     bindE (config_log_level (a_log_level a) debug) (\<lambda>log_level.
       Inr \<lparr>sc_host = host, sc_outbox_path = path, sc_port = port, sc_client_id = client_id,
         sc_relay_topic = relay_topic, sc_delivery_ack_topic = ack_topic, sc_qos = qos,
         sc_delivery_ack_timeout = ack_timeout, sc_retry_interval = retry_interval,
         sc_keepalive = keepalive, sc_mqtt_puback_timeout = puback_timeout,
         sc_reconnect_min_delay = reconnect_minimum, sc_reconnect_max_delay = reconnect_maximum,
         sc_log_level = log_level, sc_debug = debug\<rparr>))))))))))))))))"

definition sender_config_init :: "(pystr \<Rightarrow> pystr) \<Rightarrow> sender_args \<Rightarrow> py_error + sender_config" where
  "sender_config_init home a =
     bindE (snd (resolve_renamed_argument (=) (a_outbox_path a) (a_queue_path a) ''queue_path'' NotAPath ConfigError)) (\<lambda>path.
       if a_outbox_path a = None \<and> a_queue_path a = None then Inl ConfigError
       else
     bindE (resolve_relay_topic (a_relay_topic a) (a_envelope_topic a) (a_data_topic a)) (\<lambda>relay_topic.
     bindE (resolve_one (a_delivery_ack_topic a) (a_ack_topic a) ''ack_topic'' DEFAULT_DELIVERY_ACK_TOPIC) (\<lambda>ack_topic.
     bindE (resolve_one (a_delivery_ack_timeout a) (a_ack_timeout a) ''ack_timeout'' (PFloat 0x4008000000000000)) (\<lambda>ack_timeout.
     bindE (resolve_one (a_mqtt_puback_timeout a) (a_publish_timeout a) ''publish_timeout'' (PFloat 0x4000000000000000)) (\<lambda>puback_timeout.
       sender_post_init home path
         (a\<lparr>a_relay_topic := relay_topic, a_delivery_ack_topic := ack_topic,
            a_delivery_ack_timeout := ack_timeout, a_mqtt_puback_timeout := puback_timeout\<rparr>))))))"

section \<open>RelayConfig\<close>

record relay_config =
  rc_source_host :: pystr
  rc_destination_host :: pystr
  rc_source_port :: int
  rc_destination_port :: int
  rc_source_client_id :: "pystr option"
  rc_destination_client_id :: "pystr option"
  rc_relay_topic :: pystr
  rc_delivery_ack_topic :: pystr
  rc_qos :: int
  rc_keepalive :: int
  rc_destination_publish_timeout :: float64
  rc_source_ack_publish_timeout :: float64
  rc_retry_interval :: float64
  rc_reconnect_min_delay :: float64
  rc_reconnect_max_delay :: float64
  rc_max_queue_size :: int
  rc_log_level :: "int option"
  rc_debug :: bool

record relay_args =
  b_source_host :: pyval
  b_destination_host :: pyval
  b_source_port :: pyval
  b_destination_port :: pyval
  b_source_client_id :: pyval
  b_destination_client_id :: pyval
  b_relay_topic :: pyval
  b_delivery_ack_topic :: pyval
  b_qos :: pyval
  b_keepalive :: pyval
  b_destination_publish_timeout :: pyval
  b_source_ack_publish_timeout :: pyval
  b_retry_interval :: pyval
  b_reconnect_min_delay :: pyval
  b_reconnect_max_delay :: pyval
  b_max_queue_size :: pyval
  b_log_level :: pyval
  b_debug :: pyval
  b_envelope_topic :: pyval
  b_data_topic :: pyval
  b_ack_topic :: pyval

definition relay_post_init :: "relay_args \<Rightarrow> py_error + relay_config" where
  "relay_post_init a =
     bindE (config_host (b_source_host a)) (\<lambda>source_host.
     bindE (config_host (b_destination_host a)) (\<lambda>destination_host.
     bindE (config_port (b_source_port a)) (\<lambda>source_port.
     bindE (config_port (b_destination_port a)) (\<lambda>destination_port.
     bindE (config_client_id (b_source_client_id a)) (\<lambda>source_client_id.
     bindE (config_client_id (b_destination_client_id a)) (\<lambda>destination_client_id.
     bindE (config_publish_topic (b_relay_topic a)) (\<lambda>relay_topic.
     bindE (config_publish_topic (b_delivery_ack_topic a)) (\<lambda>ack_topic.
       if relay_topic = ack_topic then Inl ConfigError
       else if source_host = destination_host \<and> source_port = destination_port
               \<and> source_client_id \<noteq> None \<and> source_client_id = destination_client_id
       then Inl ConfigError
       else
     bindE (qos_one (b_qos a)) (\<lambda>qos.
     bindE (config_keepalive (b_keepalive a)) (\<lambda>keepalive.
     bindE (config_positive_number (b_destination_publish_timeout a)) (\<lambda>destination_timeout.
     bindE (config_positive_number (b_source_ack_publish_timeout a)) (\<lambda>ack_timeout.
     bindE (config_positive_number (b_retry_interval a)) (\<lambda>retry_interval.
     bindE (config_positive_number (b_reconnect_min_delay a)) (\<lambda>reconnect_minimum.
     bindE (config_positive_number (b_reconnect_max_delay a)) (\<lambda>reconnect_maximum.
     bindE (validate_reconnect_range reconnect_minimum reconnect_maximum) (\<lambda>_.
     bindE (config_positive_integer (b_max_queue_size a)) (\<lambda>max_queue_size.
     bindE (debug_flag (b_debug a)) (\<lambda>debug.
     bindE (config_log_level (b_log_level a) debug) (\<lambda>log_level.
       Inr \<lparr>rc_source_host = source_host, rc_destination_host = destination_host,
         rc_source_port = source_port, rc_destination_port = destination_port,
         rc_source_client_id = source_client_id, rc_destination_client_id = destination_client_id,
         rc_relay_topic = relay_topic, rc_delivery_ack_topic = ack_topic, rc_qos = qos,
         rc_keepalive = keepalive, rc_destination_publish_timeout = destination_timeout,
         rc_source_ack_publish_timeout = ack_timeout, rc_retry_interval = retry_interval,
         rc_reconnect_min_delay = reconnect_minimum, rc_reconnect_max_delay = reconnect_maximum,
         rc_max_queue_size = max_queue_size, rc_log_level = log_level, rc_debug = debug\<rparr>)))))))))))))))))))"

definition relay_config_init :: "relay_args \<Rightarrow> py_error + relay_config" where
  "relay_config_init a =
     bindE (resolve_relay_topic (b_relay_topic a) (b_envelope_topic a) (b_data_topic a)) (\<lambda>relay_topic.
     bindE (resolve_one (b_delivery_ack_topic a) (b_ack_topic a) ''ack_topic'' DEFAULT_DELIVERY_ACK_TOPIC) (\<lambda>ack_topic.
       relay_post_init (a\<lparr>b_relay_topic := relay_topic, b_delivery_ack_topic := ack_topic\<rparr>)))"

end
