(* ===== verification/ConfigProperties.thy ===== *)
theory ConfigProperties
  imports Config Samples
begin

text \<open>
  The properties of the configuration objects: every field of an accepted configuration is in its
  range, and a rejected one raises \<^verbatim>\<open>ConfigError\<close>.
\<close>

section \<open>An integer as a double\<close>

lemma log2_power: "0 < n \<Longrightarrow> 2 ^ log2 n \<le> n"
proof (induction n rule: log2.induct)
  case (1 n)
  show ?case
  proof (cases "n < 2")
    case True
    with 1 show ?thesis by (simp add: log2.simps [of n])
  next
    case False
    with 1 have "2 ^ log2 (n div 2) \<le> n div 2" by simp
    with False show ?thesis by (simp add: log2.simps [of n])
  qed
qed

lemma mantissa_high:
  assumes "0 < n"
  shows "2 ^ 52 \<le> (if log2 n \<le> 52 then n * 2 ^ (52 - log2 n)
    else let q = n div 2 ^ (log2 n - 52); r = n mod 2 ^ (log2 n - 52); half = 2 ^ (log2 n - 53)
         in if r > half \<or> (r = half \<and> odd q) then q + 1 else q)"
proof (cases "log2 n \<le> 52")
  case True
  have "2 ^ log2 n * 2 ^ (52 - log2 n) \<le> n * 2 ^ (52 - log2 n)" using log2_power [OF assms] by simp
  moreover have "2 ^ log2 n * 2 ^ (52 - log2 n) = (2 ^ 52 :: nat)" using True by (simp flip: power_add)
  ultimately show ?thesis using True by simp
next
  case False
  then have "2 ^ log2 n = (2 ^ 52 * 2 ^ (log2 n - 52) :: nat)"
    using power_add [of "2 :: nat" 52 "log2 n - 52"] by simp
  with log2_power [OF assms] have "2 ^ 52 \<le> n div 2 ^ (log2 n - 52)" by (simp add: less_eq_div_iff_mult_less_eq)
  with False show ?thesis by (simp add: Let_def)
qed

lemma double_of_bits:
  assumes "1023 * 2 ^ 52 \<le> k" and "k < 0x7FF * 2 ^ 52"
  shows "float_isfinite (of_nat k)" "0 < float_units (of_nat k)"
proof -
  let ?w = "of_nat k :: float64"
  have u: "unat ?w = k" using assms(2) by (simp add: unsigned_of_nat take_bit_nat_eq_self)
  have d: "k div 2 ^ 52 < 0x7FF" "1023 \<le> k div 2 ^ 52" using assms by simp_all
  have m: "(0x7FF :: nat) = mask 11" by (simp add: mask_eq_exp_minus_1)
  have "unat (drop_bit 52 ?w) = drop_bit 52 k"
    using assms(2) by (simp add: unsigned_drop_bit_eq u take_bit_nat_eq_self)
  then have q: "unat (drop_bit 52 ?w) = k div 2 ^ 52" by (simp only: drop_bit_eq_div)
  have "unat (drop_bit 52 ?w AND 0x7FF) = (k div 2 ^ 52) AND 0x7FF" unfolding unsigned_and_eq q by simp
  also have "\<dots> = k div 2 ^ 52" unfolding m using d(1) by (simp add: take_bit_nat_eq_self flip: take_bit_eq_mask)
  finally have e: "unat (drop_bit 52 ?w AND 0x7FF) = k div 2 ^ 52" .
  have s: "\<not> bit ?w 63"
  proof -
    have "bit ?w 63 \<longleftrightarrow> bit (unat ?w) 63" by (simp add: bit_unsigned_iff)
    also have "\<dots> \<longleftrightarrow> odd (k div 2 ^ 63)" by (simp only: u bit_iff_odd)
    finally show ?thesis using assms(2) by simp
  qed
  show "float_isfinite ?w" unfolding float_isfinite_def
  proof
    assume "drop_bit 52 ?w AND 0x7FF = 0x7FF"
    with e d(1) show False by simp
  qed
  show "0 < float_units ?w" using s d(2) unfolding float_units_def Let_def e
    by (auto simp: zero_less_mult_iff add_pos_nonneg)
qed

lemma float_of_int_positive:
  assumes "0 < i" and "float_of_int i = Some w"
  shows "float_isfinite w \<and> 0 < float_units w"
proof -
  let ?n = "nat \<bar>i\<bar>"
  define m where "m = (if log2 ?n \<le> 52 then ?n * 2 ^ (52 - log2 ?n)
    else let q = ?n div 2 ^ (log2 ?n - 52); r = ?n mod 2 ^ (log2 ?n - 52); half = 2 ^ (log2 ?n - 53)
         in if r > half \<or> (r = half \<and> odd q) then q + 1 else q)"
  define k where "k = (log2 ?n + 1023) * 2 ^ 52 + m - 2 ^ 52"
  have m: "2 ^ 52 \<le> m" unfolding m_def by (rule mantissa_high) (use assms(1) in simp)
  have "1023 * 2 ^ 52 + 2 ^ 52 \<le> (log2 ?n + 1023) * 2 ^ 52 + m"
    using m by (intro add_mono mult_right_mono) simp_all
  then have k: "1023 * 2 ^ 52 \<le> k" unfolding k_def by simp
  have "float_of_int i = (if ?n = 0 then Some 0 else if 0x7FF * 2 ^ 52 \<le> k then None
      else Some (of_nat (k + (if i < 0 then 2 ^ 63 else 0))))"
    unfolding float_of_int_def k_def m_def Let_def ..
  then have "w = of_nat k \<and> k < 0x7FF * 2 ^ 52" using assms by (auto split: if_splits)
  with double_of_bits [OF k] show ?thesis by simp
qed

section \<open>Accepted fields\<close>

definition duration_ok :: "float64 \<Rightarrow> bool" where
  "duration_ok w \<longleftrightarrow> float_isfinite w \<and> 0 < float_units w"

definition topic_ok :: "pystr \<Rightarrow> bool" where
  "topic_ok t \<longleftrightarrow> t \<noteq> [] \<and> 0 \<notin> set t \<and> 43 \<notin> set t \<and> 35 \<notin> set t \<and> utf8_length t \<le> 65535"

definition host_ok :: "pystr \<Rightarrow> bool" where
  "host_ok h \<longleftrightarrow> h \<noteq> [] \<and> list_all (\<lambda>c. \<not> py_space c) h"

definition client_id_ok :: "pystr option \<Rightarrow> bool" where
  "client_id_ok i \<longleftrightarrow> (case i of None \<Rightarrow> True | Some s \<Rightarrow> s \<noteq> [] \<and> utf8_length s \<le> 65535)"

definition port_ok :: "int \<Rightarrow> bool" where
  "port_ok n \<longleftrightarrow> 1 \<le> n \<and> n \<le> 65535"

named_theorems accepts \<open>what an accepted field satisfies\<close>

lemma config_positive_number_ok [accepts]: "config_positive_number v = Inr w \<Longrightarrow> duration_ok w"
  using float_of_int_positive
  by (auto simp: config_positive_number_def duration_ok_def not_le split: pyval.splits if_splits option.splits)

lemma config_text_ok: "config_text v = Inr s \<Longrightarrow> s \<noteq> [] \<and> 0 \<notin> set s \<and> strip s \<noteq> []"
  by (auto simp: config_text_def strip_def split: pyval.splits if_splits)

lemma config_publish_topic_ok [accepts]: "config_publish_topic v = Inr t \<Longrightarrow> topic_ok t"
  using config_text_ok by (auto simp: config_publish_topic_def topic_ok_def bindE_Inr split: if_splits)

lemma config_host_ok [accepts]: "config_host v = Inr h \<Longrightarrow> host_ok h"
  using config_text_ok
  by (auto simp: config_host_def host_ok_def bindE_Inr Let_def list_ex_iff list_all_iff split: if_splits)

lemma config_client_id_ok [accepts]: "config_client_id v = Inr i \<Longrightarrow> client_id_ok i"
  using config_text_ok
  by (auto simp: config_client_id_def client_id_ok_def bindE_Inr not_less split: if_splits)

lemma config_port_ok [accepts]: "config_port v = Inr n \<Longrightarrow> port_ok n"
  and config_keepalive_ok [accepts]: "config_keepalive v = Inr n \<Longrightarrow> port_ok n"
  by (auto simp: config_port_def config_keepalive_def port_ok_def split: pyval.splits if_splits)

lemma qos_one_ok [accepts]: "qos_one v = Inr n \<Longrightarrow> n = 1"
  by (auto simp: qos_one_def split: pyval.splits if_splits)

lemma config_positive_integer_ok [accepts]: "config_positive_integer v = Inr n \<Longrightarrow> 0 < n"
  by (auto simp: config_positive_integer_def split: pyval.splits if_splits)

lemma reconnect_range_ok [accepts]: "validate_reconnect_range a b = Inr u \<Longrightarrow> float_units a \<le> float_units b"
  by (auto simp: validate_reconnect_range_def split: if_splits)





section \<open>Rejected configurations\<close>

definition raises :: "(py_error \<Rightarrow> bool) \<Rightarrow> py_error + 'a \<Rightarrow> bool" where
  "raises E m \<longleftrightarrow> (\<forall>e. m = Inl e \<longrightarrow> E e)"

lemma raises_bind: "raises E m \<Longrightarrow> (\<And>x. raises E (f x)) \<Longrightarrow> raises E (bindE m f)"
  by (cases m) (simp_all add: raises_def)

lemma raises_Inr: "raises E (Inr x)"
  and raises_Inl: "E e \<Longrightarrow> raises E (Inl e)"
  and raises_if: "raises E m \<Longrightarrow> raises E m' \<Longrightarrow> raises E (if c then m else m')"
  by (simp_all add: raises_def)

definition config_error :: "py_error \<Rightarrow> bool" where
  "config_error e \<longleftrightarrow> e = ConfigError"

lemma raises_config: "raises config_error m \<Longrightarrow> raises (\<lambda>e. e = ConfigError \<or> e = RuntimeError) m"
  by (auto simp: raises_def config_error_def)

lemma config_error [simp]: "config_error ConfigError"
  by (simp add: config_error_def)

lemma text_raises: "raises config_error (config_text v)"
  by (cases v) (simp_all add: config_text_def raises_def)

lemma validators_raise:
  "raises config_error (config_host v)" "raises config_error (config_client_id v)"
  "raises config_error (config_publish_topic v)"
  unfolding config_host_def config_client_id_def config_publish_topic_def Let_def
  by (intro raises_bind raises_if raises_Inr raises_Inl text_raises config_error)+

lemma number_validators_raise:
  "raises config_error (config_port v)" "raises config_error (config_keepalive v)"
  "raises config_error (qos_one v)" "raises config_error (config_positive_integer v)"
  "raises config_error (validate_reconnect_range x y)" "raises config_error (debug_flag v)"
  by (cases v; simp add: config_port_def config_keepalive_def qos_one_def config_positive_integer_def
      validate_reconnect_range_def debug_flag_def raises_def)+

lemma other_validators_raise:
  "raises config_error (config_positive_number v)" "raises config_error (config_log_level v d)"
proof -
  show "raises config_error (config_positive_number v)"
    by (cases v) (simp_all add: config_positive_number_def raises_def split: option.split)
  show "raises config_error (config_log_level v d)"
    by (cases "normalize_log_level v") (simp_all add: config_log_level_def raises_def)
qed

lemmas all_validators_raise = validators_raise number_validators_raise other_validators_raise

lemma resolvers_raise:
  "raises config_error (resolve_relay_topic r e d)" "raises config_error (resolve_one n ov nm d)"
  "raises config_error (snd (resolve_renamed_argument eq nv ov' nm d' ConfigError))"
  by (auto simp: raises_def resolve_relay_topic_def chain_supplied resolve_one_def resolve_renamed_argument_def
      split: list.splits if_splits option.splits)

lemma path_raises: "raises (\<lambda>e. e = ConfigError \<or> e = RuntimeError) (outbox_path_value home p)"
  by (cases p) (auto simp: raises_def outbox_path_value_def expanduser_def Let_def split: if_splits list.splits)

text \<open>
  C39. Errors. A RelayConfig that is refused raises \<^verbatim>\<open>ConfigError\<close>. A SenderConfig raises
  \<^verbatim>\<open>ConfigError\<close>, or \<^verbatim>\<open>RuntimeError\<close> from expanding the home directory of its path.
\<close>

theorem config_errors:
  "(case relay_config_init b of Inl e \<Rightarrow> e = ConfigError | Inr _ \<Rightarrow> True)
   \<and> (case sender_config_init home a of Inl e \<Rightarrow> e = ConfigError \<or> e = RuntimeError | Inr _ \<Rightarrow> True)"
proof
  have "raises config_error (relay_config_init b)"
    unfolding relay_config_init_def relay_post_init_def
    by (intro raises_bind raises_if raises_Inr raises_Inl all_validators_raise resolvers_raise config_error)
  then show "case relay_config_init b of Inl e \<Rightarrow> e = ConfigError | Inr _ \<Rightarrow> True"
    by (auto simp: raises_def config_error_def split: sum.splits)
  have "raises (\<lambda>e. e = ConfigError \<or> e = RuntimeError) (sender_config_init home a)"
    unfolding sender_config_init_def sender_post_init_def
    by (intro raises_bind raises_if raises_Inr raises_Inl path_raises all_validators_raise [THEN raises_config]
        resolvers_raise [THEN raises_config] disjI1 refl)
  then show "case sender_config_init home a of Inl e \<Rightarrow> e = ConfigError \<or> e = RuntimeError | Inr _ \<Rightarrow> True"
    by (auto simp: raises_def split: sum.splits)
qed

end
