(* ===== verification/Mqtt.thy ===== *)
theory Mqtt
  imports Prelude
begin

text \<open>
  The helpers over the Paho client (\<^verbatim>\<open>src/reliomq/mqtt.py\<close>). The client is third-party code: a
  reason code is what the helpers can observe of it, and a publish is what its calls answered.
\<close>

section \<open>Reason codes\<close>

text \<open>
  \<open>Flagged b\<close> has an \<^verbatim>\<open>is_failure\<close> attribute whose truth value is \<open>b\<close>. \<open>Number i\<close> has none and
  \<^verbatim>\<open>int()\<close> of it is \<open>i\<close>. \<open>NoNumber z\<close> has none and \<^verbatim>\<open>int()\<close> of it raises \<^verbatim>\<open>TypeError\<close> or
  \<^verbatim>\<open>ValueError\<close>; \<open>z\<close> tells whether it equals 0.
\<close>

datatype reason_code = Flagged bool | Number int | NoNumber bool

definition reason_code_is_success :: "reason_code \<Rightarrow> bool" where
  "reason_code_is_success rc =
     (case rc of Flagged failed \<Rightarrow> \<not> failed | Number i \<Rightarrow> i = 0 | NoNumber z \<Rightarrow> z)"

text \<open>The argument of a SUBACK callback: absent, one code (or a text), or a sequence of codes.\<close>

datatype suback = NoCodes | OneCode reason_code | Codes "reason_code list"

definition granted :: "reason_code \<Rightarrow> bool" where
  "granted rc =
     (case rc of Flagged failed \<Rightarrow> \<not> failed | Number i \<Rightarrow> i \<in> {0, 1, 2} | NoNumber _ \<Rightarrow> False)"

definition suback_is_success :: "suback \<Rightarrow> bool" where
  "suback_is_success codes =
     (case codes of
        NoCodes \<Rightarrow> False
      | OneCode rc \<Rightarrow> granted rc
      | Codes rcs \<Rightarrow> rcs \<noteq> [] \<and> list_all granted rcs)"

section \<open>Confirmed publishing\<close>

text \<open>
  What the calls of one publish answered: \<^verbatim>\<open>publish()\<close> raised, or gave the result code \<open>rc\<close>; then
  \<^verbatim>\<open>wait_for_publish\<close> raised (\<open>None\<close>) or returned, and \<^verbatim>\<open>is_published()\<close> answered \<open>b\<close>.
\<close>

datatype publish_answer = PublishRaised | PublishInfo (info_rc: int) (info_published: "bool option")

definition MQTT_ERR_SUCCESS :: int where
  "MQTT_ERR_SUCCESS = 0"

definition confirmed_publish :: "publish_answer \<Rightarrow> bool" where
  "confirmed_publish answer =
     (case answer of
        PublishRaised \<Rightarrow> False
      | PublishInfo rc published \<Rightarrow>
          if rc \<noteq> MQTT_ERR_SUCCESS then False
          else (case published of None \<Rightarrow> False | Some b \<Rightarrow> b))"

text \<open>A publish is confirmed only when the client says so after accepting it.\<close>

lemma confirmed_publish_iff:
  "confirmed_publish answer \<longleftrightarrow> answer = PublishInfo MQTT_ERR_SUCCESS (Some True)"
  by (cases answer) (auto simp: confirmed_publish_def split: option.splits)

section \<open>Subscribing and starting\<close>

text \<open>What \<^verbatim>\<open>subscribe()\<close> answered: it raised, or gave a result code and the packet id.\<close>

datatype subscribe_answer = SubscribeRaised | SubscribeResult (sub_rc: int) (sub_mid: int)

text \<open>\<^verbatim>\<open>connect_async()\<close> and \<^verbatim>\<open>loop_start()\<close> succeed with no result or with the success code.\<close>

definition accepted_result :: "int option \<Rightarrow> bool" where
  "accepted_result r \<longleftrightarrow> r = None \<or> r = Some MQTT_ERR_SUCCESS"

end
