(* ===== verification/Sender.thy ===== *)
theory Sender
  imports Persistence Config Ack Mqtt
begin

text \<open>
  The Sender's queue (\<^verbatim>\<open>src/reliomq/sender.py\<close>): its state, publishing, and FastMode's ownership
  of messages in RAM with the transitions to disk. Each function is the part of its method that
  holds the locks of the queue, so it is one step of the program. The delivery worker and the
  MQTT callbacks are in theory SenderDelivery.
\<close>

section \<open>State\<close>

text \<open>
  A pending message is an object shared by the queue, the index by id and FastMode's queue, and
  compared by identity: \<open>sd_items\<close> is the store of these objects, the queues hold their addresses.
  The outbox, the mode and the clock are those of \<open>persistence\<close>. A timer is its delay and its
  generation, and its callback may run with any earlier generation.
\<close>

datatype storage_state = RAM_ONLY | PERSISTING | DISK_BACKED

record pending_message =
  pm_id :: pystr
  pm_encoded :: "bytes option"
  pm_size :: nat
  pm_enqueued_at :: time
  pm_state :: storage_state
  pm_spill_attempted :: bool

record sender =
  sd_config :: sender_config
  sd_items :: "nat \<Rightarrow> pending_message"
  next_item :: nat
  sd_pending :: "nat list"
  sd_by_id :: "pystr \<Rightarrow> nat option"
  fast_queue :: "nat list"
  fast_ram_bytes :: int
  fast_timer :: "timer option"
  fast_timer_generation :: nat
  fast_timer_deadline :: "time option"
  fast_retry_not_before :: time
  disconnected_since :: "time option"
  persistence :: policy
  subscription_mid :: "int option"
  next_subscription_attempt :: time
  connected :: bool
  ack_subscription_ready :: bool
  stop_event :: bool
  wakeup :: bool
  sd_tracker :: ack_tracker
  worker :: "bool option"
  started :: bool
  loop_started :: bool
  connection_count :: nat
  retry_attempts :: "pystr \<Rightarrow> nat option"

type_synonym 'a sender_proc = "(sender, 'a) proc"

definition handle :: "('s, 'a) proc \<Rightarrow> (py_error \<Rightarrow> ('s, 'a) proc) \<Rightarrow> ('s, 'a) proc" where
  "handle m h s = (case m s of (Inl e, s') \<Rightarrow> h e s' | (Inr x, s') \<Rightarrow> (Inr x, s'))"

definition on_policy :: "'a policy_proc \<Rightarrow> 'a sender_proc" where
  "on_policy m s = (case m (persistence s) of (r, p) \<Rightarrow> (r, s\<lparr>persistence := p\<rparr>))"

definition monotonic :: "time sender_proc" where
  "monotonic s = (case read_clock (persistence s) of (t, p) \<Rightarrow> (Inr t, s\<lparr>persistence := p\<rparr>))"

definition fast_mode_of :: "sender \<Rightarrow> fast_mode option" where
  "fast_mode_of s = (case mode (persistence s) of FastMode fm \<Rightarrow> Some fm | _ \<Rightarrow> None)"

definition pending_count :: "sender \<Rightarrow> nat" where
  "pending_count s = length (sd_pending s)"

text \<open>The recovered messages of a new Sender, all on disk, at the addresses 0, 1, ...\<close>

definition recovered_item :: "time \<Rightarrow> pystr \<Rightarrow> pending_message" where
  "recovered_item t m = \<lparr>pm_id = m, pm_encoded = None, pm_size = 0, pm_enqueued_at = t,
     pm_state = DISK_BACKED, pm_spill_attempted = False\<rparr>"

definition new_sender :: "sender_config \<Rightarrow> policy \<Rightarrow> sender" where
  "new_sender config p =
     (let ids = pending_ids (outbox_of p); n = length ids
      in \<lparr>sd_config = config,
          sd_items = (\<lambda>a. if a < n then recovered_item (now p) (ids ! a) else recovered_item 0 []),
          next_item = n, sd_pending = [0..<n], sd_by_id = map_of (zip ids [0..<n]),
          fast_queue = [], fast_ram_bytes = 0, fast_timer = None, fast_timer_generation = 0,
          fast_timer_deadline = None, fast_retry_not_before = 0, disconnected_since = None,
          persistence = p, subscription_mid = None, next_subscription_attempt = 0,
          connected = False, ack_subscription_ready = False, stop_event = False, wakeup = False,
          sd_tracker = ack_init, worker = None, started = False, loop_started = False,
          connection_count = 0, retry_attempts = Map.empty\<rparr>)"

section \<open>Pending messages\<close>

text \<open>\<^verbatim>\<open>_PendingMessage.encoded\<close> reads the Outbox when the payload is not in RAM.\<close>

definition item_encoded :: "python \<Rightarrow> nat \<Rightarrow> bytes sender_proc" where
  "item_encoded py a s =
     (case pm_encoded (sd_items s a) of
        Some b \<Rightarrow> ret b s
      | None \<Rightarrow>
          andThen (on_policy (on_outbox (outbox_get py (pm_id (sd_items s a))))) (\<lambda>envelope.
            case envelope of
              None \<Rightarrow> throw OutboxError
            | Some e \<Rightarrow> lift_pure (encode_message py e)) s)"

definition item_envelope :: "python \<Rightarrow> nat \<Rightarrow> message_envelope sender_proc" where
  "item_envelope py a =
     andThen (item_encoded py a) (\<lambda>b. lift_pure (decode_message py (WBytes b)))"

definition persisted :: "sender \<Rightarrow> nat \<Rightarrow> bool" where
  "persisted s a \<longleftrightarrow> pm_state (sd_items s a) = DISK_BACKED"

section \<open>Spilling a batch\<close>

text \<open>The longest prefix of the RAM queue within the limits; at least one message of any size.\<close>

fun select_spill ::
  "int \<Rightarrow> int \<Rightarrow> (nat \<Rightarrow> pending_message) \<Rightarrow> nat list \<Rightarrow> nat \<Rightarrow> nat list \<Rightarrow> py_error + nat list"
where
  "select_spill max_messages max_bytes its selected selected_bytes [] = Inr selected"
| "select_spill max_messages max_bytes its selected selected_bytes (a # r) =
     (if int (length selected) \<ge> max_messages then Inr selected
      else if pm_state (its a) \<noteq> RAM_ONLY then Inl OutboxError
      else if selected \<noteq> [] \<and> int (selected_bytes + pm_size (its a)) > max_bytes then Inr selected
      else select_spill max_messages max_bytes its (selected @ [a]) (selected_bytes + pm_size (its a)) r)"

definition mark_persisting :: "nat list \<Rightarrow> sender \<Rightarrow> sender" where
  "mark_persisting selected s =
     s\<lparr>sd_items := (\<lambda>a. if a \<in> set selected
                     then (sd_items s a)\<lparr>pm_state := PERSISTING, pm_spill_attempted := True\<rparr>
                     else sd_items s a)\<rparr>"

definition mark_ram_only :: "nat list \<Rightarrow> sender \<Rightarrow> sender" where
  "mark_ram_only selected s =
     s\<lparr>sd_items := (\<lambda>a. if a \<in> set selected then (sd_items s a)\<lparr>pm_state := RAM_ONLY\<rparr> else sd_items s a)\<rparr>"

fun envelopes_of :: "python \<Rightarrow> nat list \<Rightarrow> message_envelope list sender_proc" where
  "envelopes_of py [] = ret []"
| "envelopes_of py (a # r) =
     andThen (item_envelope py a) (\<lambda>e. andThen (envelopes_of py r) (\<lambda>es. ret (e # es)))"

fun verify_stored :: "python \<Rightarrow> nat list \<Rightarrow> unit sender_proc" where
  "verify_stored py [] = ret ()"
| "verify_stored py (a # r) =
     andThen (\<lambda>s. on_policy (on_outbox (outbox_get py (pm_id (sd_items s a)))) s) (\<lambda>envelope.
       case envelope of
         None \<Rightarrow> throw OutboxError
       | Some e \<Rightarrow>
           andThen (lift_pure (encode_message py e)) (\<lambda>b.
           andThen (item_encoded py a) (\<lambda>b'.
             if b \<noteq> b' then throw OutboxError else verify_stored py r)))"

definition persist_selected :: "python \<Rightarrow> nat list \<Rightarrow> unit sender_proc" where
  "persist_selected py selected =
     andThen (envelopes_of py selected) (\<lambda>envelopes.
     andThen (on_policy (append_many_durable py envelopes)) (\<lambda>result.
       if appended_count result \<noteq> length selected
       then andThen (verify_stored py selected) (\<lambda>_. on_policy (on_outbox outbox_sync))
       else ret ()))"

fun release_each :: "nat list \<Rightarrow> unit sender_proc" where
  "release_each [] = ret ()"
| "release_each (a # r) =
     (\<lambda>s. case fast_queue s of
        [] \<Rightarrow> throw OutboxError s
      | h # q \<Rightarrow>
          if h \<noteq> a then throw OutboxError s
          else release_each r
                 (s\<lparr>fast_queue := q, fast_ram_bytes := fast_ram_bytes s - int (pm_size (sd_items s a)),
                    sd_items := (sd_items s)(a := (sd_items s a)\<lparr>pm_state := DISK_BACKED, pm_encoded := None\<rparr>)\<rparr>))"

definition spill_fast_batch :: "python \<Rightarrow> nat option \<Rightarrow> nat sender_proc" where
  "spill_fast_batch py eligible_count s =
     (case fast_mode_of s of
        None \<Rightarrow> ret 0 s
      | Some fm \<Rightarrow>
          if fast_queue s = [] then ret 0 s
          else
            (let max_messages = (case eligible_count of
                                   None \<Rightarrow> spill_batch_messages fm
                                 | Some n \<Rightarrow> min (spill_batch_messages fm) (int n))
             in andThen (lift_pure (select_spill max_messages (spill_batch_bytes fm) (sd_items s) [] 0 (fast_queue s)))
                  (\<lambda>selected.
                     if selected = [] then ret 0
                     else
                       andThen (\<lambda>s0. handle (persist_selected py selected)
                                  (\<lambda>e s1. throw e (mark_ram_only selected s1))
                                  (mark_persisting selected s0)) (\<lambda>_.
                       andThen (release_each selected) (\<lambda>_ s2.
                         ret (length selected) (s2\<lparr>fast_retry_not_before := 0\<rparr>)))) s))"

text \<open>
  \<^verbatim>\<open>while self._fast_queue\<close>: every batch takes at least one message, so the length of the queue
  bounds the number of batches; the fuel is never used up (theorem \<open>spill_all_effect\<close>).
\<close>

fun spill_all :: "nat \<Rightarrow> python \<Rightarrow> unit sender_proc" where
  "spill_all 0 py = (\<lambda>s. if fast_queue s = [] then ret () s else throw RuntimeError s)"
| "spill_all (Suc fuel) py =
     (\<lambda>s. if fast_queue s = [] then ret () s
          else andThen (spill_fast_batch py None) (\<lambda>_. spill_all fuel py) s)"

definition spill_unpersisted_fast :: "python \<Rightarrow> unit sender_proc" where
  "spill_unpersisted_fast py s = spill_all (length (fast_queue s)) py s"

section \<open>Capacity and the high-water mark\<close>

fun make_room_loop :: "nat \<Rightarrow> python \<Rightarrow> fast_mode \<Rightarrow> nat \<Rightarrow> unit sender_proc" where
  "make_room_loop fuel py fm encoded_size =
     (\<lambda>s. if \<not> (int (length (fast_queue s) + 1) > ram_max_messages fm
                 \<or> fast_ram_bytes s + int encoded_size > ram_max_bytes fm) then ret () s
          else if fast_queue s = [] then throw FastQueueFullError s
          else andThen (handle (spill_fast_batch py None)
                          (\<lambda>e. throw (if e = OutboxError then FastQueueFullError else e)))
                 (\<lambda>spilled. if spilled = 0 then throw FastQueueFullError
                            else (case fuel of
                                    0 \<Rightarrow> throw RuntimeError
                                  | Suc n \<Rightarrow> make_room_loop n py fm encoded_size)) s)"

declare make_room_loop.simps [simp del]

definition make_fast_room :: "python \<Rightarrow> fast_mode \<Rightarrow> nat \<Rightarrow> unit sender_proc" where
  "make_fast_room py fm encoded_size s =
     (if int encoded_size > ram_max_bytes fm then throw FastQueueFullError s
      else make_room_loop (length (fast_queue s)) py fm encoded_size s)"

text \<open>
  \<^verbatim>\<open>math.ceil(limit * watermark)\<close>. The product is the double nearest to the product of the two
  doubles: \<open>n\<close> units of 2 to the power -2148, rounded half to even to 53 bits but never below one
  unit of 2 to the power -1074. A limit too large for a double is an \<^verbatim>\<open>OverflowError\<close>.
\<close>

definition round_half_even :: "nat \<Rightarrow> nat \<Rightarrow> nat" where
  "round_half_even n k =
     (let q = n div 2 ^ k; r = n mod 2 ^ k
      in if 2 * r > 2 ^ k \<or> (2 * r = 2 ^ k \<and> odd q) then q + 1 else q)"

definition float_product_units :: "nat \<Rightarrow> nat \<Rightarrow> nat" where
  "float_product_units a b =
     (let n = a * b; k = max (log2 n - 52) 1074 in round_half_even n k * 2 ^ (k - 1074))"

definition water_mark :: "int \<Rightarrow> float64 \<Rightarrow> py_error + int" where
  "water_mark limit watermark =
     (case float_of_int limit of
        None \<Rightarrow> Inl OverflowError
      | Some w \<Rightarrow>
          (let units = float_product_units (nat (float_units w)) (nat (float_units watermark))
           in Inr (max 1 (int ((units + 2 ^ 1074 - 1) div 2 ^ 1074)))))"

definition fast_high_water_reached :: "sender \<Rightarrow> py_error + bool" where
  "fast_high_water_reached s =
     (case fast_mode_of s of
        None \<Rightarrow> Inr False
      | Some fm \<Rightarrow>
          if fast_queue s = [] then Inr False
          else (case high_watermark fm of
                  None \<Rightarrow> Inr False
                | Some w \<Rightarrow>
                    bindE (water_mark (ram_max_messages fm) w) (\<lambda>message_mark.
                    bindE (water_mark (ram_max_bytes fm) w) (\<lambda>byte_mark.
                      Inr (int (length (fast_queue s)) \<ge> message_mark \<or> fast_ram_bytes s \<ge> byte_mark)))))"

text \<open>The loop of \<^verbatim>\<open>_spill_fast_high_water_locked\<close>, which stops when a batch is empty.\<close>

fun high_water_loop :: "nat \<Rightarrow> python \<Rightarrow> unit sender_proc" where
  "high_water_loop fuel py =
     (\<lambda>s. andThen (lift_pure (fast_high_water_reached s)) (\<lambda>reached_mark.
        if \<not> reached_mark then ret ()
        else andThen (spill_fast_batch py None) (\<lambda>spilled.
               if spilled = 0 then ret ()
               else (case fuel of 0 \<Rightarrow> throw RuntimeError | Suc n \<Rightarrow> high_water_loop n py))) s)"

declare high_water_loop.simps [simp del]

definition retry_interval_units :: "sender \<Rightarrow> time" where
  "retry_interval_units s = float_units (sc_retry_interval (sd_config s))"

definition spill_fast_high_water :: "python \<Rightarrow> unit sender_proc" where
  "spill_fast_high_water py s =
     handle (high_water_loop (length (fast_queue s)) py)
       (\<lambda>e. if e \<noteq> OutboxError then throw e
            else andThen monotonic (\<lambda>t s1.
                   ret () (s1\<lparr>fast_retry_not_before := t + retry_interval_units s1\<rparr>))) s"

section \<open>The maintenance timer\<close>

definition cancel_fast_timer :: "sender \<Rightarrow> sender" where
  "cancel_fast_timer s =
     s\<lparr>fast_timer_generation := Suc (fast_timer_generation s), fast_timer := None,
       fast_timer_deadline := None\<rparr>"

text \<open>The deadlines that apply at time \<open>t\<close>; \<^verbatim>\<open>1e-9\<close> is a difference too small to rearm for.\<close>

definition fast_deadlines :: "fast_mode \<Rightarrow> time \<Rightarrow> sender \<Rightarrow> time list" where
  "fast_deadlines fm t s =
     (case max_ram_age fm of
        None \<Rightarrow> [] | Some w \<Rightarrow> [pm_enqueued_at (sd_items s (hd (fast_queue s))) + float_units w])
     @ (case (disconnected_since s, disconnect_grace fm) of
          (Some since, Some w) \<Rightarrow> [since + float_units w] | _ \<Rightarrow> [])
     @ (if fast_retry_not_before s > t then [fast_retry_not_before s] else [])"

definition NANOSECOND :: float64 where
  "NANOSECOND = 0x3E112E0BE826D695"

definition schedule_fast_maintenance :: "sender \<Rightarrow> sender" where
  "schedule_fast_maintenance s =
     (case fast_mode_of s of
        None \<Rightarrow> cancel_fast_timer s
      | Some fm \<Rightarrow>
          if fast_queue s = [] then cancel_fast_timer s
          else (case read_clock (persistence s) of (t, p) \<Rightarrow>
            (let s1 = s\<lparr>persistence := p\<rparr>; deadlines = fast_deadlines fm t s1
             in case deadlines of
                  [] \<Rightarrow> cancel_fast_timer s1
                | d # ds \<Rightarrow>
                    (let earliest = foldr min ds d;
                         deadline = (if fast_retry_not_before s1 > t \<and> earliest \<le> t
                                     then fast_retry_not_before s1 else earliest)
                     in if fast_timer s1 \<noteq> None
                           \<and> (case fast_timer_deadline s1 of
                                None \<Rightarrow> False
                              | Some old \<Rightarrow> \<bar>old - deadline\<bar> < float_units NANOSECOND)
                        then s1
                        else let s2 = cancel_fast_timer s1
                             in s2\<lparr>fast_timer := Some \<lparr>tm_delay = max 0 (deadline - t),
                                                       tm_generation = fast_timer_generation s2\<rparr>,
                                   fast_timer_deadline := Some deadline\<rparr>))))"

text \<open>The two loops of \<^verbatim>\<open>_run_fast_maintenance_locked\<close>.\<close>

definition old_enough :: "time \<Rightarrow> float64 \<Rightarrow> sender \<Rightarrow> nat" where
  "old_enough t age s =
     length (filter (\<lambda>a. pm_enqueued_at (sd_items s a) + float_units age \<le> t) (fast_queue s))"

fun aged_loop :: "nat \<Rightarrow> python \<Rightarrow> float64 \<Rightarrow> time \<Rightarrow> unit sender_proc" where
  "aged_loop fuel py age t =
     (\<lambda>s. if fast_queue s = [] \<or> old_enough t age s = 0 then ret () s
          else andThen (spill_fast_batch py (Some (old_enough t age s))) (\<lambda>_.
                 case fuel of 0 \<Rightarrow> throw RuntimeError | Suc n \<Rightarrow> aged_loop n py age t) s)"

declare aged_loop.simps [simp del]

fun pressure_loop :: "nat \<Rightarrow> python \<Rightarrow> unit sender_proc" where
  "pressure_loop fuel py =
     (\<lambda>s. andThen (lift_pure (fast_high_water_reached s)) (\<lambda>reached_mark.
        if \<not> reached_mark then ret ()
        else andThen (spill_fast_batch py None) (\<lambda>_.
               case fuel of 0 \<Rightarrow> throw RuntimeError | Suc n \<Rightarrow> pressure_loop n py)) s)"

declare pressure_loop.simps [simp del]

definition grace_over :: "fast_mode \<Rightarrow> time \<Rightarrow> sender \<Rightarrow> bool" where
  "grace_over fm t s =
     (case (disconnected_since s, disconnect_grace fm) of
        (Some since, Some w) \<Rightarrow> t - since \<ge> float_units w | _ \<Rightarrow> False)"

definition maintenance_spills :: "python \<Rightarrow> fast_mode \<Rightarrow> time \<Rightarrow> unit sender_proc" where
  "maintenance_spills py fm t s =
     (if grace_over fm t s then spill_unpersisted_fast py s
      else andThen (case max_ram_age fm of
                      None \<Rightarrow> ret () | Some age \<Rightarrow> aged_loop (length (fast_queue s)) py age t)
             (\<lambda>_ s1. pressure_loop (length (fast_queue s1)) py s1) s)"

definition run_fast_maintenance :: "python \<Rightarrow> unit sender_proc" where
  "run_fast_maintenance py s =
     (case fast_mode_of s of
        None \<Rightarrow> ret () (schedule_fast_maintenance s)
      | Some fm \<Rightarrow>
          if fast_queue s = [] then ret () (schedule_fast_maintenance s)
          else andThen monotonic (\<lambda>t s1.
            if fast_retry_not_before s1 > t then ret () (schedule_fast_maintenance s1)
            else andThen (handle (maintenance_spills py fm t)
                            (\<lambda>e s2. if e \<noteq> OutboxError then throw e s2
                                    else ret () (s2\<lparr>fast_retry_not_before := t + retry_interval_units s2\<rparr>)))
                   (\<lambda>_ s3. ret () (schedule_fast_maintenance s3)) s1) s)"

definition on_fast_maintenance_timer :: "python \<Rightarrow> nat \<Rightarrow> unit sender_proc" where
  "on_fast_maintenance_timer py generation s =
     (if generation \<noteq> fast_timer_generation s then ret () s
      else run_fast_maintenance py (s\<lparr>fast_timer := None, fast_timer_deadline := None\<rparr>))"

section \<open>Publishing\<close>

text \<open>The conversion of the arguments: \<open>uuid\<close> is the one a generated id takes.\<close>

definition prepare_publish ::
  "python \<Rightarrow> 128 word \<Rightarrow> pyval \<Rightarrow> pyval \<Rightarrow> pyval \<Rightarrow> pyval \<Rightarrow> py_error + message_envelope \<times> bytes" where
  "prepare_publish py uuid topic payload message_id event_id =
     bindE (snd (resolve_renamed_argument py_eq (given message_id) (given event_id) ''event_id''
              (PStr []) ValueError)) (\<lambda>resolved.
     bindE (message_envelope_init py uuid topic payload
              (if truthy resolved then Some resolved else None) None None) (\<lambda>candidate.
     bindE (encode_message py candidate) (\<lambda>encoded.
     bindE (decode_message py (WBytes encoded)) (\<lambda>envelope. Inr (envelope, encoded)))))"

definition enqueue_item :: "pending_message \<Rightarrow> sender \<Rightarrow> sender" where
  "enqueue_item x s =
     (let a = next_item s
      in s\<lparr>sd_items := (sd_items s)(a := x), next_item := Suc a, sd_pending := sd_pending s @ [a],
           sd_by_id := (sd_by_id s)(pm_id x \<mapsto> a)\<rparr>)"

definition publish_fast :: "python \<Rightarrow> fast_mode \<Rightarrow> message_envelope \<Rightarrow> bytes \<Rightarrow> unit sender_proc" where
  "publish_fast py fm envelope encoded =
     andThen (make_fast_room py fm (length encoded)) (\<lambda>_.
     andThen monotonic (\<lambda>t s.
       let a = next_item s;
           s1 = enqueue_item \<lparr>pm_id = msg_id envelope, pm_encoded = Some encoded,
                  pm_size = length encoded, pm_enqueued_at = t, pm_state = RAM_ONLY,
                  pm_spill_attempted = False\<rparr> s;
           s2 = s1\<lparr>fast_queue := fast_queue s1 @ [a],
                   fast_ram_bytes := fast_ram_bytes s1 + int (length encoded)\<rparr>
       in andThen (spill_fast_high_water py) (\<lambda>_ s3. ret () (schedule_fast_maintenance s3)) s2))"

definition publish_persistent :: "python \<Rightarrow> message_envelope \<Rightarrow> bytes \<Rightarrow> unit sender_proc" where
  "publish_persistent py envelope encoded =
     andThen (on_policy (policy_append py envelope)) (\<lambda>appended.
     andThen (if appended then ret ()
              else andThen (on_policy (on_outbox (outbox_load py))) (\<lambda>queued.
                case find (\<lambda>e. msg_id e = msg_id envelope) queued of
                  None \<Rightarrow> throw ValueError
                | Some disk_envelope \<Rightarrow>
                    andThen (lift_pure (encode_message py disk_envelope)) (\<lambda>b.
                    andThen (lift_pure (encode_message py envelope)) (\<lambda>b'.
                      if b \<noteq> b' then throw ValueError else ret ())))) (\<lambda>_.
     andThen monotonic (\<lambda>t s.
       ret () (enqueue_item \<lparr>pm_id = msg_id envelope, pm_encoded = None,
                 pm_size = length encoded, pm_enqueued_at = t, pm_state = DISK_BACKED,
                 pm_spill_attempted = False\<rparr> s))))"

definition publish_locked :: "python \<Rightarrow> message_envelope \<Rightarrow> bytes \<Rightarrow> unit sender_proc" where
  "publish_locked py envelope encoded s =
     (case sd_by_id s (msg_id envelope) of
        Some a \<Rightarrow>
          andThen (item_encoded py a) (\<lambda>b. if b \<noteq> encoded then throw ValueError else ret ()) s
      | None \<Rightarrow>
          (case fast_mode_of s of
             Some fm \<Rightarrow> publish_fast py fm envelope encoded s
           | None \<Rightarrow> publish_persistent py envelope encoded s))"

definition publish ::
  "python \<Rightarrow> 128 word \<Rightarrow> pyval \<Rightarrow> pyval \<Rightarrow> pyval \<Rightarrow> pyval \<Rightarrow> pystr sender_proc" where
  "publish py uuid topic payload message_id event_id =
     andThen (lift_pure (prepare_publish py uuid topic payload message_id event_id)) (\<lambda>(envelope, encoded).
     andThen (publish_locked py envelope encoded) (\<lambda>_ s.
       ret (msg_id envelope) (s\<lparr>wakeup := True\<rparr>)))"

section \<open>Waiting for a delivery\<close>

text \<open>
  The arguments of \<^verbatim>\<open>wait_for_delivery\<close> and its deadline; \<open>t\<close> is the time of the call.
\<close>

definition wait_arguments ::
  "pyval \<Rightarrow> pyval \<Rightarrow> time option \<Rightarrow> time \<Rightarrow> py_error + pyval \<times> time option" where
  "wait_arguments message_id event_id timeout t =
     bindE (snd (resolve_renamed_argument py_eq (given message_id) (given event_id) ''event_id''
              (PStr []) ValueError)) (\<lambda>resolved.
       case timeout of
         None \<Rightarrow> Inr (resolved, None)
       | Some d \<Rightarrow> if d < 0 then Inl ValueError else Inr (resolved, Some (t + d)))"

text \<open>
  One pass of the loop at time \<open>t\<close>: its answer, or \<open>None\<close> to wait on the condition. An empty id
  waits for the whole queue. A list or a dictionary cannot be looked up.
\<close>

definition wait_check :: "sender \<Rightarrow> pyval \<Rightarrow> time option \<Rightarrow> time \<Rightarrow> py_error + bool option" where
  "wait_check s resolved deadline t =
     bindE (if \<not> truthy resolved then Inr (sd_pending s \<noteq> [])
            else (case resolved of
                    PStr m \<Rightarrow> Inr (sd_by_id s m \<noteq> None)
                  | PList _ \<Rightarrow> Inl TypeError
                  | PDict _ \<Rightarrow> Inl TypeError
                  | _ \<Rightarrow> Inr False)) (\<lambda>outstanding.
       Inr (if \<not> outstanding then Some True
            else if stop_event s then Some False
            else (case deadline of
                    None \<Rightarrow> None
                  | Some d \<Rightarrow> if d - t \<le> 0 then Some False else None)))"

text \<open>The loop, over the states and times at which the condition wakes the caller.\<close>

fun wait_loop :: "pyval \<Rightarrow> time option \<Rightarrow> (sender \<times> time) list \<Rightarrow> py_error + bool option" where
  "wait_loop resolved deadline [] = Inr None"
| "wait_loop resolved deadline ((s, t) # later) =
     bindE (wait_check s resolved deadline t) (\<lambda>answer.
       case answer of Some b \<Rightarrow> Inr (Some b) | None \<Rightarrow> wait_loop resolved deadline later)"

end
