(* ===== verification/SenderDelivery.thy ===== *)
theory SenderDelivery
  imports Sender
begin

text \<open>
  Delivery by the Sender (\<^verbatim>\<open>src/reliomq/sender.py\<close>): the attempt to deliver the oldest message,
  its completion by a DeliveryAck, the MQTT callbacks, the worker loop, and the lifecycle. The
  Paho client, the threads and their timing are parameters: \<open>surroundings\<close> says what a call into
  them answers, and what the other threads do to the Sender until it returns.
\<close>

datatype delivery_status = EMPTY | NOT_READY | DELIVERED | RETRY | STORE_ERROR | STOPPED

record surroundings =
  subscribe_call :: "sender \<Rightarrow> subscribe_answer \<times> sender"
  publish_call :: "sender \<Rightarrow> publish_answer \<times> sender"
  ack_event_wait :: "sender \<Rightarrow> bool \<times> sender"
  client_is_connected :: "sender \<Rightarrow> bool option"

section \<open>Completing the oldest message\<close>

text \<open>An \<^verbatim>\<open>OutboxError\<close> is logged and answered by \<open>False\<close>; other exceptions propagate.\<close>

definition outbox_failure_is_false :: "bool sender_proc \<Rightarrow> bool sender_proc" where
  "outbox_failure_is_false m = handle m (\<lambda>e. if e = OutboxError then ret False else throw e)"

definition settle_uncertain_spill :: "python \<Rightarrow> nat \<Rightarrow> bool sender_proc" where
  "settle_uncertain_spill py a s =
     (if \<not> persisted s a \<and> pm_spill_attempted (sd_items s a)
      then outbox_failure_is_false (andThen (spill_fast_batch py None) (\<lambda>_. ret True)) s
      else ret True s)"

definition discharge_item :: "python \<Rightarrow> nat \<Rightarrow> message_envelope \<Rightarrow> bool sender_proc" where
  "discharge_item py a envelope s =
     (if persisted s a then outbox_failure_is_false (on_policy (policy_complete py envelope)) s
      else ret True
        (s\<lparr>fast_queue := (if fast_queue s \<noteq> [] \<and> hd (fast_queue s) = a then tl (fast_queue s)
                          else remove1 a (fast_queue s)),
           fast_ram_bytes := fast_ram_bytes s - int (pm_size (sd_items s a))\<rparr>))"

definition forget_oldest :: "pystr \<Rightarrow> sender \<Rightarrow> sender" where
  "forget_oldest m s =
     (let s1 = schedule_fast_maintenance
                 (s\<lparr>sd_pending := tl (sd_pending s), sd_by_id := (sd_by_id s)(m := None)\<rparr>)
      in s1\<lparr>retry_attempts := (retry_attempts s1)(m := None)\<rparr>)"

definition complete_item :: "python \<Rightarrow> nat \<Rightarrow> delivery_status sender_proc" where
  "complete_item py a =
     andThen (item_envelope py a) (\<lambda>envelope s.
       if stop_event s then ret STOPPED s
       else if sd_pending s = [] \<or> hd (sd_pending s) \<noteq> a then ret STORE_ERROR s
       else andThen (settle_uncertain_spill py a) (\<lambda>settled.
              if \<not> settled then ret STORE_ERROR
              else andThen (discharge_item py a envelope) (\<lambda>removed s2.
                     if \<not> removed then ret STORE_ERROR s2
                     else ret DELIVERED (forget_oldest (msg_id envelope) s2))) s)"

section \<open>Connection state and callbacks\<close>

definition mark_disconnected :: "sender \<Rightarrow> sender" where
  "mark_disconnected s =
     (let s1 = s\<lparr>connected := False, ack_subscription_ready := False\<rparr>;
          s2 = (if fast_mode_of s1 \<noteq> None \<and> disconnected_since s1 = None \<and> \<not> stop_event s1
                then (case read_clock (persistence s1) of (t, p) \<Rightarrow>
                        s1\<lparr>persistence := p, disconnected_since := Some t\<rparr>)
                else s1);
          s3 = schedule_fast_maintenance s2
      in s3\<lparr>subscription_mid := None, next_subscription_attempt := 0,
            sd_tracker := ack_interrupt (sd_tracker s3), wakeup := True\<rparr>)"

text \<open>
  \<^verbatim>\<open>_request_ack_subscription\<close> up to the call of \<^verbatim>\<open>subscribe\<close> (\<open>None\<close>: the call is made), and after
  it. Packet id -1 stands for the id the call has not returned yet.
\<close>

definition request_ack_begin :: "bool option sender_proc" where
  "request_ack_begin s =
     (if \<not> connected s \<or> stop_event s then ret (Some False) s
      else if ack_subscription_ready s then ret (Some True) s
      else andThen monotonic (\<lambda>t s1.
             if t < next_subscription_attempt s1 then ret (Some False) s1
             else ret None (s1\<lparr>subscription_mid := Some (-1),
                    next_subscription_attempt := t + retry_interval_units s1\<rparr>)) s)"

definition request_ack_end :: "subscribe_answer \<Rightarrow> sender \<Rightarrow> bool \<times> sender" where
  "request_ack_end answer s =
     (case answer of
        SubscribeRaised \<Rightarrow> (False, s\<lparr>subscription_mid := None\<rparr>)
      | SubscribeResult rc mid \<Rightarrow>
          if rc \<noteq> MQTT_ERR_SUCCESS
          then (False, s\<lparr>subscription_mid := None, ack_subscription_ready := False\<rparr>)
          else (let s1 = (if subscription_mid s = Some (-1) then s\<lparr>subscription_mid := Some mid\<rparr> else s)
                in (ack_subscription_ready s1, s1)))"

definition request_ack_subscription :: "surroundings \<Rightarrow> bool sender_proc" where
  "request_ack_subscription env =
     andThen request_ack_begin (\<lambda>answered s.
       case answered of
         Some b \<Rightarrow> ret b s
       | None \<Rightarrow> (case subscribe_call env s of (answer, s1) \<Rightarrow>
                   (case request_ack_end answer s1 of (b, s2) \<Rightarrow> ret b s2)))"

definition connection_ready :: "surroundings \<Rightarrow> sender \<Rightarrow> bool" where
  "connection_ready env s \<longleftrightarrow>
     connected s \<and> ack_subscription_ready s \<and> client_is_connected env s = Some True"

definition on_connect :: "surroundings \<Rightarrow> reason_code \<Rightarrow> unit sender_proc" where
  "on_connect env rc s =
     (if \<not> reason_code_is_success rc then ret () (mark_disconnected s)
      else
        (let s1 = s\<lparr>connection_count := connection_count s + 1, connected := True,
                    ack_subscription_ready := False, disconnected_since := None\<rparr>;
             s2 = schedule_fast_maintenance s1
         in andThen (request_ack_subscription env) (\<lambda>_ s3. ret () (s3\<lparr>wakeup := True\<rparr>))
              (s2\<lparr>subscription_mid := None, next_subscription_attempt := 0\<rparr>)))"

definition on_connect_fail :: "sender \<Rightarrow> sender" where
  "on_connect_fail s = mark_disconnected s"

definition on_disconnect :: "sender \<Rightarrow> sender" where
  "on_disconnect s = mark_disconnected s"

definition on_subscribe :: "int \<Rightarrow> suback \<Rightarrow> unit sender_proc" where
  "on_subscribe mid codes s =
     (if subscription_mid s \<noteq> Some (-1) \<and> subscription_mid s \<noteq> Some mid then ret () s
      else
        (let s1 = s\<lparr>subscription_mid := None\<rparr>
         in if suback_is_success codes \<and> connected s1
            then ret () (s1\<lparr>ack_subscription_ready := True, next_subscription_attempt := 0, wakeup := True\<rparr>)
            else andThen monotonic (\<lambda>t s2.
                   ret () (s2\<lparr>ack_subscription_ready := False,
                     next_subscription_attempt := t + retry_interval_units s2, wakeup := True\<rparr>)) s1))"

text \<open>\<^verbatim>\<open>except (ProtocolError, TypeError, ValueError)\<close>, subclasses of \<^verbatim>\<open>ValueError\<close> included.\<close>

definition malformed :: "py_error \<Rightarrow> bool" where
  "malformed e \<longleftrightarrow> e \<in> {ProtocolError, TypeError, ValueError, ConfigError, JSONDecodeError, UnicodeError}"

definition on_message :: "python \<Rightarrow> pystr \<Rightarrow> bytes \<Rightarrow> unit sender_proc" where
  "on_message py topic payload s =
     (if topic \<noteq> sc_delivery_ack_topic (sd_config s) then ret () s
      else (case decode_ack py (WBytes payload) of
              Inl e \<Rightarrow> if malformed e then ret () s else throw e s
            | Inr acknowledgement \<Rightarrow>
                ret () (s\<lparr>sd_tracker := snd (ack_match (dack_id acknowledgement) (sd_tracker s))\<rparr>)))"

section \<open>One delivery attempt\<close>

definition promote_fast_for_retry :: "python \<Rightarrow> nat \<Rightarrow> bool sender_proc" where
  "promote_fast_for_retry py a s =
     (if persisted s a then ret True s
      else if sd_by_id s (pm_id (sd_items s a)) \<noteq> Some a then ret True s
      else outbox_failure_is_false
             (\<lambda>s0. if fast_queue s0 = [] \<or> hd (fast_queue s0) \<noteq> a then throw OutboxError s0
                   else andThen (spill_fast_batch py None)
                          (\<lambda>_ s1. ret True (schedule_fast_maintenance s1)) s0) s)"

definition schedule_retry :: "pystr \<Rightarrow> delivery_status sender_proc" where
  "schedule_retry m s =
     (let attempt = (case retry_attempts s m of None \<Rightarrow> 0 | Some n \<Rightarrow> n) + 1
      in ret RETRY (s\<lparr>retry_attempts := (retry_attempts s)(m \<mapsto> attempt)\<rparr>))"

text \<open>
  \<^verbatim>\<open>_process_oldest_once\<close> in three parts, between which other threads run: up to the publish,
  from its confirmation to the wait for the DeliveryAck, and from there on. A part either ends
  the attempt with a status or hands over to the next one.
\<close>

datatype attempt = Ended delivery_status | Attempt nat pystr bytes

definition attempt_begin :: "python \<Rightarrow> surroundings \<Rightarrow> attempt sender_proc" where
  "attempt_begin py env s =
     (if stop_event s then ret (Ended STOPPED) s
      else (case sd_pending s of
              [] \<Rightarrow> ret (Ended EMPTY) s
            | a # _ \<Rightarrow>
                andThen (item_envelope py a) (\<lambda>envelope.
                andThen (lift_pure (encode_message py envelope)) (\<lambda>encoded s1.
                  if \<not> connection_ready env s1 then
                    andThen (request_ack_subscription env) (\<lambda>_.
                    andThen (\<lambda>s2. if fast_mode_of s2 \<noteq> None then run_fast_maintenance py s2 else ret () s2)
                      (\<lambda>_. ret (Ended NOT_READY))) s1
                  else (case ack_begin (msg_id envelope) (sd_tracker s1) of
                          (Inl e, _) \<Rightarrow> throw e s1
                        | (Inr _, t) \<Rightarrow> ret (Attempt a (msg_id envelope) encoded) (s1\<lparr>sd_tracker := t\<rparr>)))) s))"

text \<open>The branch common to a publish that was not confirmed and an ACK that did not come.\<close>

definition attempt_failed :: "python \<Rightarrow> surroundings \<Rightarrow> nat \<Rightarrow> pystr \<Rightarrow> delivery_status sender_proc" where
  "attempt_failed py env a m s =
     (if stop_event s then ret STOPPED s
      else if fast_mode_of s = None then schedule_retry m s
      else if connection_ready env s then
        andThen (promote_fast_for_retry py a) (\<lambda>promoted.
          if \<not> promoted then ret STORE_ERROR else schedule_retry m) s
      else andThen (run_fast_maintenance py) (\<lambda>_. schedule_retry m) s)"

text \<open>\<open>None\<close>: the publish was confirmed and the attempt waits for its ACK.\<close>

definition attempt_published ::
  "python \<Rightarrow> surroundings \<Rightarrow> nat \<Rightarrow> pystr \<Rightarrow> publish_answer \<Rightarrow> delivery_status option sender_proc" where
  "attempt_published py env a m answer =
     (if confirmed_publish answer then ret None
      else andThen (attempt_failed py env a m) (\<lambda>status. ret (Some status)))"

definition attempt_waited ::
  "python \<Rightarrow> surroundings \<Rightarrow> nat \<Rightarrow> pystr \<Rightarrow> bool \<Rightarrow> delivery_status sender_proc" where
  "attempt_waited py env a m signalled s =
     (case ack_wait_close signalled (sd_tracker s) of
        (acked, t) \<Rightarrow>
          (let s1 = s\<lparr>sd_tracker := t\<rparr>
           in if \<not> acked then attempt_failed py env a m s1 else complete_item py a s1))"

text \<open>\<^verbatim>\<open>finally: self._ack_tracker.end()\<close>\<close>

definition finally_end :: "'a sender_proc \<Rightarrow> 'a sender_proc" where
  "finally_end m s = (case m s of (r, s') \<Rightarrow> (r, s'\<lparr>sd_tracker := ack_end (sd_tracker s')\<rparr>))"

definition process_oldest_once :: "python \<Rightarrow> surroundings \<Rightarrow> delivery_status sender_proc" where
  "process_oldest_once py env =
     andThen (attempt_begin py env) (\<lambda>begun.
       case begun of
         Ended status \<Rightarrow> ret status
       | Attempt a m encoded \<Rightarrow>
           finally_end (\<lambda>s.
             if stop_event s then ret STOPPED s
             else (case publish_call env s of
                (answer, s1) \<Rightarrow>
                  andThen (attempt_published py env a m answer) (\<lambda>ended s2.
                    case ended of
                      Some status \<Rightarrow> ret status s2
                    | None \<Rightarrow> (case ack_event_wait env s2 of (signalled, s3) \<Rightarrow>
                                attempt_waited py env a m signalled s3)) s1)))"

section \<open>The worker\<close>

datatype worker_move = Again | WaitForWakeup | LeaveLoop

definition worker_iteration :: "python \<Rightarrow> surroundings \<Rightarrow> sender \<Rightarrow> worker_move \<times> sender" where
  "worker_iteration py env s =
     (if stop_event s then (LeaveLoop, s)
      else (case process_oldest_once py env (s\<lparr>wakeup := False\<rparr>) of
              (r, s1) \<Rightarrow>
                (let status = (case r of Inl _ \<Rightarrow> RETRY | Inr st \<Rightarrow> st)
                 in if status = DELIVERED then (Again, s1)
                    else if status = STOPPED \<or> stop_event s1 then (LeaveLoop, s1)
                    else (WaitForWakeup, s1))))"

text \<open>
  The loop over what happens around each iteration, and during the wait that may follow it. The
  result tells whether the worker left the loop.
\<close>

fun delivery_worker ::
  "python \<Rightarrow> (surroundings \<times> (sender \<Rightarrow> sender)) list \<Rightarrow> sender \<Rightarrow> bool \<times> sender" where
  "delivery_worker py [] s = (False, s)"
| "delivery_worker py ((env, waiting) # later) s =
     (case worker_iteration py env s of
        (Again, s1) \<Rightarrow> delivery_worker py later s1
      | (WaitForWakeup, s1) \<Rightarrow> delivery_worker py later (waiting s1)
      | (LeaveLoop, s1) \<Rightarrow> (True, s1))"

section \<open>Lifecycle\<close>

text \<open>\<open>connect_async\<close> and \<open>client_loop_start\<close> are the client's calls: a result code, or none.\<close>

definition start_sender ::
  "int option sender_proc \<Rightarrow> int option sender_proc \<Rightarrow> unit sender_proc" where
  "start_sender connect_async client_loop_start s =
     (if started s then ret () s
      else if worker s = Some True then throw RuntimeError s
      else
        andThen connect_async (\<lambda>r1.
          if \<not> accepted_result r1 then throw OSError
          else andThen client_loop_start (\<lambda>r2 s1.
            if \<not> accepted_result r2 then throw OSError s1
            else
              (let s2 = s1\<lparr>loop_started := True, started := True\<rparr>;
                   s3 = (if fast_mode_of s2 = None then s2
                         else schedule_fast_maintenance
                                (if connected s2 then s2\<lparr>disconnected_since := None\<rparr>
                                 else (case read_clock (persistence s2) of (t, p) \<Rightarrow>
                                         s2\<lparr>persistence := p, disconnected_since := Some t\<rparr>)))
               in ret () (s3\<lparr>worker := Some True, wakeup := True\<rparr>))))
          (s\<lparr>stop_event := False, connected := False, ack_subscription_ready := False,
             subscription_mid := None, next_subscription_attempt := 0\<rparr>))"

text \<open>
  \<open>client_disconnect\<close> and \<open>client_loop_stop\<close> swallow their exceptions; \<open>join_worker\<close> waits for
  the worker within its time limit and tells whether it still runs.
\<close>

definition stop_worker ::
  "(sender \<Rightarrow> sender) \<Rightarrow> (sender \<Rightarrow> bool \<times> sender) \<Rightarrow> (sender \<Rightarrow> sender) \<Rightarrow> sender \<Rightarrow> sender" where
  "stop_worker client_disconnect join_worker client_loop_stop s =
     (let s1 = client_disconnect
                 (s\<lparr>stop_event := True, sd_tracker := ack_interrupt (sd_tracker s), wakeup := True\<rparr>);
          (still_alive, s2) = (case worker s1 of None \<Rightarrow> (False, s1) | Some _ \<Rightarrow> join_worker s1);
          s3 = (if loop_started s2 then client_loop_stop s2 else s2)
      in s3\<lparr>loop_started := False, started := False,
            worker := (if still_alive then Some True else None),
            connected := False, ack_subscription_ready := False\<rparr>)"

text \<open>Both halves run even when the first one raises \<^verbatim>\<open>OutboxError\<close>; the first error is raised at the end.\<close>

definition persist_at_shutdown :: "python \<Rightarrow> unit sender_proc" where
  "persist_at_shutdown py s =
     (case spill_unpersisted_fast py ((cancel_fast_timer s)\<lparr>disconnected_since := None\<rparr>) of
        (r1, s1) \<Rightarrow>
          if r1 \<noteq> Inr () \<and> r1 \<noteq> Inl OutboxError then (r1, s1)
          else (case on_policy (policy_flush py) s1 of
                  (r2, s2) \<Rightarrow>
                    if r2 \<noteq> Inr () \<and> r2 \<noteq> Inl OutboxError then (r2, s2)
                    else (if r1 = Inr () then r2 else r1, s2)))"

definition stop_sender ::
  "python \<Rightarrow> (sender \<Rightarrow> sender) \<Rightarrow> (sender \<Rightarrow> bool \<times> sender) \<Rightarrow> (sender \<Rightarrow> sender) \<Rightarrow> unit sender_proc" where
  "stop_sender py client_disconnect join_worker client_loop_stop s =
     (let was_active = started s \<or> loop_started s \<or> worker s = Some True
      in persist_at_shutdown py
           (if was_active then stop_worker client_disconnect join_worker client_loop_stop s else s))"

end
