(* ===== verification/SenderInv.thy ===== *)
theory SenderInv
  imports SenderDelivery OutboxClient PersistenceFacts
begin

text \<open>
  The invariant of a Sender's queue and the queue it stands for. \<open>messages\<close> is what the Sender
  still owes, oldest first: the messages on disk that are its own, then those in RAM. In FastMode a
  failed spill may leave copies of the first RAM messages on disk; they are not counted twice.
\<close>

section \<open>A message in RAM\<close>

definition no_message :: message_envelope where
  "no_message = \<lparr>msg_topic = [], msg_payload = PNone, msg_id = [], msg_version = 0\<rparr>"

definition item_message :: "python \<Rightarrow> pending_message \<Rightarrow> message_envelope" where
  "item_message py x =
     (case pm_encoded x of
        None \<Rightarrow> no_message
      | Some b \<Rightarrow> (case decode_message py (WBytes b) of Inl _ \<Rightarrow> no_message | Inr e \<Rightarrow> e))"

definition ram_ok :: "python \<Rightarrow> pending_message \<Rightarrow> bool" where
  "ram_ok py x \<longleftrightarrow> pm_state x = RAM_ONLY
     \<and> (case pm_encoded x of
          None \<Rightarrow> False
        | Some b \<Rightarrow> pm_size x = length b \<and> decode_message py (WBytes b) = Inr (item_message py x)
            \<and> encode_message py (item_message py x) = Inr b \<and> msg_id (item_message py x) = pm_id x)"

lemma item_message_same: "pm_encoded x = pm_encoded y \<Longrightarrow> item_message py x = item_message py y"
  by (simp add: item_message_def)

lemma ram_okE:
  assumes "ram_ok py x"
  obtains b where "pm_encoded x = Some b" "pm_size x = length b"
    "decode_message py (WBytes b) = Inr (item_message py x)" "encode_message py (item_message py x) = Inr b"
    "msg_id (item_message py x) = pm_id x" "valid_message py (item_message py x)" "pm_state x = RAM_ONLY"
  using assms decode_message_valid by (auto simp: ram_ok_def split: option.splits)

lemma ram_ok_change:
  "ram_ok py x \<Longrightarrow> pm_encoded y = pm_encoded x \<Longrightarrow> pm_size y = pm_size x \<Longrightarrow> pm_id y = pm_id x \<Longrightarrow>
    pm_state y = RAM_ONLY \<Longrightarrow> ram_ok py y"
  using item_message_same [of y x py] by (cases "pm_encoded x") (simp_all add: ram_ok_def)

lemma ram_ok_canon:
  assumes "python_ok py" and "ram_ok py x"
  shows "canon_message (item_message py x) = item_message py x"
  using assms(2)
proof (rule ram_okE)
  fix b assume "decode_message py (WBytes b) = Inr (item_message py x)"
    "encode_message py (item_message py x) = Inr b" "valid_message py (item_message py x)"
  with decode_encode_message [OF assms(1)] show ?thesis by simp
qed

section \<open>The persistence policy in any mode\<close>

definition policy_ok :: "python \<Rightarrow> policy \<Rightarrow> bool" where
  "policy_ok py p \<longleftrightarrow>
     healthy py (outbox_of p)
     \<and> (case mode p of
          DurableMode \<Rightarrow> True
        | GroupMode gm \<Rightarrow> group_inv py gm p
        | FastMode fm \<Rightarrow> fast_mode_ok fm)"

abbreviation pqueue :: "python \<Rightarrow> policy \<Rightarrow> message_envelope list" where
  "pqueue py p \<equiv> queue py (outbox_of p)"

section \<open>The invariant\<close>

definition ram_messages :: "python \<Rightarrow> sender \<Rightarrow> message_envelope list" where
  "ram_messages py s = map (\<lambda>a. item_message py (sd_items s a)) (fast_queue s)"

definition front_count :: "sender \<Rightarrow> nat" where
  "front_count s = length (sd_pending s) - length (fast_queue s)"

definition front :: "sender \<Rightarrow> nat list" where
  "front s = take (front_count s) (sd_pending s)"

definition messages :: "python \<Rightarrow> sender \<Rightarrow> message_envelope list" where
  "messages py s = take (front_count s) (pqueue py (persistence s)) @ ram_messages py s"

text \<open>The queue is the messages on disk followed by those in RAM, with their ids and addresses.\<close>

definition queue_shape :: "python \<Rightarrow> sender \<Rightarrow> bool" where
  "queue_shape py s \<longleftrightarrow>
     sd_pending s = front s @ fast_queue s
     \<and> distinct (sd_pending s) \<and> (\<forall>a \<in> set (sd_pending s). a < next_item s)
     \<and> (\<forall>a \<in> set (front s). pm_state (sd_items s a) = DISK_BACKED \<and> pm_encoded (sd_items s a) = None)
     \<and> (\<forall>a \<in> set (fast_queue s). ram_ok py (sd_items s a))"

definition index_ok :: "sender \<Rightarrow> bool" where
  "index_ok s \<longleftrightarrow>
     (\<forall>m a. sd_by_id s m = Some a \<longleftrightarrow> a \<in> set (sd_pending s) \<and> pm_id (sd_items s a) = m)"

text \<open>What the Outbox holds: the front, then copies of the first \<open>k\<close> RAM messages.\<close>

definition disk_holds :: "python \<Rightarrow> nat \<Rightarrow> sender \<Rightarrow> bool" where
  "disk_holds py k s \<longleftrightarrow>
     (let n = front_count s; q = pqueue py (persistence s) in
        n \<le> length q
        \<and> map msg_id (take n q) = map (\<lambda>a. pm_id (sd_items s a)) (front s)
        \<and> drop n q = take k (ram_messages py s) \<and> k \<le> length (fast_queue s)
        \<and> (\<forall>a \<in> set (take k (fast_queue s)). pm_spill_attempted (sd_items s a)))"

definition disk_shape :: "python \<Rightarrow> sender \<Rightarrow> bool" where
  "disk_shape py s \<longleftrightarrow> (\<exists>k. disk_holds py k s)"

definition ram_accounted :: "sender \<Rightarrow> bool" where
  "ram_accounted s \<longleftrightarrow>
     fast_ram_bytes s = (\<Sum>a\<leftarrow>fast_queue s. int (pm_size (sd_items s a)))
     \<and> (case fast_mode_of s of
          None \<Rightarrow> fast_queue s = []
        | Some fm \<Rightarrow> int (length (fast_queue s)) \<le> ram_max_messages fm \<and> fast_ram_bytes s \<le> ram_max_bytes fm)"

definition sender_inv :: "python \<Rightarrow> sender \<Rightarrow> bool" where
  "sender_inv py s \<longleftrightarrow>
     policy_ok py (persistence s) \<and> queue_shape py s \<and> index_ok s \<and> disk_shape py s \<and> ram_accounted s"

text \<open>The invariant as a decomposition of the queue, and back.\<close>

lemma sender_inv_view:
  assumes "sender_inv py s"
  obtains k D where "pqueue py (persistence s) = D @ take k (ram_messages py s)" "k \<le> length (fast_queue s)"
    "map msg_id D = map (\<lambda>a. pm_id (sd_items s a)) (front s)" "messages py s = D @ ram_messages py s"
    "\<forall>a \<in> set (take k (fast_queue s)). pm_spill_attempted (sd_items s a)"
proof -
  let ?n = "front_count s" and ?q = "pqueue py (persistence s)"
  from assms obtain k where k: "?n \<le> length ?q" "k \<le> length (fast_queue s)"
    "map msg_id (take ?n ?q) = map (\<lambda>a. pm_id (sd_items s a)) (front s)" "drop ?n ?q = take k (ram_messages py s)"
    "\<forall>a \<in> set (take k (fast_queue s)). pm_spill_attempted (sd_items s a)"
    by (auto simp: sender_inv_def disk_shape_def disk_holds_def Let_def)
  have "?q = take ?n ?q @ take k (ram_messages py s)" unfolding k(4) [symmetric] by simp
  with k that [of "take ?n ?q" k] show ?thesis by (simp add: messages_def)
qed

lemma sender_inv_intro:
  assumes "policy_ok py (persistence s)" "index_ok s" "ram_accounted s"
    and "sd_pending s = F @ fast_queue s" "distinct (sd_pending s)" "\<forall>a \<in> set (sd_pending s). a < next_item s"
    and "\<forall>a \<in> set F. pm_state (sd_items s a) = DISK_BACKED \<and> pm_encoded (sd_items s a) = None"
    and "\<forall>a \<in> set (fast_queue s). ram_ok py (sd_items s a)"
    and "pqueue py (persistence s) = D @ take k (ram_messages py s)" "k \<le> length (fast_queue s)"
    and "map msg_id D = map (\<lambda>a. pm_id (sd_items s a)) F"
    and "\<forall>a \<in> set (take k (fast_queue s)). pm_spill_attempted (sd_items s a)"
  shows "sender_inv py s" "messages py s = D @ ram_messages py s" "front s = F"
proof -
  have n: "front_count s = length F" and f: "front s = F" using assms(4) by (simp_all add: front_count_def front_def)
  have d: "length D = length F" using arg_cong [OF assms(11), of length] by simp
  then show "messages py s = D @ ram_messages py s" using assms(9) n by (simp add: messages_def)
  show "front s = F" by (rule f)
  have "queue_shape py s" using assms(4-8) f by (simp add: queue_shape_def)
  moreover have "disk_holds py k s" using assms(9-12) n f d by (simp add: disk_holds_def Let_def)
  ultimately show "sender_inv py s" using assms(1-3) by (auto simp: sender_inv_def disk_shape_def)
qed

lemma sender_inv_facts:
  assumes "sender_inv py s"
  shows "policy_ok py (persistence s)" "index_ok s" "ram_accounted s"
    "sd_pending s = front s @ fast_queue s" "distinct (sd_pending s)" "\<forall>a \<in> set (sd_pending s). a < next_item s"
    "\<forall>a \<in> set (front s). pm_state (sd_items s a) = DISK_BACKED \<and> pm_encoded (sd_items s a) = None"
    "\<forall>a \<in> set (fast_queue s). ram_ok py (sd_items s a)"
  using assms unfolding sender_inv_def queue_shape_def by blast+

lemma ram_messages_ids:
  "\<forall>a \<in> set (fast_queue s). ram_ok py (sd_items s a) \<Longrightarrow>
    map msg_id (ram_messages py s) = map (\<lambda>a. pm_id (sd_items s a)) (fast_queue s)"
  by (auto simp: ram_messages_def elim: ram_okE)

lemma messages_ids:
  assumes "sender_inv py s"
  shows "map msg_id (messages py s) = map (\<lambda>a. pm_id (sd_items s a)) (sd_pending s)"
proof -
  from sender_inv_view [OF assms] obtain D where
    "map msg_id D = map (\<lambda>a. pm_id (sd_items s a)) (front s)" "messages py s = D @ ram_messages py s" by metis
  with ram_messages_ids [OF sender_inv_facts(8) [OF assms]] sender_inv_facts(4) [OF assms] show ?thesis
    by (metis map_append)
qed

lemma index_ok_inj: "index_ok s \<Longrightarrow> inj_on (\<lambda>a. pm_id (sd_items s a)) (set (sd_pending s))"
proof (rule inj_onI)
  fix a b assume i: "index_ok s" and a: "a \<in> set (sd_pending s)" "b \<in> set (sd_pending s)"
    "pm_id (sd_items s a) = pm_id (sd_items s b)"
  then have "sd_by_id s (pm_id (sd_items s a)) = Some a" "sd_by_id s (pm_id (sd_items s a)) = Some b"
    by (auto simp: index_ok_def)
  then show "a = b" by simp
qed

lemma messages_distinct: "sender_inv py s \<Longrightarrow> distinct (map msg_id (messages py s))"
  using index_ok_inj sender_inv_facts(2,5) by (auto simp: messages_ids distinct_map)

section \<open>Steps outside the queue\<close>

text \<open>A policy that has only read the clock and the disk.\<close>

definition policy_quiet :: "policy \<Rightarrow> policy \<Rightarrow> bool" where
  "policy_quiet p p' \<longleftrightarrow>
     (\<exists>d t steps. quiet (disk (outbox_of p)) d \<and> now p \<le> t
        \<and> p' = p\<lparr>outbox_of := (outbox_of p)\<lparr>disk := d\<rparr>, now := t, clock_steps := steps\<rparr>)"

lemma policy_quiet_refl [simp]: "policy_quiet p p"
  unfolding policy_quiet_def
  by (intro exI [of _ "disk (outbox_of p)"] exI [of _ "now p"] exI [of _ "clock_steps p"]) simp

lemma policy_quiet_trans: "policy_quiet p q \<Longrightarrow> policy_quiet q r \<Longrightarrow> policy_quiet p r"
proof -
  assume "policy_quiet p q" "policy_quiet q r"
  then obtain d t st d' t' st' where
    "quiet (disk (outbox_of p)) d" "now p \<le> t"
    "q = p\<lparr>outbox_of := (outbox_of p)\<lparr>disk := d\<rparr>, now := t, clock_steps := st\<rparr>"
    "quiet d d'" "t \<le> t'" "r = q\<lparr>outbox_of := (outbox_of q)\<lparr>disk := d'\<rparr>, now := t', clock_steps := st'\<rparr>"
    by (fastforce simp: policy_quiet_def)
  with quiet_trans show ?thesis
    unfolding policy_quiet_def by (intro exI [of _ d'] exI [of _ t'] exI [of _ st']) auto
qed

lemma policy_quiet_clock: "read_clock p = (t, p') \<Longrightarrow> policy_quiet p p'"
proof (erule read_clock_cases)
  fix steps assume "p' = p\<lparr>now := t, clock_steps := steps\<rparr>" "now p \<le> t"
  then show "policy_quiet p p'" unfolding policy_quiet_def
    by (intro exI [of _ "disk (outbox_of p)"] exI [of _ t] exI [of _ steps]) simp
qed

lemma policy_quiet_ok:
  assumes "policy_ok py p" and "policy_quiet p p'"
  shows "policy_ok py p'" "pqueue py p' = pqueue py p" "mode p' = mode p"
    "secure py (outbox_of p) \<longrightarrow> secure py (outbox_of p')"
    "data_sync_pending (outbox_of p') = data_sync_pending (outbox_of p)"
    "volatile_completed_ids (outbox_of p') = volatile_completed_ids (outbox_of p)"
proof -
  from assms(2) obtain d t steps where q: "quiet (disk (outbox_of p)) d" "now p \<le> t"
    "p' = p\<lparr>outbox_of := (outbox_of p)\<lparr>disk := d\<rparr>, now := t, clock_steps := steps\<rparr>"
    by (auto simp: policy_quiet_def)
  have h: "healthy py (outbox_of p)" using assms(1) by (simp add: policy_ok_def)
  note c = quiet_client [OF h q(1)]
  show "pqueue py p' = pqueue py p" "mode p' = mode p"
    "data_sync_pending (outbox_of p') = data_sync_pending (outbox_of p)"
    "volatile_completed_ids (outbox_of p') = volatile_completed_ids (outbox_of p)" using c(2) q(3) by simp_all
  show "secure py (outbox_of p) \<longrightarrow> secure py (outbox_of p')" using c(3) q(3) by simp
  have "group_inv py gm p'" if g: "group_inv py gm p" for gm
  proof -
    obtain lay where "outbox_inv py lay (outbox_of p)" using group_inv_outbox [OF g] by blast
    from outbox_inv_quiet [OF this q(1)] g q(2) show ?thesis
      by (auto simp: q(3) group_inv_def counted_def timers_ok_def)
  qed
  with assms(1) c(1) show "policy_ok py p'" by (auto simp: policy_ok_def q(3) split: delivery_mode.splits)
qed

text \<open>The fields the invariant and the queue depend on.\<close>

definition same_core :: "sender \<Rightarrow> sender \<Rightarrow> bool" where
  "same_core s s' \<longleftrightarrow> sd_items s' = sd_items s \<and> next_item s' = next_item s \<and> sd_pending s' = sd_pending s
     \<and> sd_by_id s' = sd_by_id s \<and> fast_queue s' = fast_queue s \<and> fast_ram_bytes s' = fast_ram_bytes s
     \<and> policy_quiet (persistence s) (persistence s')"

lemma same_core_refl [simp]: "same_core s s"
  by (simp add: same_core_def)

lemma same_core_trans: "same_core s t \<Longrightarrow> same_core t u \<Longrightarrow> same_core s u"
  using policy_quiet_trans by (auto simp: same_core_def)

lemma same_core_inv:
  assumes "sender_inv py s" and "same_core s s'"
  shows "sender_inv py s'" "messages py s' = messages py s" "fast_mode_of s' = fast_mode_of s"
proof -
  have q: "policy_quiet (persistence s) (persistence s')" using assms(2) by (simp add: same_core_def)
  have "policy_ok py (persistence s)" using assms(1) by (simp add: sender_inv_def)
  note p = policy_quiet_ok [OF this q]
  show f: "fast_mode_of s' = fast_mode_of s" using p(3) by (simp add: fast_mode_of_def)
  have r: "ram_messages py s' = ram_messages py s" using assms(2) by (simp add: ram_messages_def same_core_def)
  have fr: "front_count s' = front_count s" "front s' = front s"
    using assms(2) by (simp_all add: front_count_def front_def same_core_def)
  show "messages py s' = messages py s" using p(2) r fr by (simp add: messages_def)
  have "queue_shape py s' = queue_shape py s" using assms(2) fr by (simp add: queue_shape_def same_core_def)
  moreover have "index_ok s' = index_ok s" using assms(2) by (simp add: index_ok_def same_core_def)
  moreover have "disk_holds py k s' = disk_holds py k s" for k
    using assms(2) fr p(2) r by (simp add: disk_holds_def same_core_def)
  moreover have "ram_accounted s' = ram_accounted s"
    using assms(2) f by (cases "fast_mode_of s") (simp_all add: ram_accounted_def same_core_def)
  ultimately show "sender_inv py s'" using assms(1) p(1) by (simp add: sender_inv_def disk_shape_def)
qed

lemma same_core_monotonic: "monotonic s = (r, s') \<Longrightarrow> same_core s s' \<and> (\<exists>t. r = Inr t)"
  by (auto simp: monotonic_def same_core_def policy_quiet_clock split: prod.splits)

lemma same_core_cancel [simp]: "same_core s (cancel_fast_timer s)"
  by (simp add: same_core_def cancel_fast_timer_def)

lemma same_core_schedule [simp]: "same_core s (schedule_fast_maintenance s)"
proof -
  obtain t p where c: "read_clock (persistence s) = (t, p)" by (cases "read_clock (persistence s)")
  have "same_core s (s\<lparr>persistence := p\<rparr>)" using policy_quiet_clock [OF c] by (simp add: same_core_def)
  then show ?thesis using c
    by (auto simp: schedule_fast_maintenance_def Let_def cancel_fast_timer_def same_core_def
        split: option.splits list.splits prod.splits)
qed

lemma same_core_fields [simp]:
  "same_core s (s\<lparr>fast_timer := a\<rparr>)" "same_core s (s\<lparr>fast_timer_deadline := b\<rparr>)"
  "same_core s (s\<lparr>fast_retry_not_before := c\<rparr>)" "same_core s (s\<lparr>disconnected_since := d\<rparr>)"
  "same_core s (s\<lparr>subscription_mid := e\<rparr>)" "same_core s (s\<lparr>next_subscription_attempt := f\<rparr>)"
  "same_core s (s\<lparr>connected := g\<rparr>)" "same_core s (s\<lparr>ack_subscription_ready := h\<rparr>)"
  "same_core s (s\<lparr>stop_event := i\<rparr>)" "same_core s (s\<lparr>wakeup := j\<rparr>)" "same_core s (s\<lparr>sd_tracker := k\<rparr>)"
  "same_core s (s\<lparr>worker := l\<rparr>)" "same_core s (s\<lparr>started := m\<rparr>)" "same_core s (s\<lparr>loop_started := n\<rparr>)"
  "same_core s (s\<lparr>connection_count := x\<rparr>)" "same_core s (s\<lparr>retry_attempts := y\<rparr>)"
  by (simp_all add: same_core_def)

end
