(* ===== verification/SenderSpill.thy ===== *)
theory SenderSpill
  imports SenderInv
begin

text \<open>
  Spilling a batch from RAM to disk: whether it returns or raises, the queue of messages stays
  the same; when it returns, a prefix of the RAM queue is on disk, synced.
\<close>

section \<open>The batch\<close>

lemma select_spill_prefix:
  assumes "\<forall>a \<in> set q. pm_state (its a) = RAM_ONLY"
  shows "\<exists>n \<le> length q. select_spill mx mb its sel b q = Inr (sel @ take n q)
    \<and> (0 < mx \<and> sel = [] \<and> q \<noteq> [] \<longrightarrow> 0 < n) \<and> int (length sel) + int n \<le> max mx (int (length sel))"
  using assms
proof (induction q arbitrary: sel b)
  case Nil
  then show ?case by simp
next
  case (Cons a q)
  show ?case
  proof (cases "int (length sel) \<ge> mx \<or> (sel \<noteq> [] \<and> int (b + pm_size (its a)) > mb)")
    case True
    with Cons.prems show ?thesis by (intro exI [of _ 0]) auto
  next
    case False
    from Cons.prems have "\<forall>a \<in> set q. pm_state (its a) = RAM_ONLY" by simp
    from Cons.IH [OF this, of "sel @ [a]" "b + pm_size (its a)"] obtain n where
      n: "n \<le> length q" "select_spill mx mb its (sel @ [a]) (b + pm_size (its a)) q = Inr ((sel @ [a]) @ take n q)"
      "int (length (sel @ [a])) + int n \<le> max mx (int (length (sel @ [a])))" by blast
    with False Cons.prems show ?thesis by (intro exI [of _ "Suc n"]) auto
  qed
qed

text \<open>The messages already on disk are found again by their ids, so only the rest is appended.\<close>

lemma new_messages_filter:
  "distinct (map msg_id es) \<Longrightarrow> new_messages seen es = filter (\<lambda>e. msg_id e \<notin> seen) es"
proof (induction seen es rule: new_messages.induct)
  case (2 seen e es)
  have "msg_id x \<noteq> msg_id e" if "x \<in> set es" for x
    using 2(3) imageI [OF that, of msg_id] by auto
  then have "filter (\<lambda>x. msg_id x \<notin> insert (msg_id e) seen) es = filter (\<lambda>x. msg_id x \<notin> seen) es"
    by (intro filter_cong) auto
  with 2 show ?case by auto
qed simp

lemma new_messages_prefix:
  assumes "distinct (map msg_id (D @ M))"
  shows "new_messages (set (map msg_id (D @ take k M))) (take n M) = drop k (take n M)"
proof -
  have d: "distinct (map msg_id (take n M))" using assms by (auto simp flip: take_map)
  have "filter (\<lambda>e. msg_id e \<notin> set (map msg_id (D @ take k M))) (take n M) = drop k (take n M)"
  proof -
    have old: "filter (\<lambda>e. msg_id e \<notin> set (map msg_id (D @ take k M))) (take k (take n M)) = []"
      by (auto simp: filter_empty_conv) (metis image_eqI in_set_takeD min.commute take_take)
    have "msg_id e \<notin> set (map msg_id (D @ take k M))" if "e \<in> set (drop k (take n M))" for e
    proof -
      have e: "e \<in> set (drop k M)" using that by (metis drop_take in_set_takeD)
      have "set (map msg_id (take k M)) \<inter> set (map msg_id (drop k M)) = {}"
        using assms set_take_disj_set_drop_if_distinct [of "map msg_id M" k k] by (simp flip: take_map drop_map)
      moreover have "set (map msg_id D) \<inter> set (map msg_id M) = {}" using assms by auto
      ultimately show ?thesis using e in_set_dropD [OF e] by auto
    qed
    then have "filter (\<lambda>e. msg_id e \<notin> set (map msg_id (D @ take k M))) (drop k (take n M)) = drop k (take n M)"
      by (rule filter_True [rule_format])
    with old have "filter (\<lambda>e. msg_id e \<notin> set (map msg_id (D @ take k M))) (take k (take n M) @ drop k (take n M))
        = drop k (take n M)" unfolding filter_append by simp
    then show ?thesis unfolding append_take_drop_id .
  qed
  with new_messages_filter [OF d] show ?thesis by simp
qed

lemma take_more: "n \<le> length M \<Longrightarrow> j \<le> n - k \<Longrightarrow> take k M @ take j (drop k (take n M)) = take (k + j) M"
  by (simp add: take_add drop_take min_def)

section \<open>The states of the messages\<close>

lemma mark_persisting_items [simp]:
  "pm_id (sd_items (mark_persisting sel s) a) = pm_id (sd_items s a)"
  "pm_encoded (sd_items (mark_persisting sel s) a) = pm_encoded (sd_items s a)"
  "pm_size (sd_items (mark_persisting sel s) a) = pm_size (sd_items s a)"
  "item_message py (sd_items (mark_persisting sel s) a) = item_message py (sd_items s a)"
  by (simp_all add: mark_persisting_def item_message_def)

lemma mark_ram_only_items [simp]:
  "pm_id (sd_items (mark_ram_only sel s) a) = pm_id (sd_items s a)"
  "pm_encoded (sd_items (mark_ram_only sel s) a) = pm_encoded (sd_items s a)"
  "pm_size (sd_items (mark_ram_only sel s) a) = pm_size (sd_items s a)"
  "pm_spill_attempted (sd_items (mark_ram_only sel s) a) = pm_spill_attempted (sd_items s a)"
  "item_message py (sd_items (mark_ram_only sel s) a) = item_message py (sd_items s a)"
  by (simp_all add: mark_ram_only_def item_message_def)

lemma release_each_run:
  "fast_queue s = sel @ rest \<Longrightarrow> distinct sel \<Longrightarrow>
    release_each sel s = (Inr (), s\<lparr>fast_queue := rest,
      fast_ram_bytes := fast_ram_bytes s - (\<Sum>a\<leftarrow>sel. int (pm_size (sd_items s a))),
      sd_items := (\<lambda>a. if a \<in> set sel then (sd_items s a)\<lparr>pm_state := DISK_BACKED, pm_encoded := None\<rparr>
                       else sd_items s a)\<rparr>)"
proof (induction sel arbitrary: s)
  case Nil
  then show ?case by simp
next
  case (Cons a sel)
  let ?s = "s\<lparr>fast_queue := sel @ rest, fast_ram_bytes := fast_ram_bytes s - int (pm_size (sd_items s a)),
    sd_items := (sd_items s)(a := (sd_items s a)\<lparr>pm_state := DISK_BACKED, pm_encoded := None\<rparr>)\<rparr>"
  have e: "release_each (a # sel) s = release_each sel ?s" using Cons.prems(1) by simp
  have d: "distinct sel" "a \<notin> set sel" using Cons.prems(2) by auto
  have sz: "(\<Sum>x\<leftarrow>sel. int (pm_size (sd_items ?s x))) = (\<Sum>x\<leftarrow>sel. int (pm_size (sd_items s x)))"
    using d(2) by (intro arg_cong [of _ _ sum_list] map_cong) auto
  have it: "(\<lambda>x. if x \<in> set sel then (sd_items ?s x)\<lparr>pm_state := DISK_BACKED, pm_encoded := None\<rparr> else sd_items ?s x)
      = (\<lambda>x. if x \<in> set (a # sel) then (sd_items s x)\<lparr>pm_state := DISK_BACKED, pm_encoded := None\<rparr> else sd_items s x)"
    using d(2) by (auto simp: fun_eq_iff)
  have "release_each sel ?s = (Inr (), ?s\<lparr>fast_queue := rest,
      fast_ram_bytes := fast_ram_bytes ?s - (\<Sum>x\<leftarrow>sel. int (pm_size (sd_items ?s x))),
      sd_items := (\<lambda>x. if x \<in> set sel then (sd_items ?s x)\<lparr>pm_state := DISK_BACKED, pm_encoded := None\<rparr>
                       else sd_items ?s x)\<rparr>)"
    by (rule Cons.IH) (use d in simp_all)
  also have "\<dots> = (Inr (), s\<lparr>fast_queue := rest,
      fast_ram_bytes := fast_ram_bytes s - (\<Sum>x\<leftarrow>a # sel. int (pm_size (sd_items s x))),
      sd_items := (\<lambda>x. if x \<in> set (a # sel) then (sd_items s x)\<lparr>pm_state := DISK_BACKED, pm_encoded := None\<rparr>
                       else sd_items s x)\<rparr>)"
    unfolding it sz by simp
  finally show ?case using e by simp
qed

lemma envelopes_of_run:
  "\<forall>a \<in> set sel. \<exists>b. pm_encoded (sd_items s a) = Some b
       \<and> decode_message py (WBytes b) = Inr (item_message py (sd_items s a)) \<Longrightarrow>
    envelopes_of py sel s = (Inr (map (\<lambda>a. item_message py (sd_items s a)) sel), s)"
  by (induction sel) (auto simp: item_envelope_def item_encoded_def andThen_def)

section \<open>Persisting the batch\<close>

lemma item_encoded_ram: "pm_encoded (sd_items s a) = Some b \<Longrightarrow> item_encoded py a s = (Inr b, s)"
  by (simp add: item_encoded_def)

lemma on_policy_outbox:
  assumes "on_policy (on_outbox m) s = (r, s')"
  obtains ob where "m (outbox_of (persistence s)) = (r, ob)"
    "s' = s\<lparr>persistence := (persistence s)\<lparr>outbox_of := ob\<rparr>\<rparr>"
  using assms by (cases "m (outbox_of (persistence s))") (auto simp: on_policy_def on_outbox_def)

text \<open>The Outbox after a step, in the terms a client needs.\<close>

definition outbox_kept :: "python \<Rightarrow> outbox \<Rightarrow> outbox \<Rightarrow> bool" where
  "outbox_kept py ob ob' \<longleftrightarrow> healthy py ob' \<and> queue py ob' = queue py ob \<and> (secure py ob \<longrightarrow> secure py ob')"

lemma outbox_kept_trans: "outbox_kept py a b \<Longrightarrow> outbox_kept py b c \<Longrightarrow> outbox_kept py a c"
  by (simp add: outbox_kept_def)

lemma verify_stored_effect:
  assumes "healthy py (outbox_of (persistence s))"
    and "\<forall>a \<in> set sel. \<exists>b. pm_encoded (sd_items s a) = Some b \<and> message_id_pattern (pm_id (sd_items s a))"
    and "verify_stored py sel s = (r, s')"
  shows "\<exists>ob'. s' = s\<lparr>persistence := (persistence s)\<lparr>outbox_of := ob'\<rparr>\<rparr>
    \<and> outbox_kept py (outbox_of (persistence s)) ob' \<and> (r = Inr () \<or> r = Inl OutboxError)"
  using assms
proof (induction sel arbitrary: s)
  case Nil
  then show ?case by (auto simp: outbox_kept_def intro!: exI [of _ "outbox_of (persistence s)"])
next
  case (Cons a sel)
  let ?ob = "outbox_of (persistence s)"
  obtain b where b: "pm_encoded (sd_items s a) = Some b" "message_id_pattern (pm_id (sd_items s a))"
    using Cons.prems(2) by auto
  obtain r1 s1 where g: "on_policy (on_outbox (outbox_get py (pm_id (sd_items s a)))) s = (r1, s1)"
    by (cases "on_policy (on_outbox (outbox_get py (pm_id (sd_items s a)))) s")
  then obtain ob where ob: "outbox_get py (pm_id (sd_items s a)) ?ob = (r1, ob)"
    "s1 = s\<lparr>persistence := (persistence s)\<lparr>outbox_of := ob\<rparr>\<rparr>" by (rule on_policy_outbox)
  note h = healthy_get [OF Cons.prems(1) ob(1)]
  then obtain d where d: "quiet (disk ?ob) d" "ob = ?ob\<lparr>disk := d\<rparr>" by blast
  have k: "outbox_kept py ?ob ob" using quiet_client [OF Cons.prems(1) d(1)] d(2) by (simp add: outbox_kept_def)
  show ?case
  proof (cases "\<exists>e. r1 = Inr (Some e)")
    case False
    with g Cons.prems(3) have "s' = s1" "r = (case r1 of Inl x \<Rightarrow> Inl x | Inr _ \<Rightarrow> Inl OutboxError)"
      by (auto simp: andThen_def split: sum.splits option.splits)
    moreover have "r1 = Inl x \<Longrightarrow> x = OutboxError" for x using h b(2) by auto
    ultimately show ?thesis using k ob(2) by (cases r1) auto
  next
    case True
    then obtain e where e: "r1 = Inr (Some e)" by blast
    with h have "e \<in> set (queue py ?ob)" by auto
    from queue_items(2) [OF Cons.prems(1) this] obtain c where c: "encode_message py e = Inr c" ..
    have enc: "item_encoded py a s1 = (Inr b, s1)" using b(1) ob(2) by (intro item_encoded_ram) simp
    show ?thesis
    proof (cases "c = b")
      case False
      with g e c enc Cons.prems(3) have "s' = s1" "r = Inl OutboxError" by (auto simp: andThen_def)
      with k ob(2) show ?thesis by auto
    next
      case True
      with g e c enc Cons.prems(3) have run: "verify_stored py sel s1 = (r, s')" by (simp add: andThen_def)
      have "healthy py (outbox_of (persistence s1))" using k ob(2) by (simp add: outbox_kept_def)
      from Cons.IH [OF this _ run] Cons.prems(2) ob(2) obtain ob' where
        "s' = s1\<lparr>persistence := (persistence s1)\<lparr>outbox_of := ob'\<rparr>\<rparr>" "outbox_kept py ob ob'"
        "r = Inr () \<or> r = Inl OutboxError" by auto
      with ob(2) outbox_kept_trans [OF k] show ?thesis by (intro exI [of _ ob']) auto
    qed
  qed
qed

lemma persist_selected_effect:
  assumes h: "healthy py (outbox_of (persistence s))"
    and q: "queue py (outbox_of (persistence s)) = D @ take k M" and dist: "distinct (map msg_id (D @ M))"
    and M: "M = map (\<lambda>a. item_message py (sd_items s a)) fq" "\<forall>a \<in> set fq. \<exists>b. pm_encoded (sd_items s a) = Some b
      \<and> decode_message py (WBytes b) = Inr (item_message py (sd_items s a))
      \<and> encode_message py (item_message py (sd_items s a)) = Inr b
      \<and> msg_id (item_message py (sd_items s a)) = pm_id (sd_items s a)"
    and n: "n \<le> length fq" and r: "persist_selected py (take n fq) s = (r, s')"
  shows "\<exists>ob' k'. s' = s\<lparr>persistence := (persistence s)\<lparr>outbox_of := ob'\<rparr>\<rparr> \<and> healthy py ob'
    \<and> queue py ob' = D @ take k' M \<and> k \<le> k' \<and> k' \<le> max k n
    \<and> (r = Inr () \<and> n \<le> k' \<and> \<not> data_sync_pending ob' \<and> (secure py (outbox_of (persistence s)) \<longrightarrow> secure py ob')
       \<or> r = Inl OutboxError)"
proof -
  let ?ob = "outbox_of (persistence s)"
  have py: "python_ok py" using h by (rule healthy_python)
  have ms: "valid_message py e \<and> canon_message e = e \<and> (\<exists>b. encode_message py e = Inr b)" if "e \<in> set M" for e
    using that M decode_message_valid decode_encode_message [OF py] by fastforce
  have envs: "envelopes_of py (take n fq) s = (Inr (take n M), s)"
    using M envelopes_of_run [of "take n fq" s py] by (auto simp: take_map dest: in_set_takeD)
  obtain r1 s1 where a: "on_policy (append_many_durable py (take n M)) s = (r1, s1)"
    by (cases "on_policy (append_many_durable py (take n M)) s")
  then obtain ob where ob: "append_many py (take n M) True ?ob = (r1, ob)"
    "s1 = s\<lparr>persistence := (persistence s)\<lparr>outbox_of := ob\<rparr>\<rparr>"
    unfolding append_many_durable_def by (rule on_policy_outbox)
  have v: "\<forall>e \<in> set (take n M). valid_message py e" using ms by (auto dest: in_set_takeD)
  note eff = healthy_append_many [OF h v ob(1)]
  have news: "map canon_message (new_messages (set (map msg_id (queue py ?ob))) (take n M)) = drop k (take n M)"
  proof -
    have "map canon_message (drop k (take n M)) = drop k (take n M)"
      using ms by (intro map_idI) (auto dest: in_set_dropD in_set_takeD)
    then show ?thesis unfolding q new_messages_prefix [OF dist] .
  qed
  have len: "length (drop k (take n M)) = n - k" using n M(1) by simp
  obtain j where j: "j \<le> n - k" "queue py ob = queue py ?ob @ take j (drop k (take n M))"
    "\<And>res. r1 = Inr res \<Longrightarrow> j = n - k \<and> appended_count res = n - k \<and> \<not> data_sync_pending ob
       \<and> (secure py ?ob \<longrightarrow> secure py ob)"
    using eff unfolding news len by auto
  have h1: "healthy py ob" using eff by blast
  have q1: "queue py ob = D @ take (k + j) M" using j(1,2) q take_more [of n M j k] n M(1) by simp
  have er: "x = OutboxError" if "r1 = Inl x" for x
  proof -
    have "encode_message py e \<noteq> Inl x" if "e \<in> set (take n M)" for e
      using ms [OF in_set_takeD [OF that]] by auto
    with eff that show ?thesis by blast
  qed
  have k': "k \<le> k + j" "k + j \<le> max k n" using j(1) by auto
  show ?thesis
  proof (cases r1)
    case (Inl x)
    with r envs a have "s' = s1" "r = Inl x" by (auto simp: persist_selected_def andThen_def)
    with er [OF Inl] h1 q1 k' ob(2) show ?thesis by (intro exI [of _ ob] exI [of _ "k + j"]) simp
  next
    case (Inr res)
    note ok = j(3) [OF Inr]
    show ?thesis
    proof (cases "appended_count res \<noteq> length (take n fq)")
      case False
      with r envs a Inr have "s' = s1" "r = Inr ()" by (auto simp: persist_selected_def andThen_def)
      with ok h1 q1 k' ob(2) show ?thesis by (intro exI [of _ ob] exI [of _ "k + j"]) simp
    next
      case True
      obtain r2 s2 where ver: "verify_stored py (take n fq) s1 = (r2, s2)"
        by (cases "verify_stored py (take n fq) s1")
      have "\<forall>a \<in> set (take n fq). \<exists>b. pm_encoded (sd_items s1 a) = Some b \<and> message_id_pattern (pm_id (sd_items s1 a))"
      proof
        fix a assume "a \<in> set (take n fq)"
        then have a: "a \<in> set fq" by (rule in_set_takeD)
        with M(1) have "valid_message py (item_message py (sd_items s a))" using ms by simp
        then have "message_id_pattern (msg_id (item_message py (sd_items s a)))"
          by (auto simp: valid_message_def MessageEnvelope_def bindE_Inr validate_message_id_def split: if_splits)
        with M(2) a ob(2) show "\<exists>b. pm_encoded (sd_items s1 a) = Some b \<and> message_id_pattern (pm_id (sd_items s1 a))"
          by fastforce
      qed
      from verify_stored_effect [OF _ this ver] h1 ob(2) obtain ob2 where
        o2: "s2 = s\<lparr>persistence := (persistence s)\<lparr>outbox_of := ob2\<rparr>\<rparr>" "outbox_kept py ob ob2"
        "r2 = Inr () \<or> r2 = Inl OutboxError" by auto
      show ?thesis
      proof (cases r2)
        case (Inl x)
        with r envs a \<open>r1 = Inr res\<close> True ver have "s' = s2" "r = Inl x"
          by (auto simp: persist_selected_def andThen_def)
        with o2 Inl q1 k' show ?thesis
          by (intro exI [of _ ob2] exI [of _ "k + j"]) (auto simp: outbox_kept_def)
      next
        case Inr2: (Inr u)
        with r envs a \<open>r1 = Inr res\<close> True ver have "on_policy (on_outbox outbox_sync) s2 = (r, s')"
          by (auto simp: persist_selected_def andThen_def)
        then obtain ob3 where o3: "outbox_sync (outbox_of (persistence s2)) = (r, ob3)"
          "s' = s2\<lparr>persistence := (persistence s2)\<lparr>outbox_of := ob3\<rparr>\<rparr>" by (rule on_policy_outbox)
        have "healthy py ob2" using o2(2) by (simp add: outbox_kept_def)
        from healthy_sync [OF this] o3(1) o2(1) have "healthy py ob3 \<and> queue py ob3 = queue py ob2
            \<and> (r = Inr () \<or> r = Inl OutboxError) \<and> (r = Inr () \<longrightarrow> \<not> data_sync_pending ob3)
            \<and> (secure py ob2 \<longrightarrow> secure py ob3)" by simp
        with o2(2) q1 k' ok o3(2) o2(1) show ?thesis
          by (intro exI [of _ ob3] exI [of _ "k + j"]) (auto simp: outbox_kept_def)
      qed
    qed
  qed
qed

section \<open>The whole batch\<close>

text \<open>What spilling may change: messages move from RAM to disk, the oldest first.\<close>

definition spilled :: "python \<Rightarrow> sender \<Rightarrow> sender \<Rightarrow> bool" where
  "spilled py s s' \<longleftrightarrow>
     sender_inv py s' \<and> messages py s' = messages py s \<and> sd_pending s' = sd_pending s
     \<and> sd_by_id s' = sd_by_id s \<and> next_item s' = next_item s \<and> fast_mode_of s' = fast_mode_of s
     \<and> (\<forall>a. pm_id (sd_items s' a) = pm_id (sd_items s a)) \<and> (\<exists>n. fast_queue s' = drop n (fast_queue s))"

lemma spilled_refl: "sender_inv py s \<Longrightarrow> spilled py s s"
  by (auto simp: spilled_def intro: exI [of _ 0])

lemma spilled_trans: "spilled py s t \<Longrightarrow> spilled py t u \<Longrightarrow> spilled py s u"
proof -
  assume a: "spilled py s t" "spilled py t u"
  then obtain m n where "fast_queue t = drop m (fast_queue s)" "fast_queue u = drop n (fast_queue t)"
    by (auto simp: spilled_def)
  then have "fast_queue u = drop (n + m) (fast_queue s)" by simp
  with a show ?thesis by (auto simp: spilled_def)
qed

lemma spilled_core: "sender_inv py s \<Longrightarrow> same_core s s' \<Longrightarrow> spilled py s s'"
  using same_core_inv [of py s s'] by (auto simp: spilled_def same_core_def intro: exI [of _ 0])

lemma policy_ok_fast:
  assumes "policy_ok py p" and "mode p = FastMode fm" and "healthy py ob"
  shows "policy_ok py (p\<lparr>outbox_of := ob\<rparr>)"
  using assms by (simp add: policy_ok_def)

text \<open>After a failure the batch is in RAM again, and some of it may have been written.\<close>

lemma spill_failed:
  assumes inv: "sender_inv py s" and m: "mode (persistence s) = FastMode fm" and h: "healthy py ob"
    and q: "pqueue py (persistence s) = D @ take k (ram_messages py s)" "queue py ob = D @ take k' (ram_messages py s)"
    and k: "k' \<le> length (fast_queue s)" "k' \<le> max k n"
      "map msg_id D = map (\<lambda>a. pm_id (sd_items s a)) (front s)" "messages py s = D @ ram_messages py s"
      "\<forall>a \<in> set (take k (fast_queue s)). pm_spill_attempted (sd_items s a)"
    and s': "s' = mark_ram_only (take n (fast_queue s))
      ((mark_persisting (take n (fast_queue s)) s)\<lparr>persistence := (persistence s)\<lparr>outbox_of := ob\<rparr>\<rparr>)"
  shows "spilled py s s'" "fast_queue s' = fast_queue s"
proof -
  note f = sender_inv_facts [OF inv]
  have fields: "sd_pending s' = sd_pending s" "sd_by_id s' = sd_by_id s" "next_item s' = next_item s"
    "fast_queue s' = fast_queue s" "fast_ram_bytes s' = fast_ram_bytes s"
    "persistence s' = (persistence s)\<lparr>outbox_of := ob\<rparr>"
    by (simp_all add: s' mark_ram_only_def mark_persisting_def)
  have its: "pm_id (sd_items s' a) = pm_id (sd_items s a)" "pm_encoded (sd_items s' a) = pm_encoded (sd_items s a)"
    "pm_size (sd_items s' a) = pm_size (sd_items s a)" for a
    by (simp_all add: s' mark_ram_only_def mark_persisting_def)
  have st: "pm_state (sd_items s' a) = (if a \<in> set (take n (fast_queue s)) then RAM_ONLY else pm_state (sd_items s a))" for a
    by (simp add: s' mark_ram_only_def mark_persisting_def)
  have at: "pm_spill_attempted (sd_items s' a)" if "a \<in> set (take n (fast_queue s)) \<or> pm_spill_attempted (sd_items s a)" for a
    using that by (auto simp: s' mark_ram_only_def mark_persisting_def)
  have msg: "item_message py (sd_items s' a) = item_message py (sd_items s a)" for a
    using its(2) by (rule item_message_same)
  have rm: "ram_messages py s' = ram_messages py s" by (simp add: ram_messages_def fields msg)
  have fm: "fast_mode_of s' = fast_mode_of s" by (simp add: fast_mode_of_def fields)
  have ram: "\<forall>a \<in> set (fast_queue s'). ram_ok py (sd_items s' a)"
  proof
    fix a assume "a \<in> set (fast_queue s')"
    with f(8) fields have r: "ram_ok py (sd_items s a)" by simp
    then have "pm_state (sd_items s a) = RAM_ONLY" by (simp add: ram_ok_def)
    with st have "pm_state (sd_items s' a) = RAM_ONLY" by simp
    from ram_ok_change [OF r its(2,3,1) this] show "ram_ok py (sd_items s' a)" .
  qed
  have disj: "set (front s) \<inter> set (fast_queue s) = {}" using f(4,5) by (metis distinct_append)
  have F: "\<forall>a \<in> set (front s). pm_state (sd_items s' a) = DISK_BACKED \<and> pm_encoded (sd_items s' a) = None"
    using f(7) disj st its by (auto dest: in_set_takeD)
  have idx: "index_ok s'" using f(2) its fields by (simp add: index_ok_def)
  have acc: "ram_accounted s'" using f(3) its fields fm by (cases "fast_mode_of s") (simp_all add: ram_accounted_def)
  have ta: "\<forall>a \<in> set (take k' (fast_queue s')). pm_spill_attempted (sd_items s' a)"
  proof
    fix a assume a: "a \<in> set (take k' (fast_queue s'))"
    have "a \<in> set (take k (fast_queue s)) \<or> a \<in> set (take n (fast_queue s))"
      using a k(2) fields set_take_subset_set_take [of k' "max k n" "fast_queue s"] by (auto simp: max_def split: if_splits)
    with k(5) at show "pm_spill_attempted (sd_items s' a)" by blast
  qed
  have pq: "pqueue py (persistence s') = D @ take k' (ram_messages py s')" using q(2) rm fields by simp
  have ids: "map msg_id D = map (\<lambda>a. pm_id (sd_items s' a)) (front s)" using k(3) its by simp
  have pol: "policy_ok py (persistence s')" using policy_ok_fast [OF f(1) m h] fields by simp
  note i = sender_inv_intro [where s = s' and F = "front s" and D = D and k = k' and py = py,
      OF pol idx acc _ _ _ F ram pq _ ids ta]
  have "sender_inv py s'" "messages py s' = D @ ram_messages py s'" using i f(4-6) fields k(1) by simp_all
  then show "spilled py s s'" using fields fm its rm k(4) by (auto simp: spilled_def intro: exI [of _ 0])
  show "fast_queue s' = fast_queue s" by (rule fields)
qed

text \<open>After a success the batch is on disk and no longer in RAM.\<close>

definition released :: "nat list \<Rightarrow> outbox \<Rightarrow> sender \<Rightarrow> sender" where
  "released sel ob s =
     s\<lparr>persistence := (persistence s)\<lparr>outbox_of := ob\<rparr>, fast_queue := drop (length sel) (fast_queue s),
       fast_ram_bytes := fast_ram_bytes s - (\<Sum>a\<leftarrow>sel. int (pm_size (sd_items s a))), fast_retry_not_before := 0,
       sd_items := (\<lambda>a. if a \<in> set sel
                       then (sd_items s a)\<lparr>pm_state := DISK_BACKED, pm_spill_attempted := True, pm_encoded := None\<rparr>
                       else sd_items s a)\<rparr>"

lemma release_marked:
  assumes "n \<le> length (fast_queue s)" and "distinct (fast_queue s)"
  defines "sel \<equiv> take n (fast_queue s)"
  shows "\<exists>t. release_each sel ((mark_persisting sel s)\<lparr>persistence := (persistence s)\<lparr>outbox_of := ob\<rparr>\<rparr>) = (Inr (), t)
    \<and> t\<lparr>fast_retry_not_before := 0\<rparr> = released sel ob s"
proof -
  let ?s = "(mark_persisting sel s)\<lparr>persistence := (persistence s)\<lparr>outbox_of := ob\<rparr>\<rparr>"
  have q: "fast_queue ?s = sel @ drop n (fast_queue s)" by (simp add: mark_persisting_def sel_def)
  have d: "distinct sel" using assms(2) by (simp add: sel_def)
  have l: "length sel = n" using assms(1) by (simp add: sel_def)
  have it: "(\<lambda>a. if a \<in> set sel then (sd_items ?s a)\<lparr>pm_state := DISK_BACKED, pm_encoded := None\<rparr> else sd_items ?s a)
      = (\<lambda>a. if a \<in> set sel
             then (sd_items s a)\<lparr>pm_state := DISK_BACKED, pm_spill_attempted := True, pm_encoded := None\<rparr>
             else sd_items s a)"
    by (auto simp: mark_persisting_def fun_eq_iff)
  have sz: "(\<Sum>a\<leftarrow>sel. int (pm_size (sd_items ?s a))) = (\<Sum>a\<leftarrow>sel. int (pm_size (sd_items s a)))"
    by (intro arg_cong [of _ _ sum_list] map_cong) (simp_all add: mark_persisting_def)
  show ?thesis unfolding release_each_run [OF q d] it sz
    by (simp add: released_def l mark_persisting_def)
qed

lemma spill_succeeded:
  assumes inv: "sender_inv py s" and m: "mode (persistence s) = FastMode fm" and h: "healthy py ob"
    and q: "queue py ob = D @ take k' (ram_messages py s)"
    and k: "n \<le> k'" "k' \<le> length (fast_queue s)" "k' \<le> max k n"
      "map msg_id D = map (\<lambda>a. pm_id (sd_items s a)) (front s)" "messages py s = D @ ram_messages py s"
      "\<forall>a \<in> set (take k (fast_queue s)). pm_spill_attempted (sd_items s a)"
    and s': "s' = released (take n (fast_queue s)) ob s"
  shows "spilled py s s'" "fast_queue s' = drop n (fast_queue s)"
proof -
  note f = sender_inv_facts [OF inv]
  let ?sel = "take n (fast_queue s)" and ?rest = "drop n (fast_queue s)"
  have n: "n \<le> length (fast_queue s)" using k(1,2) by simp
  have fields: "sd_pending s' = sd_pending s" "sd_by_id s' = sd_by_id s" "next_item s' = next_item s"
    "fast_queue s' = ?rest" "persistence s' = (persistence s)\<lparr>outbox_of := ob\<rparr>"
    "fast_ram_bytes s' = fast_ram_bytes s - (\<Sum>a\<leftarrow>?sel. int (pm_size (sd_items s a)))"
    using n by (simp_all add: s' released_def)
  have its: "pm_id (sd_items s' a) = pm_id (sd_items s a)" "pm_size (sd_items s' a) = pm_size (sd_items s a)" for a
    by (simp_all add: s' released_def)
  have new: "pm_state (sd_items s' a) = DISK_BACKED \<and> pm_encoded (sd_items s' a) = None" if "a \<in> set ?sel" for a
    using that by (simp add: s' released_def)
  have old: "sd_items s' a = sd_items s a" if "a \<notin> set ?sel" for a
    using that by (simp add: s' released_def)
  have dq: "distinct (fast_queue s)" using f(4,5) by (metis distinct_append)
  then have disj: "set ?sel \<inter> set ?rest = {}" by (rule set_take_disj_set_drop_if_distinct) simp
  have rest: "sd_items s' a = sd_items s a" if "a \<in> set ?rest" for a
    using old disj that by blast
  have rm: "ram_messages py s' = drop n (ram_messages py s)"
    unfolding ram_messages_def fields drop_map using rest by (intro map_cong) simp_all
  have fm: "fast_mode_of s' = fast_mode_of s" by (simp add: fast_mode_of_def fields)
  have ram: "\<forall>a \<in> set (fast_queue s'). ram_ok py (sd_items s' a)"
    using f(8) rest fields in_set_dropD [of _ n "fast_queue s"] by simp
  have F: "\<forall>a \<in> set (front s @ ?sel). pm_state (sd_items s' a) = DISK_BACKED \<and> pm_encoded (sd_items s' a) = None"
    using f(7) new old by (metis Un_iff set_append)
  have idx: "index_ok s'" using f(2) its fields by (simp add: index_ok_def)
  have sum: "(\<Sum>a\<leftarrow>fast_queue s. int (pm_size (sd_items s a)))
      = (\<Sum>a\<leftarrow>?sel. int (pm_size (sd_items s a))) + (\<Sum>a\<leftarrow>?rest. int (pm_size (sd_items s a)))"
    by (metis append_take_drop_id map_append sum_list_append)
  have nonneg: "0 \<le> (\<Sum>a\<leftarrow>?sel. int (pm_size (sd_items s a)))" by (rule sum_list_nonneg) auto
  have bytes: "fast_ram_bytes s' = (\<Sum>a\<leftarrow>fast_queue s'. int (pm_size (sd_items s' a)))"
    using f(3) sum its fields by (simp add: ram_accounted_def)
  have "fast_ram_bytes s' \<le> fast_ram_bytes s" "int (length (fast_queue s')) \<le> int (length (fast_queue s))"
    using nonneg fields by simp_all
  note less = this
  have acc: "ram_accounted s'"
  proof (cases "fast_mode_of s")
    case (Some x)
    with f(3) have "int (length (fast_queue s)) \<le> ram_max_messages x" "fast_ram_bytes s \<le> ram_max_bytes x"
      by (simp_all add: ram_accounted_def)
    with less have "int (length (fast_queue s')) \<le> ram_max_messages x" "fast_ram_bytes s' \<le> ram_max_bytes x"
      by linarith+
    with Some fm bytes show ?thesis by (simp add: ram_accounted_def)
  qed (use m in \<open>simp add: fast_mode_of_def\<close>)
  have ta: "\<forall>a \<in> set (take (k' - n) (fast_queue s')). pm_spill_attempted (sd_items s' a)"
  proof
    fix a assume a: "a \<in> set (take (k' - n) (fast_queue s'))"
    then have r: "a \<in> set ?rest" "k' - n \<noteq> 0" using fields by (auto dest: in_set_takeD)
    then have "k' \<le> k" using k(3) by auto
    have "take (k' - n) (fast_queue s') = drop n (take k' (fast_queue s))" using fields by (simp add: drop_take)
    with a have "a \<in> set (take k' (fast_queue s))" by (auto dest: in_set_dropD)
    then have "a \<in> set (take k (fast_queue s))" by (rule subsetD [OF set_take_subset_set_take [OF \<open>k' \<le> k\<close>]])
    with k(6) rest [OF r(1)] show "pm_spill_attempted (sd_items s' a)" by simp
  qed
  have sp: "take k' M = take n M @ take (k' - n) (drop n M)" for M :: "message_envelope list"
    using k(1) take_add [of n "k' - n" M] by simp
  have pq: "pqueue py (persistence s') = (D @ take n (ram_messages py s)) @ take (k' - n) (ram_messages py s')"
    using q rm fields sp [of "ram_messages py s"] by simp
  have ids: "map msg_id (D @ take n (ram_messages py s)) = map (\<lambda>a. pm_id (sd_items s' a)) (front s @ ?sel)"
    using k(4) its ram_messages_ids [OF f(8)] by (simp flip: take_map)
  have pol: "policy_ok py (persistence s')" using policy_ok_fast [OF f(1) m h] fields by simp
  have pend: "sd_pending s' = (front s @ ?sel) @ fast_queue s'" using f(4) fields by simp
  note i = sender_inv_intro [where s = s' and F = "front s @ ?sel" and D = "D @ take n (ram_messages py s)"
      and k = "k' - n" and py = py, OF pol idx acc pend _ _ F ram pq _ ids ta]
  have "sender_inv py s'" "messages py s' = (D @ take n (ram_messages py s)) @ ram_messages py s'"
    using i f(5,6) fields k(2) by simp_all
  then show "spilled py s s'" using fields fm its rm k(5) by (auto simp: spilled_def)
  show "fast_queue s' = drop n (fast_queue s)" by (rule fields)
qed

text \<open>
  One batch. It returns the number of messages it moved, at least one when there is something to
  move and the caller allows it, or it raises \<^verbatim>\<open>OutboxError\<close> and moves none.
\<close>

lemma spill_fast_batch_run:
  assumes "fast_mode_of s = Some fm" and "fast_queue s \<noteq> []" and "sel \<noteq> []"
    and "select_spill (case eligible of None \<Rightarrow> spill_batch_messages fm | Some n \<Rightarrow> min (spill_batch_messages fm) (int n))
      (spill_batch_bytes fm) (sd_items s) [] 0 (fast_queue s) = Inr sel"
  shows "spill_fast_batch py eligible s =
    (case persist_selected py sel (mark_persisting sel s) of
       (Inl e, s1) \<Rightarrow> (Inl e, mark_ram_only sel s1)
     | (Inr _, s1) \<Rightarrow>
         (case release_each sel s1 of
            (Inl e, t) \<Rightarrow> (Inl e, t)
          | (Inr _, t) \<Rightarrow> (Inr (length sel), t\<lparr>fast_retry_not_before := 0\<rparr>)))"
  using assms by (simp add: spill_fast_batch_def andThen_def Let_def handle_def split: prod.split sum.split)

theorem spill_fast_batch_effect:
  assumes inv: "sender_inv py s" and r: "spill_fast_batch py eligible s = (r, s')"
  shows "spilled py s s'
    \<and> (\<exists>n. r = Inr n \<and> n \<le> length (fast_queue s) \<and> fast_queue s' = drop n (fast_queue s)
         \<and> (fast_mode_of s \<noteq> None \<and> fast_queue s \<noteq> [] \<and> eligible \<noteq> Some 0 \<longrightarrow> 0 < n)
         \<and> (0 < n \<longrightarrow> \<not> data_sync_pending (outbox_of (persistence s')))
         \<and> (secure py (outbox_of (persistence s)) \<longrightarrow> secure py (outbox_of (persistence s')))
       \<or> r = Inl OutboxError \<and> fast_queue s' = fast_queue s)"
proof (cases "fast_mode_of s")
  case None
  with r spilled_refl [OF inv] show ?thesis by (auto simp: spill_fast_batch_def)
next
  case (Some fm)
  then have m: "mode (persistence s) = FastMode fm"
    by (auto simp: fast_mode_of_def split: delivery_mode.splits)
  note f = sender_inv_facts [OF inv]
  show ?thesis
  proof (cases "fast_queue s = []")
    case True
    with Some r spilled_refl [OF inv] show ?thesis by (auto simp: spill_fast_batch_def)
  next
    case ne: False
    let ?mx = "case eligible of None \<Rightarrow> spill_batch_messages fm | Some n \<Rightarrow> min (spill_batch_messages fm) (int n)"
    have "\<forall>a \<in> set (fast_queue s). pm_state (sd_items s a) = RAM_ONLY" using f(8) by (auto simp: ram_ok_def)
    from select_spill_prefix [OF this, of ?mx "spill_batch_bytes fm" "[]" 0] obtain n where
      n: "n \<le> length (fast_queue s)" "select_spill ?mx (spill_batch_bytes fm) (sd_items s) [] 0 (fast_queue s)
        = Inr (take n (fast_queue s))" "0 < ?mx \<longrightarrow> 0 < n" using ne by auto
    have "0 < spill_batch_messages fm"
      using f(1) m by (simp add: policy_ok_def fast_mode_ok_def positive_count_def)
    then have pos: "eligible \<noteq> Some 0 \<longrightarrow> 0 < n" using n(3) by (auto split: option.splits)
    let ?sel = "take n (fast_queue s)"
    show ?thesis
    proof (cases "?sel = []")
      case True
      then have "n = 0" using n(1) ne by simp
      with True Some ne n r have "r = Inr 0" "s' = s" by (auto simp: spill_fast_batch_def andThen_def Let_def)
      with \<open>n = 0\<close> pos spilled_refl [OF inv] show ?thesis by auto
    next
      case False
      from sender_inv_view [OF inv] obtain k D where v: "pqueue py (persistence s) = D @ take k (ram_messages py s)"
        "k \<le> length (fast_queue s)" "map msg_id D = map (\<lambda>a. pm_id (sd_items s a)) (front s)"
        "messages py s = D @ ram_messages py s"
        "\<forall>a \<in> set (take k (fast_queue s)). pm_spill_attempted (sd_items s a)" .
      let ?s1 = "mark_persisting ?sel s"
      obtain r1 s2 where ps: "persist_selected py ?sel ?s1 = (r1, s2)" by (cases "persist_selected py ?sel ?s1")
      have h: "healthy py (outbox_of (persistence ?s1))" using f(1) by (simp add: policy_ok_def mark_persisting_def)
      have q1: "queue py (outbox_of (persistence ?s1)) = D @ take k (ram_messages py s)"
        using v(1) by (simp add: mark_persisting_def)
      have dist: "distinct (map msg_id (D @ ram_messages py s))" using messages_distinct [OF inv] v(4) by simp
      have M: "ram_messages py s = map (\<lambda>a. item_message py (sd_items ?s1 a)) (fast_queue s)"
        by (simp add: ram_messages_def)
      have enc: "\<forall>a \<in> set (fast_queue s). \<exists>b. pm_encoded (sd_items ?s1 a) = Some b
          \<and> decode_message py (WBytes b) = Inr (item_message py (sd_items ?s1 a))
          \<and> encode_message py (item_message py (sd_items ?s1 a)) = Inr b
          \<and> msg_id (item_message py (sd_items ?s1 a)) = pm_id (sd_items ?s1 a)"
        using f(8) by (fastforce elim: ram_okE)
      from persist_selected_effect [OF h q1 dist M enc n(1) ps] obtain ob k' where
        o: "s2 = ?s1\<lparr>persistence := (persistence ?s1)\<lparr>outbox_of := ob\<rparr>\<rparr>" "healthy py ob"
          "queue py ob = D @ take k' (ram_messages py s)" "k \<le> k'" "k' \<le> max k n"
          "r1 = Inr () \<and> n \<le> k' \<and> \<not> data_sync_pending ob
             \<and> (secure py (outbox_of (persistence ?s1)) \<longrightarrow> secure py ob) \<or> r1 = Inl OutboxError" by blast
      have s2: "s2 = ?s1\<lparr>persistence := (persistence s)\<lparr>outbox_of := ob\<rparr>\<rparr>"
        using o(1) by (simp add: mark_persisting_def)
      have k': "k' \<le> length (fast_queue s)" using o(5) v(2) n(1) by simp
      note run = spill_fast_batch_run [OF Some ne False n(2), of py]
      show ?thesis
      proof (cases r1)
        case (Inl x)
        with o(6) have "r1 = Inl OutboxError" by simp
        with r run ps s2 have res: "r = Inl OutboxError"
          "s' = mark_ram_only ?sel (?s1\<lparr>persistence := (persistence s)\<lparr>outbox_of := ob\<rparr>\<rparr>)" by simp_all
        from spill_failed [OF inv m o(2) v(1) o(3) k' o(5) v(3-5) res(2)] res(1) show ?thesis by blast
      next
        case (Inr u)
        with o(6) have ok: "n \<le> k'" "\<not> data_sync_pending ob" "secure py (outbox_of (persistence s)) \<longrightarrow> secure py ob"
          by (simp_all add: mark_persisting_def)
        have dq: "distinct (fast_queue s)" using f(4,5) by (metis distinct_append)
        from release_marked [OF n(1) dq, of ob] obtain t where
          t: "release_each ?sel (?s1\<lparr>persistence := (persistence s)\<lparr>outbox_of := ob\<rparr>\<rparr>) = (Inr (), t)"
          "t\<lparr>fast_retry_not_before := 0\<rparr> = released ?sel ob s" by blast
        have "r = Inr (length ?sel)" "s' = released ?sel ob s" using r run ps s2 Inr t by simp_all
        note res = this
        have ob: "outbox_of (persistence s') = ob" by (simp add: res released_def)
        have len: "r = Inr n" using res(1) n(1) by simp
        note sp = spill_succeeded [OF inv m o(2,3) ok(1) k' o(5) v(3-5) res(2)]
        have "r = Inr n \<and> n \<le> length (fast_queue s) \<and> fast_queue s' = drop n (fast_queue s)
            \<and> (fast_mode_of s \<noteq> None \<and> fast_queue s \<noteq> [] \<and> eligible \<noteq> Some 0 \<longrightarrow> 0 < n)
            \<and> (0 < n \<longrightarrow> \<not> data_sync_pending (outbox_of (persistence s')))
            \<and> (secure py (outbox_of (persistence s)) \<longrightarrow> secure py (outbox_of (persistence s')))"
          unfolding ob using len n(1) sp(2) pos ok(2,3) by blast
        with sp(1) show ?thesis by blast
      qed
    qed
  qed
qed

end
