(* ===== verification/SenderQueue.thy ===== *)
theory SenderQueue
  imports SenderSpill
begin

text \<open>
  The loops that spill, make room and run the maintenance. \<open>orderly py E m\<close>:
  from a state in the invariant, \<open>m\<close> leaves the messages as they are, whether it returns or
  raises, and raises only errors in \<open>E\<close>.
\<close>

section \<open>Operations that leave the messages alone\<close>

definition orderly :: "python \<Rightarrow> (py_error \<Rightarrow> bool) \<Rightarrow> 'a sender_proc \<Rightarrow> bool" where
  "orderly py E m \<longleftrightarrow>
     (\<forall>s r s'. sender_inv py s \<longrightarrow> m s = (r, s') \<longrightarrow> spilled py s s' \<and> (\<forall>e. r = Inl e \<longrightarrow> E e))"

lemma orderlyI:
  "(\<And>s r s'. sender_inv py s \<Longrightarrow> m s = (r, s') \<Longrightarrow> spilled py s s' \<and> (\<forall>e. r = Inl e \<longrightarrow> E e)) \<Longrightarrow> orderly py E m"
  by (simp add: orderly_def)

lemma orderlyD:
  assumes "orderly py E m" and "sender_inv py s" and "m s = (r, s')"
  shows "spilled py s s'" "r = Inl e \<Longrightarrow> E e" "sender_inv py s'"
proof -
  have "spilled py s s' \<and> (\<forall>e. r = Inl e \<longrightarrow> E e)" using assms unfolding orderly_def by blast
  then show "spilled py s s'" "r = Inl e \<Longrightarrow> E e" "sender_inv py s'" by (simp_all add: spilled_def)
qed

named_theorems orderly_intros \<open>operations that leave the messages alone\<close>

lemma orderly_ret [orderly_intros]: "orderly py E (ret x)"
  and orderly_throw: "E e \<Longrightarrow> orderly py E (throw e)"
  by (rule orderlyI, auto intro: spilled_refl)+

lemma orderly_lift: "(\<And>e. r = Inl e \<Longrightarrow> E e) \<Longrightarrow> orderly py E (lift_pure r)"
  by (rule orderlyI) (auto intro: spilled_refl)

lemma orderly_core: "(\<And>s. same_core s (snd (m s)) \<and> (\<forall>e. fst (m s) = Inl e \<longrightarrow> E e)) \<Longrightarrow> orderly py E m"
  using spilled_core by (fastforce simp: orderly_def)

lemma orderly_andThen [orderly_intros]:
  assumes "orderly py E m" and "\<And>x. orderly py E (f x)"
  shows "orderly py E (andThen m f)"
proof (rule orderlyI)
  fix s r s' assume inv: "sender_inv py s" and run: "andThen m f s = (r, s')"
  obtain r1 s1 where m: "m s = (r1, s1)" by (cases "m s")
  note o = orderlyD [OF assms(1) inv m]
  show "spilled py s s' \<and> (\<forall>e. r = Inl e \<longrightarrow> E e)"
  proof (cases r1)
    case (Inl e)
    with run m o show ?thesis by (auto simp: andThen_def)
  next
    case (Inr x)
    with run m have "f x s1 = (r, s')" by (simp add: andThen_def)
    from orderlyD [OF assms(2) o(3) this] spilled_trans [OF o(1)] show ?thesis by blast
  qed
qed

lemma orderly_handle:
  assumes "orderly py E' m" and "\<And>e. E' e \<Longrightarrow> orderly py E (h e)"
  shows "orderly py E (handle m h)"
proof (rule orderlyI)
  fix s r s' assume inv: "sender_inv py s" and run: "handle m h s = (r, s')"
  obtain r1 s1 where m: "m s = (r1, s1)" by (cases "m s")
  note o = orderlyD [OF assms(1) inv m]
  show "spilled py s s' \<and> (\<forall>e. r = Inl e \<longrightarrow> E e)"
  proof (cases r1)
    case (Inl e)
    with run m have "h e s1 = (r, s')" by (simp add: handle_def)
    from orderlyD [OF assms(2) o(3) this] o(2) [OF Inl] spilled_trans [OF o(1)] show ?thesis by blast
  next
    case (Inr x)
    with run m o show ?thesis by (auto simp: handle_def)
  qed
qed

lemma orderly_monotonic [orderly_intros]: "orderly py E monotonic"
proof (rule orderly_core)
  fix s
  obtain r s' where m: "monotonic s = (r, s')" by (cases "monotonic s")
  from same_core_monotonic [OF this] m show "same_core s (snd (monotonic s)) \<and> (\<forall>e. fst (monotonic s) = Inl e \<longrightarrow> E e)"
    by auto
qed

lemma orderly_spill: "E OutboxError \<Longrightarrow> orderly py E (spill_fast_batch py eligible)"
  using spill_fast_batch_effect by (fastforce simp: orderly_def)

section \<open>The loops\<close>

text \<open>Every batch of a loop takes at least one message, so the fuel is never used up.\<close>

lemma spill_progress:
  assumes "sender_inv py s" "fast_mode_of s \<noteq> None" "fast_queue s \<noteq> []" "eligible \<noteq> Some 0"
    and "spill_fast_batch py eligible s = (Inr n, s')"
  shows "0 < n" "length (fast_queue s') < length (fast_queue s)"
proof -
  from spill_fast_batch_effect [OF assms(1,5)] assms(2-4) have
    "0 < n" "n \<le> length (fast_queue s)" "fast_queue s' = drop n (fast_queue s)" by auto
  then show "0 < n" "length (fast_queue s') < length (fast_queue s)" by auto
qed

lemma fast_mode_queue: "sender_inv py s \<Longrightarrow> fast_queue s \<noteq> [] \<Longrightarrow> fast_mode_of s \<noteq> None"
  using sender_inv_facts(3) [of py s] by (cases "fast_mode_of s") (auto simp: ram_accounted_def)

theorem spill_all_effect:
  "sender_inv py s \<Longrightarrow> length (fast_queue s) \<le> fuel \<Longrightarrow> spill_all fuel py s = (r, s') \<Longrightarrow>
    spilled py s s' \<and> (r = Inl OutboxError \<or> r = Inr () \<and> fast_queue s' = []
      \<and> (fast_queue s \<noteq> [] \<longrightarrow> \<not> data_sync_pending (outbox_of (persistence s')))
      \<and> (secure py (outbox_of (persistence s)) \<longrightarrow> secure py (outbox_of (persistence s'))))"
proof (induction fuel arbitrary: s)
  case 0
  then show ?case using spilled_refl by auto
next
  case (Suc fuel)
  show ?case
  proof (cases "fast_queue s = []")
    case True
    with Suc.prems spilled_refl show ?thesis by auto
  next
    case False
    note fm = fast_mode_queue [OF Suc.prems(1) False]
    obtain r1 s1 where b: "spill_fast_batch py None s = (r1, s1)" by (cases "spill_fast_batch py None s")
    note e = spill_fast_batch_effect [OF Suc.prems(1) b]
    show ?thesis
    proof (cases r1)
      case (Inl x)
      with e Suc.prems(3) False b show ?thesis by (auto simp: andThen_def)
    next
      case (Inr n)
      with Suc.prems(3) False b have run: "spill_all fuel py s1 = (r, s')" by (simp add: andThen_def)
      have "sender_inv py s1" using e by (simp add: spilled_def)
      moreover have p: "0 < n" "length (fast_queue s1) < length (fast_queue s)"
        using spill_progress [OF Suc.prems(1) fm False _ b [unfolded Inr]] by simp_all
      ultimately have ih: "spilled py s1 s' \<and> (r = Inl OutboxError \<or> r = Inr () \<and> fast_queue s' = []
          \<and> (fast_queue s1 \<noteq> [] \<longrightarrow> \<not> data_sync_pending (outbox_of (persistence s')))
          \<and> (secure py (outbox_of (persistence s1)) \<longrightarrow> secure py (outbox_of (persistence s'))))"
        using Suc.IH [OF _ _ run] Suc.prems(2) by simp
      have d: "fast_queue s1 = [] \<Longrightarrow> s' = s1" using run by (cases fuel) auto
      have "spilled py s s'" using e ih spilled_trans by blast
      moreover have "r = Inr () \<Longrightarrow> \<not> data_sync_pending (outbox_of (persistence s'))"
        using ih d e Inr p(1) by (cases "fast_queue s1 = []") auto
      ultimately show ?thesis using ih e Inr by auto
    qed
  qed
qed

lemma orderly_spill_unpersisted: "E OutboxError \<Longrightarrow> orderly py E (spill_unpersisted_fast py)"
  using spill_all_effect by (fastforce simp: orderly_def spill_unpersisted_fast_def)

text \<open>Making room: there is room when it returns, and \<^verbatim>\<open>FastQueueFullError\<close> is all it raises.\<close>

definition fast_room :: "fast_mode \<Rightarrow> nat \<Rightarrow> sender \<Rightarrow> bool" where
  "fast_room fm n s \<longleftrightarrow>
     int (length (fast_queue s) + 1) \<le> ram_max_messages fm \<and> fast_ram_bytes s + int n \<le> ram_max_bytes fm"

lemma fast_room_full:
  "\<not> fast_room fm n s \<longleftrightarrow>
    int (length (fast_queue s) + 1) > ram_max_messages fm \<or> fast_ram_bytes s + int n > ram_max_bytes fm"
  by (auto simp: fast_room_def)

lemma make_room_step:
  assumes "spill_fast_batch py None s = (r1, s1)"
  shows "make_room_loop fuel py fm n s =
    (if fast_room fm n s then ret () s
     else if fast_queue s = [] then throw FastQueueFullError s
     else case r1 of
       Inl e \<Rightarrow> (Inl (if e = OutboxError then FastQueueFullError else e), s1)
     | Inr k \<Rightarrow> (if k = 0 then throw FastQueueFullError
               else case fuel of 0 \<Rightarrow> throw RuntimeError | Suc m \<Rightarrow> make_room_loop m py fm n) s1)"
  unfolding make_room_loop.simps [of fuel] fast_room_full [symmetric]
  using assms by (cases r1) (simp_all add: andThen_def handle_def)

lemma make_room_loop_effect:
  "sender_inv py s \<Longrightarrow> fast_mode_of s = Some fm \<Longrightarrow> length (fast_queue s) \<le> fuel \<Longrightarrow>
    make_room_loop fuel py fm n s = (r, s') \<Longrightarrow>
    spilled py s s' \<and> (r = Inr () \<and> fast_room fm n s' \<or> r = Inl FastQueueFullError)"
proof (induction fuel arbitrary: s rule: less_induct)
  case (less fuel)
  obtain r1 s1 where b: "spill_fast_batch py None s = (r1, s1)" by (cases "spill_fast_batch py None s")
  note run = less.prems(4) [unfolded make_room_step [OF b]]
  show ?case
  proof (cases "fast_room fm n s \<or> fast_queue s = []")
    case True
    then have "s' = s" "r = (if fast_room fm n s then Inr () else Inl FastQueueFullError)"
      using run by (auto split: if_splits)
    with spilled_refl [OF less.prems(1)] show ?thesis by auto
  next
    case False
    note e = spill_fast_batch_effect [OF less.prems(1) b]
    show ?thesis
    proof (cases r1)
      case (Inl x)
      with e have "x = OutboxError" by simp
      with Inl run False have "r = Inl FastQueueFullError" "s' = s1" by simp_all
      with e show ?thesis by simp
    next
      case (Inr k)
      have p: "0 < k" "length (fast_queue s1) < length (fast_queue s)"
        using spill_progress [OF less.prems(1) _ _ _ b [unfolded Inr]] less.prems(2) False by auto
      then obtain fuel' where f: "fuel = Suc fuel'" using less.prems(3) by (cases fuel) auto
      have run': "make_room_loop fuel' py fm n s1 = (r, s')" using run Inr False p(1) f by simp
      have i: "sender_inv py s1" "fast_mode_of s1 = Some fm" using e less.prems(2) by (simp_all add: spilled_def)
      have "fuel' < fuel" "length (fast_queue s1) \<le> fuel'" using p less.prems(3) f by simp_all
      from less.IH [OF this(1) i this(2) run'] e spilled_trans show ?thesis by blast
    qed
  qed
qed

lemma make_fast_room_effect:
  assumes "sender_inv py s" and "fast_mode_of s = Some fm" and "make_fast_room py fm n s = (r, s')"
  shows "spilled py s s' \<and> (r = Inr () \<and> fast_room fm n s' \<or> r = Inl FastQueueFullError)"
proof (cases "int n > ram_max_bytes fm")
  case True
  with assms(3) have "r = Inl FastQueueFullError" "s' = s" by (simp_all add: make_fast_room_def)
  with spilled_refl [OF assms(1)] show ?thesis by simp
next
  case False
  with assms(3) have "make_room_loop (length (fast_queue s)) py fm n s = (r, s')" by (simp add: make_fast_room_def)
  from make_room_loop_effect [OF assms(1,2) le_refl this] show ?thesis .
qed

section \<open>The high-water mark and maintenance\<close>

text \<open>\<^verbatim>\<open>OverflowError\<close> comes from limits that are too large for a double.\<close>

definition spill_error :: "py_error \<Rightarrow> bool" where
  "spill_error e \<longleftrightarrow> e = OutboxError \<or> e = OverflowError"

lemma water_mark_error: "water_mark limit w = Inl e \<Longrightarrow> e = OverflowError"
  unfolding water_mark_def Let_def by (simp only: option.case sum.simps split: option.split_asm)

lemma high_water_error: "fast_high_water_reached s = Inl e \<Longrightarrow> e = OverflowError"
  using water_mark_error
  by (auto simp: fast_high_water_reached_def bindE_def split: option.splits if_splits sum.splits)

lemma high_water_queue: "fast_high_water_reached s = Inr True \<Longrightarrow> fast_queue s \<noteq> []"
  by (auto simp: fast_high_water_reached_def split: option.splits if_splits)

text \<open>
  One turn of a loop that spills a batch and goes on with less fuel: \<open>next\<close> is the rest of the loop.
\<close>

lemma spill_turn:
  assumes inv: "sender_inv py s" and fuel: "length (fast_queue s) \<le> fuel" and ne: "fast_queue s \<noteq> []"
    and el: "eligible \<noteq> Some 0" and b: "spill_fast_batch py eligible s = (r1, s1)"
    and ih: "\<And>fuel' s r. fuel' < fuel \<Longrightarrow> sender_inv py s \<Longrightarrow> length (fast_queue s) \<le> fuel' \<Longrightarrow>
      rest fuel' s = (r, s') \<Longrightarrow> spilled py s s' \<and> (\<forall>e. r = Inl e \<longrightarrow> spill_error e)"
    and run: "(case r1 of Inl e \<Rightarrow> (Inl e, s1) | Inr _ \<Rightarrow> (case fuel of 0 \<Rightarrow> throw RuntimeError | Suc n \<Rightarrow> rest n) s1) = (r, s')"
  shows "spilled py s s' \<and> (\<forall>e. r = Inl e \<longrightarrow> spill_error e)"
proof -
  note e = spill_fast_batch_effect [OF inv b]
  show ?thesis
  proof (cases r1)
    case (Inl x)
    with e run show ?thesis by (auto simp: spill_error_def)
  next
    case (Inr k)
    have p: "length (fast_queue s1) < length (fast_queue s)"
      using spill_progress(2) [OF inv fast_mode_queue [OF inv ne] ne el b [unfolded Inr]] .
    then obtain fuel' where f: "fuel = Suc fuel'" using fuel by (cases fuel) auto
    have "rest fuel' s1 = (r, s')" using run Inr f by simp
    moreover have "sender_inv py s1" using e by (simp add: spilled_def)
    moreover have "length (fast_queue s1) \<le> fuel'" using p fuel f by simp
    ultimately have "spilled py s1 s' \<and> (\<forall>e. r = Inl e \<longrightarrow> spill_error e)" using ih f by blast
    with e spilled_trans show ?thesis by blast
  qed
qed

lemma high_water_step:
  assumes "spill_fast_batch py None s = (r1, s1)"
  shows "high_water_loop fuel py s =
    (case fast_high_water_reached s of
       Inl e \<Rightarrow> (Inl e, s)
     | Inr mark \<Rightarrow>
         if \<not> mark then (Inr (), s)
         else case r1 of
           Inl e \<Rightarrow> (Inl e, s1)
         | Inr k \<Rightarrow> (if k = 0 then ret ()
                   else case fuel of 0 \<Rightarrow> throw RuntimeError | Suc n \<Rightarrow> high_water_loop n py) s1)"
  using assms unfolding high_water_loop.simps [of fuel]
  by (cases r1) (simp_all add: andThen_def split: sum.split)

lemma pressure_step:
  assumes "spill_fast_batch py None s = (r1, s1)"
  shows "pressure_loop fuel py s =
    (case fast_high_water_reached s of
       Inl e \<Rightarrow> (Inl e, s)
     | Inr mark \<Rightarrow>
         if \<not> mark then (Inr (), s)
         else case r1 of
           Inl e \<Rightarrow> (Inl e, s1)
         | Inr _ \<Rightarrow> (case fuel of 0 \<Rightarrow> throw RuntimeError | Suc n \<Rightarrow> pressure_loop n py) s1)"
  using assms unfolding pressure_loop.simps [of fuel]
  by (cases r1) (simp_all add: andThen_def split: sum.split)

lemma aged_step:
  assumes "spill_fast_batch py (Some (old_enough t age s)) s = (r1, s1)"
  shows "aged_loop fuel py age t s =
    (if fast_queue s = [] \<or> old_enough t age s = 0 then (Inr (), s)
     else case r1 of
       Inl e \<Rightarrow> (Inl e, s1)
     | Inr _ \<Rightarrow> (case fuel of 0 \<Rightarrow> throw RuntimeError | Suc n \<Rightarrow> aged_loop n py age t) s1)"
  using assms unfolding aged_loop.simps [of fuel]
  by (cases r1) (simp_all add: andThen_def)

lemma mark_loop_effect:
  assumes step: "\<And>fuel s r1 s1. spill_fast_batch py None s = (r1, s1) \<Longrightarrow> loop fuel s =
    (case fast_high_water_reached s of
       Inl e \<Rightarrow> (Inl e, s)
     | Inr mark \<Rightarrow>
         if \<not> mark then (Inr (), s)
         else case r1 of
           Inl e \<Rightarrow> (Inl e, s1)
         | Inr k \<Rightarrow> (if stops k then ret () else case fuel of 0 \<Rightarrow> throw RuntimeError | Suc n \<Rightarrow> loop n) s1)"
    and "\<And>k. stops k \<Longrightarrow> k = 0"
  shows "sender_inv py s \<Longrightarrow> length (fast_queue s) \<le> fuel \<Longrightarrow> loop fuel s = (r, s') \<Longrightarrow>
    spilled py s s' \<and> (\<forall>e. r = Inl e \<longrightarrow> spill_error e)"
proof (induction fuel arbitrary: s r rule: less_induct)
  case (less fuel)
  obtain r1 s1 where b: "spill_fast_batch py None s = (r1, s1)" by (cases "spill_fast_batch py None s")
  note run = less.prems(3) [unfolded step [OF b]]
  show ?case
  proof (cases "fast_high_water_reached s = Inr True")
    case False
    then have "s' = s \<and> (\<forall>e. r = Inl e \<longrightarrow> fast_high_water_reached s = Inl e)"
      using run by (cases "fast_high_water_reached s") auto
    with spilled_refl [OF less.prems(1)] high_water_error show ?thesis by (auto simp: spill_error_def)
  next
    case True
    then have ne: "fast_queue s \<noteq> []" by (rule high_water_queue)
    have "r1 = Inr k \<Longrightarrow> \<not> stops k" for k
      using spill_progress(1) [OF less.prems(1) fast_mode_queue [OF less.prems(1) ne] ne] b assms(2) by fastforce
    then have "(case r1 of Inl e \<Rightarrow> (Inl e, s1)
        | Inr _ \<Rightarrow> (case fuel of 0 \<Rightarrow> throw RuntimeError | Suc n \<Rightarrow> loop n) s1) = (r, s')"
      using run True by (cases r1) simp_all
    from spill_turn [OF less.prems(1,2) ne _ b _ this] less.IH show ?thesis by simp
  qed
qed

lemma high_water_loop_effect:
  "sender_inv py s \<Longrightarrow> length (fast_queue s) \<le> fuel \<Longrightarrow> high_water_loop fuel py s = (r, s') \<Longrightarrow>
    spilled py s s' \<and> (\<forall>e. r = Inl e \<longrightarrow> spill_error e)"
  by (rule mark_loop_effect [where loop = "\<lambda>fuel. high_water_loop fuel py" and stops = "\<lambda>k. k = 0"])
    (simp_all add: high_water_step)

lemma pressure_loop_effect:
  "sender_inv py s \<Longrightarrow> length (fast_queue s) \<le> fuel \<Longrightarrow> pressure_loop fuel py s = (r, s') \<Longrightarrow>
    spilled py s s' \<and> (\<forall>e. r = Inl e \<longrightarrow> spill_error e)"
  by (rule mark_loop_effect [where loop = "\<lambda>fuel. pressure_loop fuel py" and stops = "\<lambda>k. False"])
    (simp_all add: pressure_step)

lemma aged_loop_effect:
  "sender_inv py s \<Longrightarrow> length (fast_queue s) \<le> fuel \<Longrightarrow> aged_loop fuel py age t s = (r, s') \<Longrightarrow>
    spilled py s s' \<and> (\<forall>e. r = Inl e \<longrightarrow> spill_error e)"
proof (induction fuel arbitrary: s r rule: less_induct)
  case (less fuel)
  let ?el = "Some (old_enough t age s)"
  obtain r1 s1 where b: "spill_fast_batch py ?el s = (r1, s1)" by (cases "spill_fast_batch py ?el s")
  note run = less.prems(3) [unfolded aged_step [OF b]]
  show ?case
  proof (cases "fast_queue s = [] \<or> old_enough t age s = 0")
    case True
    then have "s' = s" "r = Inr ()" using run by simp_all
    with spilled_refl [OF less.prems(1)] show ?thesis by simp
  next
    case False
    then have ne: "fast_queue s \<noteq> []" and el: "?el \<noteq> Some 0" by auto
    have "(case r1 of Inl e \<Rightarrow> (Inl e, s1)
        | Inr _ \<Rightarrow> (case fuel of 0 \<Rightarrow> throw RuntimeError | Suc n \<Rightarrow> aged_loop n py age t) s1) = (r, s')"
      using run False by simp
    from spill_turn [OF less.prems(1,2) ne el b _ this] less.IH show ?thesis by simp
  qed
qed

abbreviation overflow :: "py_error \<Rightarrow> bool" where
  "overflow e \<equiv> e = OverflowError"

lemma orderly_high_water_loop: "orderly py spill_error (\<lambda>s. high_water_loop (length (fast_queue s)) py s)"
  and orderly_pressure_loop: "orderly py spill_error (\<lambda>s. pressure_loop (length (fast_queue s)) py s)"
  and orderly_aged_loop: "orderly py spill_error (\<lambda>s. aged_loop (length (fast_queue s)) py age t s)"
  using high_water_loop_effect pressure_loop_effect aged_loop_effect by (fastforce simp: orderly_def)+

text \<open>An \<^verbatim>\<open>OutboxError\<close> is absorbed, and the next attempt is put off.\<close>

lemma orderly_core_step: "(\<And>s. same_core s (f s)) \<Longrightarrow> orderly py E (\<lambda>s. (Inr x, f s))"
  by (rule orderly_core) simp

lemma orderly_pair: "orderly py E (Pair (Inr x))" "E e \<Longrightarrow> orderly py E (Pair (Inl e))"
  by (rule orderlyI, auto intro: spilled_refl)+

lemma orderly_at: "(\<And>s. orderly py E (m s)) \<Longrightarrow> orderly py E (\<lambda>s. m s s)"
  unfolding orderly_def by blast

lemma orderly_high_water: "orderly py overflow (spill_fast_high_water py)"
proof -
  have "orderly py overflow (if e \<noteq> OutboxError then throw e
      else andThen monotonic (\<lambda>t s1. ret () (s1\<lparr>fast_retry_not_before := t + retry_interval_units s1\<rparr>)))"
    if "spill_error e" for e
    using that
    by (auto simp: spill_error_def intro!: orderly_throw orderly_andThen orderly_monotonic orderly_core_step)
  from orderly_handle [OF orderly_high_water_loop this] show ?thesis
    by (simp add: spill_fast_high_water_def orderly_def handle_def)
qed

lemma orderly_if:
  "orderly py E m \<Longrightarrow> orderly py E m' \<Longrightarrow> orderly py E (\<lambda>s. if P s then m s else m' s)"
  by (simp add: orderly_def)

lemma orderly_maintenance_spills: "orderly py spill_error (maintenance_spills py fm t)"
proof -
  let ?aged = "\<lambda>s. case max_ram_age fm of None \<Rightarrow> ret () s | Some age \<Rightarrow> aged_loop (length (fast_queue s)) py age t s"
  have "orderly py spill_error ?aged"
    by (cases "max_ram_age fm") (simp_all add: orderly_aged_loop orderly_pair)
  then have "orderly py spill_error (andThen ?aged (\<lambda>_ s. pressure_loop (length (fast_queue s)) py s))"
    by (rule orderly_andThen) (rule orderly_pressure_loop)
  moreover have "orderly py spill_error (spill_unpersisted_fast py)"
    by (rule orderly_spill_unpersisted) (simp add: spill_error_def)
  ultimately have "orderly py spill_error (\<lambda>s. if grace_over fm t s then spill_unpersisted_fast py s
      else andThen ?aged (\<lambda>_ s. pressure_loop (length (fast_queue s)) py s) s)"
    by (intro orderly_if)
  moreover have "maintenance_spills py fm t = (\<lambda>s. if grace_over fm t s then spill_unpersisted_fast py s
      else andThen ?aged (\<lambda>_ s. pressure_loop (length (fast_queue s)) py s) s)"
    by (rule ext) (cases "max_ram_age fm"; simp add: maintenance_spills_def andThen_def)
  ultimately show ?thesis by simp
qed

lemma orderly_run_maintenance: "orderly py overflow (run_fast_maintenance py)"
proof -
  let ?h = "\<lambda>t e s2. if e \<noteq> OutboxError then throw e s2
      else ret () (s2\<lparr>fast_retry_not_before := t + retry_interval_units s2\<rparr>)"
  let ?fin = "\<lambda>s. ret () (schedule_fast_maintenance s)"
  have h: "orderly py overflow (?h t e)" if "spill_error e" for t e
  proof -
    have "orderly py overflow (?h t OverflowError)" by (simp add: orderly_pair)
    moreover have "orderly py overflow (?h t OutboxError)" by (simp add: orderly_core_step)
    ultimately show ?thesis using that by (cases "e = OutboxError") (simp_all add: spill_error_def)
  qed
  have fin: "orderly py overflow ?fin" by (simp add: orderly_core_step)
  have "orderly py overflow (andThen (handle (maintenance_spills py fm t) (?h t)) (\<lambda>_. ?fin))" for fm t
    by (rule orderly_andThen [OF orderly_handle [OF orderly_maintenance_spills h] fin])
  then have "orderly py overflow (andThen monotonic (\<lambda>t s1. if fast_retry_not_before s1 > t then ?fin s1
      else andThen (handle (maintenance_spills py fm t) (?h t)) (\<lambda>_. ?fin) s1))" for fm
    by (rule orderly_andThen [OF orderly_monotonic orderly_if [OF fin]])
  from orderly_if [OF fin this] have rest: "orderly py overflow (\<lambda>s. if fast_queue s = [] then ?fin s
      else andThen monotonic (\<lambda>t s1. if fast_retry_not_before s1 > t then ?fin s1
        else andThen (handle (maintenance_spills py fm t) (?h t)) (\<lambda>_. ?fin) s1) s)" for fm .
  show ?thesis
  proof (rule orderlyI)
    fix s r s' assume i: "sender_inv py s" and run: "run_fast_maintenance py s = (r, s')"
    show "spilled py s s' \<and> (\<forall>e. r = Inl e \<longrightarrow> overflow e)"
    proof (cases "fast_mode_of s")
      case None
      with run have "?fin s = (r, s')" by (simp add: run_fast_maintenance_def)
      with orderlyD(1,2) [OF fin i this] show ?thesis by blast
    next
      case (Some fm)
      with run have "(\<lambda>s. if fast_queue s = [] then ?fin s
        else andThen monotonic (\<lambda>t s1. if fast_retry_not_before s1 > t then ?fin s1
        else andThen (handle (maintenance_spills py fm t) (?h t)) (\<lambda>_. ?fin) s1) s) s = (r, s')"
        by (simp only: run_fast_maintenance_def option.case)
      with orderlyD(1,2) [OF rest i this] show ?thesis by blast
    qed
  qed
qed

lemma orderly_maintenance_timer: "orderly py overflow (on_fast_maintenance_timer py g)"
proof -
  let ?s = "\<lambda>s. s\<lparr>fast_timer := None, fast_timer_deadline := None\<rparr>"
  have "same_core s (?s s)" for s by (rule same_core_trans [OF same_core_fields(1) same_core_fields(2)])
  from orderly_andThen [OF orderly_core_step [OF this] orderly_run_maintenance]
  have "orderly py overflow (andThen (\<lambda>s. (Inr (), ?s s)) (\<lambda>_. run_fast_maintenance py))" .
  from orderly_if [OF orderly_pair(1) this]
  have "orderly py overflow (\<lambda>s. if g \<noteq> fast_timer_generation s then (Inr (), s)
      else andThen (\<lambda>s. (Inr (), ?s s)) (\<lambda>_. run_fast_maintenance py) s)" .
  then show ?thesis by (simp add: on_fast_maintenance_timer_def [abs_def] andThen_def cong: if_cong)
qed

end
