(* ===== verification/SenderPublish.thy ===== *)
theory SenderPublish
  imports SenderQueue
begin

text \<open>
  Publishing: the policy as a queue in every mode, and the effect of a publish on the messages a
  Sender owes. What is accepted joins the end of the queue, what is refused leaves it as it was.
\<close>

section \<open>The policy as a queue in every mode\<close>

lemma queue_layout:
  assumes "healthy py ob" and "outbox_inv py lay ob"
  shows "queue py ob = contents_of lay ob"
  using queue_contents [OF healthy_python [OF assms(1)] assms(2)] .

lemma policy_ok_group: "policy_ok py p \<Longrightarrow> mode p = GroupMode gm \<Longrightarrow> group_inv py gm p"
  by (simp add: policy_ok_def)

lemma group_policy_ok: "group_inv py gm p \<Longrightarrow> policy_ok py p"
  by (auto simp: policy_ok_def group_inv_def healthy_def)

lemma policy_append_queue:
  assumes ok: "policy_ok py p" and v: "valid_message py e" and r: "policy_append py e p = (r, p')"
  shows "policy_ok py p'" "mode p' = mode p"
    "pqueue py p' = pqueue py p @ (if r = Inr True then [canon_message e] else [])"
    "r = Inr False \<Longrightarrow> msg_id e \<in> set (map msg_id (pqueue py p))"
proof -
  have h: "healthy py (outbox_of p)" using ok by (simp add: policy_ok_def)
  then obtain lay where lay: "python_ok py" "outbox_inv py lay (outbox_of p)" by (rule healthyE)
  have "policy_ok py p' \<and> mode p' = mode p
    \<and> pqueue py p' = pqueue py p @ (if r = Inr True then [canon_message e] else [])
    \<and> (r = Inr False \<longrightarrow> msg_id e \<in> set (map msg_id (pqueue py p)))"
  proof (cases "mode p")
    case DurableMode
    with r have "on_outbox (outbox_append py e True) p = (r, p')"
      by (simp add: policy_append_def append_durable_def)
    then obtain ob where ob: "outbox_append py e True (outbox_of p) = (r, ob)" "p' = p\<lparr>outbox_of := ob\<rparr>"
      by (elim on_outbox_cases)
    from outbox_append_effect [OF lay v ob(1)]
    have "r = Inr False \<longrightarrow> msg_id e \<in> set (map msg_id (pqueue py p))"
      using queue_layout [OF h lay(2)] by auto
    with healthy_append [OF h v ob(1)] ob(2) DurableMode show ?thesis by (simp add: policy_ok_def)
  next
    case (GroupMode gm)
    note g = policy_ok_group [OF ok GroupMode]
    from r GroupMode have "append_group py gm e p = (r, p')" by (simp add: policy_append_def)
    from append_group_effect [OF g lay(2) v this]
    have "r = Inr False \<longrightarrow> msg_id e \<in> set (map msg_id (pqueue py p))"
      using queue_layout [OF h lay(2)] by auto
    with group_append_queue [OF g v r] GroupMode group_policy_ok show ?thesis
      by (simp add: group_queue_def group_inv_def)
  next
    case (FastMode fm)
    with r ok show ?thesis by (auto simp: policy_append_def)
  qed
  then show "policy_ok py p'" "mode p' = mode p"
    "pqueue py p' = pqueue py p @ (if r = Inr True then [canon_message e] else [])"
    "r = Inr False \<Longrightarrow> msg_id e \<in> set (map msg_id (pqueue py p))" by blast+
qed

lemma policy_complete_queue:
  assumes ok: "policy_ok py p" and r: "policy_complete py e p = (r, p')"
  shows "policy_ok py p'" "mode p' = mode p"
    "pqueue py p' = (if r = Inr True then tl (pqueue py p) else pqueue py p)"
    "r = Inr True \<Longrightarrow> head_matches py (pqueue py p) e"
proof -
  have h: "healthy py (outbox_of p)" using ok by (simp add: policy_ok_def)
  then obtain lay where lay: "python_ok py" "outbox_inv py lay (outbox_of p)" by (rule healthyE)
  have "policy_ok py p' \<and> mode p' = mode p
    \<and> pqueue py p' = (if r = Inr True then tl (pqueue py p) else pqueue py p)
    \<and> (r = Inr True \<longrightarrow> head_matches py (pqueue py p) e)"
  proof (cases "\<exists>gm. mode p = GroupMode gm")
    case True
    then obtain gm where m: "mode p = GroupMode gm" ..
    note g = policy_ok_group [OF ok m]
    from r m have c: "complete_group py gm e p = (r, p')" by (simp add: policy_complete_def)
    from complete_group_effect [OF g lay(2) c] obtain lay' where
      e: "group_inv py gm p'" "outbox_inv py lay' (outbox_of p')"
        "contents_of lay' (outbox_of p') = (if r = Inr True then tl else id) (contents_of lay (outbox_of p))"
        "r = Inr True \<longrightarrow> head_matches py (contents_of lay (outbox_of p)) e" by blast
    then show ?thesis
      using m group_policy_ok [OF e(1)] queue_contents [OF lay(1)] lay(2) by (simp add: group_inv_def)
  next
    case False
    then have "on_outbox (remove_oldest py e True) p = (r, p')"
      using r by (cases "mode p") (simp_all add: policy_complete_def)
    then obtain ob where ob: "remove_oldest py e True (outbox_of p) = (r, ob)" "p' = p\<lparr>outbox_of := ob\<rparr>"
      by (elim on_outbox_cases)
    note e = healthy_remove_head [OF h ob(1)]
    have "policy_ok py p'" using e ob(2) ok False by (cases "mode p") (simp_all add: policy_ok_def)
    moreover have "pqueue py p' = (if r = Inr True then tl (pqueue py p) else pqueue py p)"
      using e ob(2) by (cases r) auto
    ultimately show ?thesis using e ob(2) by simp
  qed
  then show "policy_ok py p'" "mode p' = mode p"
    "pqueue py p' = (if r = Inr True then tl (pqueue py p) else pqueue py p)"
    "r = Inr True \<Longrightarrow> head_matches py (pqueue py p) e" by blast+
qed

lemma policy_flush_queue:
  assumes ok: "policy_ok py p" and r: "policy_flush py p = (r, p')"
  shows "policy_ok py p'" "mode p' = mode p" "pqueue py p' = pqueue py p"
    "r = Inr () \<or> r = Inl OutboxError"
    "r = Inr () \<Longrightarrow> mode p = GroupMode gm \<Longrightarrow> \<not> data_sync_pending (outbox_of p')"
proof -
  have h: "healthy py (outbox_of p)" using ok by (simp add: policy_ok_def)
  then obtain lay where lay: "python_ok py" "outbox_inv py lay (outbox_of p)" by (rule healthyE)
  have "policy_ok py p' \<and> mode p' = mode p \<and> pqueue py p' = pqueue py p \<and> (r = Inr () \<or> r = Inl OutboxError)
    \<and> (\<forall>gm. r = Inr () \<and> mode p = GroupMode gm \<longrightarrow> \<not> data_sync_pending (outbox_of p'))"
  proof (cases "\<exists>gm. mode p = GroupMode gm")
    case True
    then obtain gm where m: "mode p = GroupMode gm" ..
    from policy_flush_effect [OF policy_ok_group [OF ok m] lay(2) r] obtain lay' where
      e: "group_inv py gm p'" "outbox_inv py lay' (outbox_of p')"
        "contents_of lay' (outbox_of p') = contents_of lay (outbox_of p)"
        "r = Inr () \<or> r = Inl OutboxError" "r = Inr () \<longrightarrow> \<not> data_sync_pending (outbox_of p')" by blast
    then show ?thesis
      using m group_policy_ok [OF e(1)] queue_contents [OF lay(1)] lay(2) by (simp add: group_inv_def)
  next
    case False
    then have "r = Inr () \<and> p' = p" using r by (cases "mode p") (simp_all add: policy_flush_def)
    with ok False show ?thesis by simp
  qed
  then show "policy_ok py p'" "mode p' = mode p" "pqueue py p' = pqueue py p"
    "r = Inr () \<or> r = Inl OutboxError"
    "r = Inr () \<Longrightarrow> mode p = GroupMode gm \<Longrightarrow> \<not> data_sync_pending (outbox_of p')" by blast+
qed

section \<open>Steps of the Sender on its policy\<close>

lemma on_policy_cases:
  "on_policy m s = (r, s') \<Longrightarrow> (\<And>p. m (persistence s) = (r, p) \<Longrightarrow> s' = s\<lparr>persistence := p\<rparr> \<Longrightarrow> P) \<Longrightarrow> P"
  by (auto simp: on_policy_def split: prod.splits)

lemma fast_mode_of_mode: "mode p = mode (persistence s) \<Longrightarrow> fast_mode_of (s\<lparr>persistence := p\<rparr>) = fast_mode_of s"
  by (simp add: fast_mode_of_def)

text \<open>Outside FastMode the queue is what the Outbox holds.\<close>

lemma no_fast_mode:
  assumes "sender_inv py s" and "fast_mode_of s = None"
  shows "fast_queue s = []" "messages py s = pqueue py (persistence s)" "front s = sd_pending s"
proof -
  show q: "fast_queue s = []" using sender_inv_facts(3) [OF assms(1)] assms(2) by (simp add: ram_accounted_def)
  from sender_inv_view [OF assms(1)] obtain k D where
    "pqueue py (persistence s) = D @ take k (ram_messages py s)" "messages py s = D @ ram_messages py s" by metis
  with q show "messages py s = pqueue py (persistence s)" by (simp add: ram_messages_def)
  show "front s = sd_pending s" using sender_inv_facts(4) [OF assms(1)] q by simp
qed

lemma pending_ids_of:
  assumes "sender_inv py s"
  shows "m \<in> set (map msg_id (messages py s)) \<longleftrightarrow> sd_by_id s m \<noteq> None"
  unfolding messages_ids [OF assms] using sender_inv_facts(2) [OF assms] by (force simp: index_ok_def)

lemma sender_inv_persistence:
  assumes inv: "sender_inv py s" and p: "policy_ok py p" "mode p = mode (persistence s)"
    "pqueue py p = pqueue py (persistence s)"
  shows "sender_inv py (s\<lparr>persistence := p\<rparr>)" "messages py (s\<lparr>persistence := p\<rparr>) = messages py s"
proof -
  let ?s = "s\<lparr>persistence := p\<rparr>"
  have r: "ram_messages py ?s = ram_messages py s" and f: "front_count ?s = front_count s" "front ?s = front s"
    by (simp_all add: ram_messages_def front_count_def front_def)
  show "messages py ?s = messages py s" using r f p(3) by (simp add: messages_def)
  have "disk_shape py ?s = disk_shape py s" using r f p(3) by (simp add: disk_shape_def disk_holds_def)
  moreover have "queue_shape py ?s = queue_shape py s" using f by (simp add: queue_shape_def)
  moreover have "ram_accounted ?s = ram_accounted s" using fast_mode_of_mode [OF p(2)]
    by (cases "fast_mode_of s") (simp_all add: ram_accounted_def)
  moreover have "index_ok ?s = index_ok s" by (simp add: index_ok_def)
  ultimately show "sender_inv py ?s" using inv p(1) by (simp add: sender_inv_def)
qed

section \<open>A message joins the queue\<close>

lemma enqueued_shape:
  assumes inv: "sender_inv py s" and new: "sd_by_id s (pm_id x) = None"
    and s': "sd_items s' = (sd_items s)(next_item s := x)" "next_item s' = Suc (next_item s)"
      "sd_pending s' = sd_pending s @ [next_item s]" "sd_by_id s' = (sd_by_id s)(pm_id x \<mapsto> next_item s)"
  shows "index_ok s'" "distinct (sd_pending s')" "\<forall>a \<in> set (sd_pending s'). a < next_item s'"
    "\<forall>a \<in> set (sd_pending s). sd_items s' a = sd_items s a"
proof -
  note f = sender_inv_facts [OF inv]
  have fresh: "next_item s \<notin> set (sd_pending s)" using f(6) by auto
  show same: "\<forall>a \<in> set (sd_pending s). sd_items s' a = sd_items s a" using f(6) s'(1) by auto
  show "distinct (sd_pending s')" using f(5) fresh s'(3) by simp
  show "\<forall>a \<in> set (sd_pending s'). a < next_item s'" using f(6) s'(2,3) by (auto intro: less_SucI)
  show "index_ok s'" unfolding index_ok_def
  proof (intro allI)
    fix m a
    have old: "sd_by_id s m = Some a \<longleftrightarrow> a \<in> set (sd_pending s) \<and> pm_id (sd_items s a) = m"
      using f(2) by (simp add: index_ok_def)
    have "\<not> (a \<in> set (sd_pending s) \<and> pm_id (sd_items s a) = pm_id x)"
      using f(2) new unfolding index_ok_def by (metis option.distinct(1))
    with old same fresh s' show "sd_by_id s' m = Some a \<longleftrightarrow> a \<in> set (sd_pending s') \<and> pm_id (sd_items s' a) = m"
      by (cases "a = next_item s") auto
  qed
qed

lemma enqueue_ram:
  assumes inv: "sender_inv py s" and new: "sd_by_id s (pm_id x) = None" and x: "ram_ok py x"
    and fm: "fast_mode_of s = Some fm" "fast_room fm (pm_size x) s"
    and s': "s' = (enqueue_item x s)\<lparr>fast_queue := fast_queue s @ [next_item s],
      fast_ram_bytes := fast_ram_bytes s + int (pm_size x)\<rparr>"
  shows "sender_inv py s'" "messages py s' = messages py s @ [item_message py x]"
proof -
  note f = sender_inv_facts [OF inv]
  from sender_inv_view [OF inv] obtain k D where v: "pqueue py (persistence s) = D @ take k (ram_messages py s)"
    "k \<le> length (fast_queue s)" "map msg_id D = map (\<lambda>a. pm_id (sd_items s a)) (front s)"
    "messages py s = D @ ram_messages py s"
    "\<forall>a \<in> set (take k (fast_queue s)). pm_spill_attempted (sd_items s a)" .
  have fields: "sd_items s' = (sd_items s)(next_item s := x)" "next_item s' = Suc (next_item s)"
    "sd_pending s' = sd_pending s @ [next_item s]" "sd_by_id s' = (sd_by_id s)(pm_id x \<mapsto> next_item s)"
    "fast_queue s' = fast_queue s @ [next_item s]" "persistence s' = persistence s"
    "fast_ram_bytes s' = fast_ram_bytes s + int (pm_size x)"
    by (simp_all add: s' enqueue_item_def Let_def)
  note e = enqueued_shape [OF inv new fields(1-4)]
  have old: "sd_items s' a = sd_items s a" if "a \<in> set (front s) \<union> set (fast_queue s)" for a
    using e(4) that f(4) by (metis Un_iff set_append)
  have at: "sd_items s' (next_item s) = x" using fields(1) by simp
  have ram: "ram_messages py s' = ram_messages py s @ [item_message py x]"
    using old at fields(5) by (simp add: ram_messages_def)
  have take: "take k (ram_messages py s') = take k (ram_messages py s)" "take k (fast_queue s') = take k (fast_queue s)"
    unfolding ram fields(5) using v(2) by (simp_all add: ram_messages_def)
  have acc: "ram_accounted s'"
  proof -
    have m: "fast_mode_of s' = Some fm" using fm(1) fields(6) by (simp add: fast_mode_of_def)
    have "(\<Sum>a\<leftarrow>fast_queue s. int (pm_size (sd_items s' a))) = (\<Sum>a\<leftarrow>fast_queue s. int (pm_size (sd_items s a)))"
      using old by (intro arg_cong [of _ _ sum_list] map_cong) auto
    with f(3) at fields(5,7) have "fast_ram_bytes s' = (\<Sum>a\<leftarrow>fast_queue s'. int (pm_size (sd_items s' a)))"
      by (simp add: ram_accounted_def)
    with m fm(2) fields(5,7) show ?thesis by (simp add: ram_accounted_def fast_room_def)
  qed
  have pol: "policy_ok py (persistence s')" using f(1) fields(6) by simp
  have pend: "sd_pending s' = front s @ fast_queue s'" using f(4) fields(3,5) by simp
  have F: "\<forall>a \<in> set (front s). pm_state (sd_items s' a) = DISK_BACKED \<and> pm_encoded (sd_items s' a) = None"
    using f(7) old by simp
  have Q: "\<forall>a \<in> set (fast_queue s'). ram_ok py (sd_items s' a)" using f(8) old at x fields(5) by simp
  have pq: "pqueue py (persistence s') = D @ take k (ram_messages py s')" using v(1) take(1) fields(6) by simp
  have kl: "k \<le> length (fast_queue s')" using v(2) fields(5) by simp
  have "map (\<lambda>a. pm_id (sd_items s' a)) (front s) = map (\<lambda>a. pm_id (sd_items s a)) (front s)"
    using old by (intro map_cong) simp_all
  then have ids: "map msg_id D = map (\<lambda>a. pm_id (sd_items s' a)) (front s)" using v(3) by (rule trans [OF _ sym, rotated])
  have ta: "\<forall>a \<in> set (take k (fast_queue s')). pm_spill_attempted (sd_items s' a)"
    using v(5) take(2) old in_set_takeD [of _ k "fast_queue s"] by simp
  note i = sender_inv_intro [OF pol e(1) acc pend e(2,3) F Q pq kl ids ta]
  show "sender_inv py s'" by (rule i(1))
  show "messages py s' = messages py s @ [item_message py x]" using i(2) ram v(4) by simp
qed

lemma enqueue_disk:
  assumes inv: "sender_inv py s" and fm: "fast_mode_of s = None" and new: "sd_by_id s (pm_id x) = None"
    and x: "pm_state x = DISK_BACKED" "pm_encoded x = None"
    and p: "policy_ok py p" "mode p = mode (persistence s)" "pqueue py p = pqueue py (persistence s) @ [e]"
    and id: "msg_id e = pm_id x" and s': "s' = enqueue_item x (s\<lparr>persistence := p\<rparr>)"
  shows "sender_inv py s'" "messages py s' = messages py s @ [e]"
proof -
  note f = sender_inv_facts [OF inv] and nf = no_fast_mode [OF inv fm]
  have fields: "sd_items s' = (sd_items s)(next_item s := x)" "next_item s' = Suc (next_item s)"
    "sd_pending s' = sd_pending s @ [next_item s]" "sd_by_id s' = (sd_by_id s)(pm_id x \<mapsto> next_item s)"
    "fast_queue s' = []" "persistence s' = p" "fast_ram_bytes s' = fast_ram_bytes s"
    using nf(1) by (simp_all add: s' enqueue_item_def Let_def)
  note e = enqueued_shape [OF inv new fields(1-4)]
  have at: "sd_items s' (next_item s) = x" using fields(1) by simp
  have acc: "ram_accounted s'"
    using f(3) fm nf(1) p(2) fields(5-7) by (simp add: ram_accounted_def fast_mode_of_def)
  have F: "\<forall>a \<in> set (sd_pending s'). pm_state (sd_items s' a) = DISK_BACKED \<and> pm_encoded (sd_items s' a) = None"
    using f(7) nf(3) e(4) at x fields(3) by simp
  have "map msg_id (pqueue py (persistence s)) = map (\<lambda>a. pm_id (sd_items s a)) (sd_pending s)"
    using messages_ids [OF inv] nf(2) by simp
  moreover have "map (\<lambda>a. pm_id (sd_items s' a)) (sd_pending s) = map (\<lambda>a. pm_id (sd_items s a)) (sd_pending s)"
    using e(4) by (intro map_cong) simp_all
  ultimately have ids: "map msg_id (pqueue py p) = map (\<lambda>a. pm_id (sd_items s' a)) (sd_pending s')"
    using p(3) id at fields(3) by simp
  have pend: "sd_pending s' = sd_pending s' @ fast_queue s'" using fields(5) by simp
  have pol: "policy_ok py (persistence s')" using p(1) fields(6) by simp
  have Q: "\<forall>a \<in> set (fast_queue s'). ram_ok py (sd_items s' a)" using fields(5) by simp
  have pq: "pqueue py (persistence s') = pqueue py p @ take 0 (ram_messages py s')" using fields(6) by simp
  have ta: "\<forall>a \<in> set (take 0 (fast_queue s')). pm_spill_attempted (sd_items s' a)" by simp
  note i = sender_inv_intro [OF pol e(1) acc pend e(2,3) F Q pq le0 ids ta]
  show "sender_inv py s'" by (rule i(1))
  show "messages py s' = messages py s @ [e]" using i(2) nf(2) p(3) fields(5) by (simp add: ram_messages_def)
qed

section \<open>Reading a message back\<close>

lemma same_core_policy: "policy_quiet (persistence s) p \<Longrightarrow> same_core s (s\<lparr>persistence := p\<rparr>)"
  by (simp add: same_core_def)

lemma policy_quiet_disk: "quiet (disk (outbox_of p)) d \<Longrightarrow> policy_quiet p (p\<lparr>outbox_of := (outbox_of p)\<lparr>disk := d\<rparr>\<rparr>)"
  unfolding policy_quiet_def by (intro exI [of _ d] exI [of _ "now p"] exI [of _ "clock_steps p"]) simp

lemma outbox_messages: "sender_inv py s \<Longrightarrow> e \<in> set (pqueue py (persistence s)) \<Longrightarrow> e \<in> set (messages py s)"
  by (erule sender_inv_view) (auto dest: in_set_takeD)

lemma item_encoded_effect:
  assumes inv: "sender_inv py s" and r: "item_encoded py a s = (r, s')"
  shows "same_core s s'" "a \<in> set (sd_pending s) \<Longrightarrow> r = Inr b \<Longrightarrow>
    \<exists>e \<in> set (messages py s). msg_id e = pm_id (sd_items s a) \<and> encode_message py e = Inr b"
proof -
  note f = sender_inv_facts [OF inv]
  have "same_core s s' \<and> (a \<in> set (sd_pending s) \<and> r = Inr b \<longrightarrow>
    (\<exists>e \<in> set (messages py s). msg_id e = pm_id (sd_items s a) \<and> encode_message py e = Inr b))"
  proof (cases "pm_encoded (sd_items s a)")
    case (Some c)
    with r have s': "r = Inr c" "s' = s" by (simp_all add: item_encoded_def)
    have "\<exists>e \<in> set (messages py s). msg_id e = pm_id (sd_items s a) \<and> encode_message py e = Inr c"
      if "a \<in> set (sd_pending s)"
    proof -
      have q: "a \<in> set (fast_queue s)" using that f(4,7) Some by (metis Un_iff option.distinct(1) set_append)
      then have "ram_ok py (sd_items s a)" using f(8) by simp
      then have "encode_message py (item_message py (sd_items s a)) = Inr c"
        "msg_id (item_message py (sd_items s a)) = pm_id (sd_items s a)" using Some by (auto elim!: ram_okE)
      moreover have "item_message py (sd_items s a) \<in> set (messages py s)"
        using q by (simp add: messages_def ram_messages_def)
      ultimately show ?thesis by blast
    qed
    with s' show ?thesis by auto
  next
    case None
    let ?i = "pm_id (sd_items s a)"
    obtain r1 p where g: "on_outbox (outbox_get py ?i) (persistence s) = (r1, p)"
      by (cases "on_outbox (outbox_get py ?i) (persistence s)")
    then obtain ob where ob: "outbox_get py ?i (outbox_of (persistence s)) = (r1, ob)"
      "p = (persistence s)\<lparr>outbox_of := ob\<rparr>" by (elim on_outbox_cases)
    have h: "healthy py (outbox_of (persistence s))" using f(1) by (simp add: policy_ok_def)
    note e = healthy_get [OF h ob(1)]
    then obtain d where "quiet (disk (outbox_of (persistence s))) d"
      "p = (persistence s)\<lparr>outbox_of := (outbox_of (persistence s))\<lparr>disk := d\<rparr>\<rparr>" using ob(2) by auto
    then have q: "policy_quiet (persistence s) p" using policy_quiet_disk by simp
    have s': "s' = s\<lparr>persistence := p\<rparr>"
      "r = (case r1 of Inl x \<Rightarrow> Inl x | Inr None \<Rightarrow> Inl OutboxError | Inr (Some v) \<Rightarrow> encode_message py v)"
      using r None g by (auto simp: item_encoded_def andThen_def on_policy_def split: sum.splits option.splits)
    have "\<exists>v. r1 = Inr (Some v) \<and> encode_message py v = Inr b" if "r = Inr b"
      using that s'(2) by (auto split: sum.splits option.splits)
    then have "r = Inr b \<Longrightarrow> \<exists>v \<in> set (pqueue py (persistence s)). msg_id v = ?i \<and> encode_message py v = Inr b"
      using e by fastforce
    with s'(1) same_core_policy [OF q] outbox_messages [OF inv] show ?thesis by auto
  qed
  then show "same_core s s'" "a \<in> set (sd_pending s) \<Longrightarrow> r = Inr b \<Longrightarrow>
    \<exists>e \<in> set (messages py s). msg_id e = pm_id (sd_items s a) \<and> encode_message py e = Inr b" by blast+
qed

lemma encode_same_id:
  assumes "python_ok py" "valid_message py e" "encode_message py e = Inr b" "decode_message py (WBytes b) = Inr e'"
  shows "msg_id e' = msg_id e"
  using decode_encode_message [OF assms(1-3)] assms(4) by simp

lemma messages_valid:
  assumes "sender_inv py s" and "e \<in> set (messages py s)"
  shows "valid_message py e"
proof -
  note f = sender_inv_facts [OF assms(1)]
  have h: "healthy py (outbox_of (persistence s))" using f(1) by (simp add: policy_ok_def)
  show ?thesis
  proof (cases "e \<in> set (ram_messages py s)")
    case True
    then obtain a where "a \<in> set (fast_queue s)" "e = item_message py (sd_items s a)" by (auto simp: ram_messages_def)
    with f(8) show ?thesis by (auto elim!: ram_okE)
  next
    case False
    then have "e \<in> set (pqueue py (persistence s))" using assms(2) by (auto simp: messages_def dest: in_set_takeD)
    with queue_items(1) [OF h] show ?thesis by blast
  qed
qed

lemma item_envelope_effect:
  assumes inv: "sender_inv py s" and r: "item_envelope py a s = (r, s')"
  shows "same_core s s'" "a \<in> set (sd_pending s) \<Longrightarrow> r = Inr v \<Longrightarrow> msg_id v = pm_id (sd_items s a)"
proof -
  obtain r1 s1 where g: "item_encoded py a s = (r1, s1)" by (cases "item_encoded py a s")
  note e = item_encoded_effect [OF inv g]
  have s': "s' = s1" "r = (case r1 of Inl x \<Rightarrow> Inl x | Inr b \<Rightarrow> decode_message py (WBytes b))"
    using r g by (auto simp: item_envelope_def andThen_def split: sum.splits)
  show "same_core s s'" using e(1) s'(1) by simp
  assume a: "a \<in> set (sd_pending s)" and v: "r = Inr v"
  then obtain b where b: "r1 = Inr b" "decode_message py (WBytes b) = Inr v"
    using s'(2) by (auto split: sum.splits)
  from e(2) [OF a b(1)] obtain m where m: "m \<in> set (messages py s)" "msg_id m = pm_id (sd_items s a)"
    "encode_message py m = Inr b" by blast
  have "healthy py (outbox_of (persistence s))" using inv by (simp add: sender_inv_def policy_ok_def)
  from encode_same_id [OF healthy_python [OF this] messages_valid [OF inv m(1)] m(3) b(2)] m(2)
  show "msg_id v = pm_id (sd_items s a)" by simp
qed

section \<open>Publishing\<close>

text \<open>What \<^verbatim>\<open>publish\<close> has made of its arguments: an envelope and its encoding.\<close>

definition prepared :: "python \<Rightarrow> message_envelope \<Rightarrow> bytes \<Rightarrow> bool" where
  "prepared py envelope encoded \<longleftrightarrow>
     decode_message py (WBytes encoded) = Inr envelope \<and> encode_message py envelope = Inr encoded"

lemma prepared_valid: "prepared py e b \<Longrightarrow> valid_message py e"
  using decode_message_valid unfolding prepared_def by blast

lemma prepared_canon: "prepared py e b \<Longrightarrow> python_ok py \<Longrightarrow> canon_message e = e"
  using decode_encode_message [of py e b] prepared_valid [of py e b] by (simp add: prepared_def)

lemma MessageEnvelope_valid:
  "MessageEnvelope py t p i v = Inr e \<Longrightarrow> dict_ok p \<Longrightarrow> valid_message py e"
  by (auto simp: valid_message_def MessageEnvelope_def bindE_Inr validate_publish_topic_def
      validate_message_id_def validate_version_def split: pyval.splits if_splits option.splits)

text \<open>The payload is a Python value: no dictionary in it has a key twice.\<close>

lemma prepare_publish_prepared:
  assumes py: "python_ok py" and d: "dict_ok payload"
    and r: "prepare_publish py uuid topic payload mid eid = Inr (e, b)"
  shows "prepared py e b"
proof -
  from r obtain x c where init: "message_envelope_init py uuid topic payload x None None = Inr c"
    and c: "encode_message py c = Inr b" "decode_message py (WBytes b) = Inr e"
    by (auto simp: prepare_publish_def bindE_Inr)
  have v: "valid_message py c"
    using init MessageEnvelope_valid [OF _ d] by (auto simp: message_envelope_init_def bindE_Inr)
  have "e = canon_message c" using decode_encode_message [OF py v c(1)] c(2) by simp
  then show ?thesis using c encode_canon_message [OF c(1)] by (simp add: prepared_def)
qed

lemma publish_fast_effect:
  assumes inv: "sender_inv py s" and new: "sd_by_id s (msg_id e) = None" and fm: "fast_mode_of s = Some fm"
    and e: "prepared py e b" and r: "publish_fast py fm e b s = (r, s')"
  shows "sender_inv py s' \<and>
    (r = Inl FastQueueFullError \<and> messages py s' = messages py s
     \<or> (r = Inr () \<or> r = Inl OverflowError) \<and> messages py s' = messages py s @ [e])"
proof -
  obtain r1 s1 where m1: "make_fast_room py fm (length b) s = (r1, s1)" by (cases "make_fast_room py fm (length b) s")
  from make_fast_room_effect [OF inv fm m1] have sp: "spilled py s s1"
    and room: "r1 = Inr () \<and> fast_room fm (length b) s1 \<or> r1 = Inl FastQueueFullError" by blast+
  show ?thesis
  proof (cases r1)
    case (Inl x)
    with r m1 room have "r = Inl FastQueueFullError" "s' = s1" by (auto simp: publish_fast_def andThen_def)
    with sp show ?thesis by (simp add: spilled_def)
  next
    case (Inr u)
    obtain r2 s2 where m2: "monotonic s1 = (r2, s2)" by (cases "monotonic s1")
    from same_core_monotonic [OF m2] obtain t where t: "same_core s1 s2" "r2 = Inr t" by blast
    let ?x = "\<lparr>pm_id = msg_id e, pm_encoded = Some b, pm_size = length b, pm_enqueued_at = t,
      pm_state = RAM_ONLY, pm_spill_attempted = False\<rparr>"
    let ?s3 = "(enqueue_item ?x s2)\<lparr>fast_queue := fast_queue s2 @ [next_item s2],
      fast_ram_bytes := fast_ram_bytes s2 + int (pm_size ?x)\<rparr>"
    obtain r4 s4 where m4: "spill_fast_high_water py ?s3 = (r4, s4)" by (cases "spill_fast_high_water py ?s3")
    have fin: "r = r4" "s' = (case r4 of Inl _ \<Rightarrow> s4 | Inr _ \<Rightarrow> schedule_fast_maintenance s4)"
      using r m1 m2 m4 Inr t(2)
      by (auto simp: publish_fast_def andThen_def Let_def enqueue_item_def split: sum.splits)
    have inv1: "sender_inv py s1" using sp by (simp add: spilled_def)
    note c2 = same_core_inv [OF inv1 t(1)]
    have x: "ram_ok py ?x" "item_message py ?x = e" using e by (simp_all add: ram_ok_def item_message_def prepared_def)
    have "sd_by_id s2 (pm_id ?x) = None" using new sp t(1) by (simp add: spilled_def same_core_def)
    moreover have "fast_mode_of s2 = Some fm" using c2(3) sp fm by (simp add: spilled_def)
    moreover have "fast_room fm (pm_size ?x) s2" using room Inr t(1) by (simp add: fast_room_def same_core_def)
    ultimately have e3: "sender_inv py ?s3" "messages py ?s3 = messages py s2 @ [e]"
      using enqueue_ram [OF c2(1) _ x(1) _ _ refl] x(2) by auto
    note o = orderlyD [OF orderly_high_water e3(1) m4]
    have i4: "sender_inv py s4" "messages py s4 = messages py s @ [e]"
      using o(1) e3(2) c2(2) sp by (simp_all add: spilled_def)
    have "sender_inv py s' \<and> messages py s' = messages py s @ [e]"
      using i4 same_core_inv [OF i4(1) same_core_schedule] fin(2) by (cases r4) simp_all
    moreover have "r = Inr () \<or> r = Inl OverflowError" using o(2) fin(1) by (cases r4) auto
    ultimately show ?thesis by blast
  qed
qed

lemma publish_persistent_effect:
  assumes inv: "sender_inv py s" and new: "sd_by_id s (msg_id e) = None" and fm: "fast_mode_of s = None"
    and e: "prepared py e b" and r: "publish_persistent py e b s = (r, s')"
  shows "sender_inv py s' \<and>
    (r = Inr () \<and> messages py s' = messages py s @ [e] \<or> (\<exists>x. r = Inl x) \<and> messages py s' = messages py s)"
proof -
  note f = sender_inv_facts [OF inv] and nf = no_fast_mode [OF inv fm]
  have py: "python_ok py" using f(1) healthy_python by (auto simp: policy_ok_def)
  obtain r1 p where a: "policy_append py e (persistence s) = (r1, p)" by (cases "policy_append py e (persistence s)")
  note q = policy_append_queue [OF f(1) prepared_valid [OF e] a]
  have notold: "r1 \<noteq> Inr False"
  proof
    assume "r1 = Inr False"
    with q(4) have "msg_id e \<in> set (map msg_id (messages py s))" using nf(2) by simp
    with new pending_ids_of [OF inv] show False by simp
  qed
  have run: "on_policy (policy_append py e) s = (r1, s\<lparr>persistence := p\<rparr>)" using a by (simp add: on_policy_def)
  show ?thesis
  proof (cases "r1 = Inr True")
    case False
    then obtain x where x: "r1 = Inl x" using notold by (cases r1) auto
    with r run have "r = Inl x" "s' = s\<lparr>persistence := p\<rparr>" by (auto simp: publish_persistent_def andThen_def)
    with sender_inv_persistence [OF inv q(1,2)] q(3) x show ?thesis by simp
  next
    case True
    obtain t p2 where c: "read_clock p = (t, p2)" by (cases "read_clock p")
    let ?x = "\<lparr>pm_id = msg_id e, pm_encoded = None, pm_size = length b, pm_enqueued_at = t,
      pm_state = DISK_BACKED, pm_spill_attempted = False\<rparr>"
    have s': "r = Inr ()" "s' = enqueue_item ?x (s\<lparr>persistence := p2\<rparr>)"
      using r run True c by (auto simp: publish_persistent_def andThen_def monotonic_def)
    note k = policy_quiet_ok [OF q(1) policy_quiet_clock [OF c]]
    have "pqueue py p2 = pqueue py (persistence s) @ [e]" using k(2) q(3) True prepared_canon [OF e py] by simp
    with enqueue_disk [OF inv fm _ _ _ k(1) _ _ _ s'(2)] new k(3) q(2) s'(1) show ?thesis by simp
  qed
qed

text \<open>
  A publish that returns has either found the same message pending or appended it; one that
  raises has left the queue alone, but for \<^verbatim>\<open>OverflowError\<close>.
\<close>

definition publish_outcome ::
  "python \<Rightarrow> sender \<Rightarrow> message_envelope \<Rightarrow> bytes \<Rightarrow> py_error + unit \<Rightarrow> sender \<Rightarrow> bool" where
  "publish_outcome py s e b r s' \<longleftrightarrow>
     sender_inv py s'
     \<and> (case r of
          Inr _ \<Rightarrow> messages py s' = messages py s @ [e] \<and> msg_id e \<notin> set (map msg_id (messages py s))
            \<or> messages py s' = messages py s
              \<and> (\<exists>m \<in> set (messages py s). msg_id m = msg_id e \<and> encode_message py m = Inr b)
        | Inl x \<Rightarrow> messages py s' = messages py s \<or> x = OverflowError \<and> messages py s' = messages py s @ [e])"

lemma publish_locked_effect:
  assumes inv: "sender_inv py s" and e: "prepared py e b" and r: "publish_locked py e b s = (r, s')"
  shows "publish_outcome py s e b r s'"
proof (cases "sd_by_id s (msg_id e)")
  case None
  have new: "msg_id e \<notin> set (map msg_id (messages py s))" using pending_ids_of [OF inv] None by simp
  show ?thesis
  proof (cases "fast_mode_of s")
    case fm: None
    then have "publish_persistent py e b s = (r, s')" using r None by (simp add: publish_locked_def)
    from publish_persistent_effect [OF inv None fm e this] new show ?thesis by (auto simp: publish_outcome_def)
  next
    case (Some fm)
    then have "publish_fast py fm e b s = (r, s')" using r None by (simp add: publish_locked_def)
    from publish_fast_effect [OF inv None Some e this] new show ?thesis by (auto simp: publish_outcome_def)
  qed
next
  case (Some a)
  obtain r1 s1 where g: "item_encoded py a s = (r1, s1)" by (cases "item_encoded py a s")
  note i = item_encoded_effect [OF inv g]
  have a: "a \<in> set (sd_pending s)" "pm_id (sd_items s a) = msg_id e"
    using sender_inv_facts(2) [OF inv] Some by (auto simp: index_ok_def)
  have s': "s' = s1" "r = Inr () \<Longrightarrow> r1 = Inr b"
    using r Some g by (auto simp: publish_locked_def andThen_def split: sum.splits if_splits)
  note c = same_core_inv [OF inv i(1)]
  show ?thesis
  proof (cases r)
    case (Inl x)
    with c s'(1) show ?thesis by (simp add: publish_outcome_def)
  next
    case (Inr u)
    with i(2) [OF a(1)] s'(2) a(2) c s'(1) show ?thesis by (auto simp: publish_outcome_def)
  qed
qed

end
