(* ===== verification/SenderComplete.thy ===== *)
theory SenderComplete
  imports SenderPublish
begin

text \<open>
  Completing the oldest message, shutting down and starting anew: \<^verbatim>\<open>DELIVERED\<close> removes exactly
  the oldest message, every other end of an attempt leaves the queue as it was, and a shutdown
  that returns has everything on disk.
\<close>

section \<open>The oldest message leaves the queue\<close>

lemma dequeued_shape:
  assumes inv: "sender_inv py s" and p: "sd_pending s = a # P"
    and s': "sd_items s' = sd_items s" "next_item s' = next_item s" "sd_pending s' = P"
      "sd_by_id s' = (sd_by_id s)(pm_id (sd_items s a) := None)"
  shows "index_ok s'" "distinct (sd_pending s')" "\<forall>x \<in> set (sd_pending s'). x < next_item s'"
proof -
  note f = sender_inv_facts [OF inv]
  show "distinct (sd_pending s')" "\<forall>x \<in> set (sd_pending s'). x < next_item s'" using f(5,6) p s' by auto
  have inj: "x = a" if "x \<in> set (sd_pending s)" "pm_id (sd_items s x) = pm_id (sd_items s a)" for x
    using inj_onD [OF index_ok_inj [OF f(2)] that(2) that(1)] p by simp
  show "index_ok s'" unfolding index_ok_def
  proof (intro allI)
    fix m x
    have old: "sd_by_id s m = Some x \<longleftrightarrow> x \<in> set (sd_pending s) \<and> pm_id (sd_items s x) = m"
      using f(2) by (simp add: index_ok_def)
    have "a \<notin> set P" using f(5) p by simp
    with old inj p s' show "sd_by_id s' m = Some x \<longleftrightarrow> x \<in> set (sd_pending s') \<and> pm_id (sd_items s' x) = m"
      by auto
  qed
qed

lemma dequeue_disk:
  assumes inv: "sender_inv py s" and p: "sd_pending s = a # P" and disk: "persisted s a"
    and q: "policy_ok py p" "mode p = mode (persistence s)" "pqueue py p = tl (pqueue py (persistence s))"
    and s': "s' = s\<lparr>persistence := p, sd_pending := P, sd_by_id := (sd_by_id s)(pm_id (sd_items s a) := None)\<rparr>"
  shows "sender_inv py s'" "messages py s' = tl (messages py s)" "pqueue py (persistence s) \<noteq> []"
    "hd (messages py s) = hd (pqueue py (persistence s))"
proof -
  note f = sender_inv_facts [OF inv]
  from sender_inv_view [OF inv] obtain k D where v: "pqueue py (persistence s) = D @ take k (ram_messages py s)"
    "k \<le> length (fast_queue s)" "map msg_id D = map (\<lambda>a. pm_id (sd_items s a)) (front s)"
    "messages py s = D @ ram_messages py s"
    "\<forall>a \<in> set (take k (fast_queue s)). pm_spill_attempted (sd_items s a)" .
  have fields: "sd_items s' = sd_items s" "next_item s' = next_item s" "sd_pending s' = P"
    "sd_by_id s' = (sd_by_id s)(pm_id (sd_items s a) := None)" "fast_queue s' = fast_queue s"
    "persistence s' = p" "fast_ram_bytes s' = fast_ram_bytes s" by (simp_all add: s')
  have "a \<notin> set (fast_queue s)" using f(8) disk by (auto simp: ram_ok_def persisted_def)
  then have "front s \<noteq> []" using f(4) p by (metis append_Nil list.set_intros(1))
  then obtain F where F: "front s = a # F" using f(4) p by (cases "front s") auto
  then have P: "P = F @ fast_queue s" using f(4) p by simp
  from v(3) F obtain d D' where D: "D = d # D'" "map msg_id D' = map (\<lambda>a. pm_id (sd_items s a)) F"
    by (cases D) auto
  show "pqueue py (persistence s) \<noteq> []" "hd (messages py s) = hd (pqueue py (persistence s))"
    using v(1,4) D(1) by simp_all
  note e = dequeued_shape [OF inv p fields(1-4)]
  have ram: "ram_messages py s' = ram_messages py s" using fields by (simp add: ram_messages_def)
  have m: "fast_mode_of s' = fast_mode_of s" using q(2) fields(6) by (simp add: fast_mode_of_def)
  have acc: "ram_accounted s'"
    using f(3) m fields by (cases "fast_mode_of s") (simp_all add: ram_accounted_def)
  have pol: "policy_ok py (persistence s')" using q(1) fields(6) by simp
  have pend: "sd_pending s' = F @ fast_queue s'" using P fields by simp
  have disk': "\<forall>a \<in> set F. pm_state (sd_items s' a) = DISK_BACKED \<and> pm_encoded (sd_items s' a) = None"
    using f(7) F fields by simp
  have Q: "\<forall>a \<in> set (fast_queue s'). ram_ok py (sd_items s' a)" using f(8) fields by simp
  have pq: "pqueue py (persistence s') = D' @ take k (ram_messages py s')" using q(3) v(1) D(1) ram fields(6) by simp
  have rest: "k \<le> length (fast_queue s')" "map msg_id D' = map (\<lambda>a. pm_id (sd_items s' a)) F"
    "\<forall>a \<in> set (take k (fast_queue s')). pm_spill_attempted (sd_items s' a)" using v(2,5) D(2) fields by simp_all
  note i = sender_inv_intro [OF pol e(1) acc pend e(2,3) disk' Q pq rest]
  show "sender_inv py s'" by (rule i(1))
  show "messages py s' = tl (messages py s)" using i(2) ram v(4) D(1) by simp
qed

lemma dequeue_ram:
  assumes inv: "sender_inv py s" and p: "sd_pending s = a # P" and ram: "\<not> persisted s a"
    and fresh: "\<not> pm_spill_attempted (sd_items s a)"
    and s': "s' = s\<lparr>fast_queue := tl (fast_queue s), fast_ram_bytes := fast_ram_bytes s - int (pm_size (sd_items s a)),
      sd_pending := P, sd_by_id := (sd_by_id s)(pm_id (sd_items s a) := None)\<rparr>"
  shows "sender_inv py s'" "messages py s' = tl (messages py s)" "fast_queue s = a # P"
proof -
  note f = sender_inv_facts [OF inv]
  from sender_inv_view [OF inv] obtain k D where v: "pqueue py (persistence s) = D @ take k (ram_messages py s)"
    "k \<le> length (fast_queue s)" "map msg_id D = map (\<lambda>a. pm_id (sd_items s a)) (front s)"
    "messages py s = D @ ram_messages py s"
    "\<forall>a \<in> set (take k (fast_queue s)). pm_spill_attempted (sd_items s a)" .
  have F: "front s = []" using f(4,7) p ram by (cases "front s") (auto simp: persisted_def)
  with f(4) p show Q: "fast_queue s = a # P" by simp
  have k: "k = 0" using v(5) fresh Q by (cases k) auto
  have D: "D = []" using v(3) F by simp
  have fields: "sd_items s' = sd_items s" "next_item s' = next_item s" "sd_pending s' = P"
    "sd_by_id s' = (sd_by_id s)(pm_id (sd_items s a) := None)" "fast_queue s' = P" "persistence s' = persistence s"
    "fast_ram_bytes s' = fast_ram_bytes s - int (pm_size (sd_items s a))" using Q by (simp_all add: s')
  note e = dequeued_shape [OF inv p fields(1-4)]
  have m: "fast_mode_of s' = fast_mode_of s" using fields(6) by (simp add: fast_mode_of_def)
  have acc: "ram_accounted s'"
    using f(3) m fields Q by (cases "fast_mode_of s") (simp_all add: ram_accounted_def)
  have pol: "policy_ok py (persistence s')" using f(1) fields(6) by simp
  have pend: "sd_pending s' = [] @ fast_queue s'" using fields by simp
  have R: "\<forall>a \<in> set (fast_queue s'). ram_ok py (sd_items s' a)" using f(8) fields Q by simp
  have pq: "pqueue py (persistence s') = [] @ take 0 (ram_messages py s')" using v(1) D k fields(6) by simp
  note i = sender_inv_intro [OF pol e(1) acc pend e(2,3) _ R pq le0]
  show "sender_inv py s'" by (rule i(1)) simp_all
  have "messages py s' = ram_messages py s'" using i(2) by simp
  then show "messages py s' = tl (messages py s)" using v(4) D fields Q by (simp add: ram_messages_def)
qed

section \<open>Completing\<close>

text \<open>Before a message in RAM may be dropped, a spill of it that may have reached the disk is settled.\<close>

definition settled_item :: "sender \<Rightarrow> nat \<Rightarrow> bool" where
  "settled_item s a \<longleftrightarrow> persisted s a \<or> \<not> pm_spill_attempted (sd_items s a)"

lemma settle_effect:
  assumes inv: "sender_inv py s" and a: "a \<in> set (sd_pending s)" and hd: "hd (sd_pending s) = a"
    and r: "settle_uncertain_spill py a s = (r, s')"
  shows "spilled py s s'" "r = Inr True \<Longrightarrow> settled_item s' a" "r = Inr True \<or> r = Inr False"
proof -
  have "spilled py s s' \<and> (r = Inr True \<longrightarrow> settled_item s' a) \<and> (r = Inr True \<or> r = Inr False)"
  proof (cases "\<not> persisted s a \<and> pm_spill_attempted (sd_items s a)")
    case False
    with r have "r = Inr True" "s' = s" by (auto simp: settle_uncertain_spill_def)
    with False spilled_refl [OF inv] show ?thesis by (auto simp: settled_item_def)
  next
    case True
    note f = sender_inv_facts [OF inv]
    have fr: "front s = []" using f(4,7) a hd True by (cases "front s") (auto simp: persisted_def)
    then have q: "fast_queue s \<noteq> []" "hd (fast_queue s) = a" "sd_pending s = fast_queue s" using f(4) a hd by auto
    obtain r1 s1 where b: "spill_fast_batch py None s = (r1, s1)" by (cases "spill_fast_batch py None s")
    note e = spill_fast_batch_effect [OF inv b]
    have res: "s' = s1" "r = (case r1 of Inl x \<Rightarrow> (if x = OutboxError then Inr False else Inl x) | Inr _ \<Rightarrow> Inr True)"
      using r b True by (auto simp: settle_uncertain_spill_def outbox_failure_is_false_def handle_def andThen_def
          split: sum.splits if_splits)
    show ?thesis
    proof (cases r1)
      case (Inl x)
      with e res show ?thesis by auto
    next
      case (Inr n)
      have n: "0 < n" using spill_progress(1) [OF inv fast_mode_queue [OF inv q(1)] q(1) _ b [unfolded Inr]] by simp
      have q': "fast_queue s1 = drop n (fast_queue s)" using e Inr by auto
      have "fast_queue s = a # tl (fast_queue s)" using q(1,2) by (cases "fast_queue s") auto
      moreover have "distinct (fast_queue s)" using f(5) q(3) by simp
      ultimately have "a \<notin> set (fast_queue s1)" using n q'
        by (metis distinct.simps(2) drop_Suc_Cons gr0_implies_Suc in_set_dropD)
      moreover have i1: "sender_inv py s1" "sd_pending s1 = sd_pending s" using e by (simp_all add: spilled_def)
      ultimately have "a \<in> set (front s1)" using sender_inv_facts(4) [OF i1(1)] a by (metis Un_iff set_append)
      then have "persisted s1 a" using sender_inv_facts(7) [OF i1(1)] by (simp add: persisted_def)
      with e res Inr show ?thesis by (simp add: settled_item_def)
    qed
  qed
  then show "spilled py s s'" "r = Inr True \<Longrightarrow> settled_item s' a" "r = Inr True \<or> r = Inr False" by blast+
qed

lemma same_core_forget:
  "same_core (s\<lparr>sd_pending := tl (sd_pending s), sd_by_id := (sd_by_id s)(m := None)\<rparr>) (forget_oldest m s)"
  unfolding forget_oldest_def Let_def by (rule same_core_trans [OF same_core_schedule same_core_fields(16)])

lemma discharge_effect:
  assumes inv: "sender_inv py s" and p: "sd_pending s = a # P" and st: "settled_item s a"
    and id: "msg_id e = pm_id (sd_items s a)" and r: "discharge_item py a e s = (r, s')"
  shows "r = Inr True \<Longrightarrow> sender_inv py (forget_oldest (msg_id e) s')
      \<and> messages py (forget_oldest (msg_id e) s') = tl (messages py s)"
    "r \<noteq> Inr True \<Longrightarrow> sender_inv py s' \<and> messages py s' = messages py s"
proof -
  note f = sender_inv_facts [OF inv]
  let ?t = "s'\<lparr>sd_pending := tl (sd_pending s'), sd_by_id := (sd_by_id s')(msg_id e := None)\<rparr>"
  have "(r = Inr True \<longrightarrow> sender_inv py ?t \<and> messages py ?t = tl (messages py s))
    \<and> (r \<noteq> Inr True \<longrightarrow> sender_inv py s' \<and> messages py s' = messages py s)"
  proof (cases "persisted s a")
    case True
    obtain r1 q where c: "policy_complete py e (persistence s) = (r1, q)" by (cases "policy_complete py e (persistence s)")
    have s': "s' = s\<lparr>persistence := q\<rparr>"
      "r = (case r1 of Inl x \<Rightarrow> if x = OutboxError then Inr False else Inl x | Inr b \<Rightarrow> Inr b)"
      using r True c by (auto simp: discharge_item_def outbox_failure_is_false_def handle_def on_policy_def
          split: sum.splits if_splits)
    note k = policy_complete_queue [OF f(1) c]
    show ?thesis
    proof (cases "r1 = Inr True")
      case True
      have "?t = s\<lparr>persistence := q, sd_pending := P, sd_by_id := (sd_by_id s)(pm_id (sd_items s a) := None)\<rparr>"
        using s'(1) p id by simp
      from dequeue_disk(1,2) [OF inv p \<open>persisted s a\<close> k(1,2) _ this] k(3) True s'(2) show ?thesis by simp
    next
      case False
      then have "r \<noteq> Inr True" using s'(2) by (cases r1) auto
      with sender_inv_persistence [OF inv k(1,2)] k(3) False s'(1) show ?thesis by simp
    qed
  next
    case False
    have fresh: "\<not> pm_spill_attempted (sd_items s a)" using st False by (simp add: settled_item_def)
    note q = dequeue_ram [OF inv p False fresh refl]
    have s': "r = Inr True" "s' = s\<lparr>fast_queue := tl (fast_queue s),
        fast_ram_bytes := fast_ram_bytes s - int (pm_size (sd_items s a))\<rparr>"
      using r False q(3) by (auto simp: discharge_item_def)
    then have "?t = s\<lparr>fast_queue := tl (fast_queue s), fast_ram_bytes := fast_ram_bytes s - int (pm_size (sd_items s a)),
        sd_pending := P, sd_by_id := (sd_by_id s)(pm_id (sd_items s a) := None)\<rparr>" using p id by simp
    with q(1,2) s'(1) show ?thesis by simp
  qed
  then show "r = Inr True \<Longrightarrow> sender_inv py (forget_oldest (msg_id e) s')
      \<and> messages py (forget_oldest (msg_id e) s') = tl (messages py s)"
    "r \<noteq> Inr True \<Longrightarrow> sender_inv py s' \<and> messages py s' = messages py s"
    using same_core_inv [OF _ same_core_forget] by (metis, metis)
qed

lemma complete_item_effect:
  assumes inv: "sender_inv py s" and r: "complete_item py a s = (r, s')"
  shows "sender_inv py s' \<and>
    (if r = Inr DELIVERED
     then sd_pending s \<noteq> [] \<and> hd (sd_pending s) = a \<and> messages py s' = tl (messages py s)
     else messages py s' = messages py s)"
proof -
  obtain r1 s1 where g: "item_envelope py a s = (r1, s1)" by (cases "item_envelope py a s")
  note i = item_envelope_effect [OF inv g]
  note c = same_core_inv [OF inv i(1)]
  have pend: "sd_pending s1 = sd_pending s" "sd_items s1 = sd_items s" using i(1) by (simp_all add: same_core_def)
  show ?thesis
  proof (cases "(\<exists>x. r1 = Inl x) \<or> stop_event s1 \<or> sd_pending s1 = [] \<or> hd (sd_pending s1) \<noteq> a")
    case True
    then have "s' = s1" "r \<noteq> Inr DELIVERED"
      using r g by (auto simp: complete_item_def andThen_def split: sum.splits if_splits)
    with c show ?thesis by simp
  next
    case False
    then obtain e where e: "r1 = Inr e" by (cases r1) auto
    from False have a: "a \<in> set (sd_pending s1)" "hd (sd_pending s1) = a" by auto
    have oldest: "sd_pending s \<noteq> []" "hd (sd_pending s) = a" using False pend by simp_all
    obtain r2 s2 where st: "settle_uncertain_spill py a s1 = (r2, s2)" by (cases "settle_uncertain_spill py a s1")
    note t = settle_effect [OF c(1) a st]
    have inv2: "sender_inv py s2" and m2: "messages py s2 = messages py s"
      and p2: "sd_pending s2 = sd_pending s1" "pm_id (sd_items s2 a) = pm_id (sd_items s1 a)"
      using t(1) c(2) by (simp_all add: spilled_def)
    have "sd_pending s2 \<noteq> []" "hd (sd_pending s2) = a" using False p2(1) by simp_all
    then have P: "sd_pending s2 = a # tl (sd_pending s2)" using list.collapse by metis
    have id: "msg_id e = pm_id (sd_items s2 a)" using i(2) [OF _ e] a(1) pend p2(2) by simp
    show ?thesis
    proof (cases "r2 = Inr True")
      case False
      with t(3) have "r2 = Inr False" by auto
      with r g e st \<open>\<not> ((\<exists>x. r1 = Inl x) \<or> _)\<close> have "r = Inr STORE_ERROR" "s' = s2"
        by (auto simp: complete_item_def andThen_def)
      with inv2 m2 show ?thesis by simp
    next
      case settled: True
      obtain r3 s3 where d: "discharge_item py a e s2 = (r3, s3)" by (cases "discharge_item py a e s2")
      note k = discharge_effect [OF inv2 P t(2) [OF settled] id d]
      have res: "s' = (if r3 = Inr True then forget_oldest (msg_id e) s3 else s3)"
        "r = (case r3 of Inl x \<Rightarrow> Inl x | Inr b \<Rightarrow> Inr (if b then DELIVERED else STORE_ERROR))"
        using r g e st settled d \<open>\<not> ((\<exists>x. r1 = Inl x) \<or> _)\<close>
        by (auto simp: complete_item_def andThen_def split: sum.splits)
      show ?thesis
      proof (cases "r3 = Inr True")
        case True
        with k(1) res m2 oldest show ?thesis by simp
      next
        case False
        then have "r \<noteq> Inr DELIVERED" using res(2) by (cases r3) auto
        with k(2) [OF False] res m2 False show ?thesis by simp
      qed
    qed
  qed
qed

section \<open>Shutting down\<close>

text \<open>What a shutdown that returns leaves: nothing in RAM, and every message on disk.\<close>

lemma all_on_disk:
  assumes "sender_inv py s" and "fast_queue s = []"
  shows "messages py s = pqueue py (persistence s)"
proof -
  from sender_inv_view [OF assms(1)] obtain k D where
    "pqueue py (persistence s) = D @ take k (ram_messages py s)" "messages py s = D @ ram_messages py s" by metis
  with assms(2) show ?thesis by (simp add: ram_messages_def)
qed

lemma persist_at_shutdown_effect:
  assumes inv: "sender_inv py s" and r: "persist_at_shutdown py s = (r, s')"
  shows "sender_inv py s' \<and> messages py s' = messages py s \<and> (r = Inr () \<or> r = Inl OutboxError)
    \<and> (r = Inr () \<longrightarrow> pqueue py (persistence s') = messages py s)"
proof -
  let ?s = "(cancel_fast_timer s)\<lparr>disconnected_since := None\<rparr>"
  have c: "same_core s ?s" by (rule same_core_trans [OF same_core_cancel same_core_fields(4)])
  note ci = same_core_inv [OF inv c]
  obtain r1 s1 where u: "spill_unpersisted_fast py ?s = (r1, s1)" by (cases "spill_unpersisted_fast py ?s")
  then have "spill_all (length (fast_queue ?s)) py ?s = (r1, s1)" by (simp add: spill_unpersisted_fast_def)
  from spill_all_effect [OF ci(1) le_refl this] have sp: "spilled py ?s s1"
    and r1: "r1 = Inl OutboxError \<or> r1 = Inr () \<and> fast_queue s1 = []" by blast+
  have inv1: "sender_inv py s1" "messages py s1 = messages py s" using sp ci(2) by (simp_all add: spilled_def)
  obtain r2 p where fl: "policy_flush py (persistence s1) = (r2, p)" by (cases "policy_flush py (persistence s1)")
  have ok: "policy_ok py (persistence s1)" using inv1(1) by (simp add: sender_inv_def)
  note q = policy_flush_queue [OF ok fl]
  have s': "s' = s1\<lparr>persistence := p\<rparr>" "r = (if r1 = Inr () then r2 else r1)"
    using r u r1 fl q(4) by (auto simp: persist_at_shutdown_def on_policy_def)
  note i = sender_inv_persistence [OF inv1(1) q(1-3)]
  have "messages py s' = pqueue py (persistence s')" if "r = Inr ()"
    using all_on_disk [of py s'] i(1) s' r1 that by (auto split: if_splits)
  with i inv1(2) s' r1 q(4) show ?thesis by auto
qed

section \<open>A new Sender\<close>

lemma recovered_view:
  fixes ids :: "pystr list"
  assumes "distinct ids"
  shows "map_of (zip ids [0..<length ids]) m = Some a \<longleftrightarrow> a < length ids \<and> ids ! a = m"
  using assms by (auto simp: in_set_zip dest: map_of_SomeD intro!: map_of_is_SomeI)

lemma new_sender_effect:
  assumes ok: "policy_ok py p"
  shows "sender_inv py (new_sender config p)" "messages py (new_sender config p) = pqueue py p"
proof -
  let ?s = "new_sender config p" and ?q = "pqueue py p"
  have h: "healthy py (outbox_of p)" using ok by (simp add: policy_ok_def)
  then obtain lay where lay: "outbox_inv py lay (outbox_of p)" by (rule healthyE)
  have ids: "pending_ids (outbox_of p) = map msg_id ?q"
    using contents_pending [OF lay] queue_layout [OF h lay] by (simp add: pending_ids_def)
  have fields: "sd_pending ?s = [0..<length ?q]" "fast_queue ?s = []" "next_item ?s = length ?q" "persistence ?s = p"
    "fast_ram_bytes ?s = 0" "sd_by_id ?s = map_of (zip (map msg_id ?q) [0..<length ?q])"
    "\<And>a. a < length ?q \<Longrightarrow> sd_items ?s a = recovered_item (now p) (msg_id (?q ! a))"
    by (simp_all add: new_sender_def Let_def ids)
  have idx: "index_ok ?s" unfolding index_ok_def
  proof (intro allI)
    fix m a
    have "sd_by_id ?s m = Some a \<longleftrightarrow> a < length ?q \<and> msg_id (?q ! a) = m"
      using recovered_view [OF queue_distinct [OF h], of m a] fields(6) by (auto simp: nth_map)
    then show "sd_by_id ?s m = Some a \<longleftrightarrow> a \<in> set (sd_pending ?s) \<and> pm_id (sd_items ?s a) = m"
      using fields(1,7) by (auto simp: recovered_item_def)
  qed
  have acc: "ram_accounted ?s" 
  proof (cases "fast_mode_of ?s")
    case (Some fm)
    then have "fast_mode_ok fm" using ok fields(4) by (auto simp: fast_mode_of_def policy_ok_def split: delivery_mode.splits)
    with Some fields show ?thesis by (simp add: ram_accounted_def fast_mode_ok_def positive_count_def)
  qed (simp add: ram_accounted_def fields)
  have F: "\<forall>a \<in> set (sd_pending ?s). pm_state (sd_items ?s a) = DISK_BACKED \<and> pm_encoded (sd_items ?s a) = None"
    using fields(1,7) by (simp add: recovered_item_def)
  have D: "map msg_id ?q = map (\<lambda>a. pm_id (sd_items ?s a)) (sd_pending ?s)"
    using fields(1,7) by (intro nth_equalityI) (simp_all add: recovered_item_def)
  have pend: "sd_pending ?s = sd_pending ?s @ fast_queue ?s" "distinct (sd_pending ?s)"
    "\<forall>a \<in> set (sd_pending ?s). a < next_item ?s" using fields(1-3) by simp_all
  have pol: "policy_ok py (persistence ?s)" and Q: "\<forall>a \<in> set (fast_queue ?s). ram_ok py (sd_items ?s a)"
    and pq: "pqueue py (persistence ?s) = ?q @ take 0 (ram_messages py ?s)" using ok fields by simp_all
  note i = sender_inv_intro [OF pol idx acc pend F Q pq le0 D]
  show "sender_inv py ?s" by (rule i(1)) simp
  show "messages py ?s = ?q" using i(2) fields(2) by (simp add: ram_messages_def)
qed

end
