(* ===== verification/SenderFrame.thy ===== *)
theory SenderFrame
  imports SenderPublish
begin

text \<open>
  What publishing and spilling leave alone: the AckTracker and the ids of the items that exist. So
  the expectation of an attempt, and the item it is for, stay the same while other threads publish.
\<close>

definition tracks :: "sender \<Rightarrow> sender \<Rightarrow> bool" where
  "tracks t s \<longleftrightarrow> sd_tracker s = sd_tracker t \<and> next_item t \<le> next_item s
     \<and> (\<forall>a < next_item t. pm_id (sd_items s a) = pm_id (sd_items t a))"

lemma keeps_at: "(\<And>s. keeps I (m s)) \<Longrightarrow> keeps I (\<lambda>s. m s s)"
  by (simp add: keeps_def)

lemma keeps_cond [keeps_intros]: "keeps I m \<Longrightarrow> keeps I m' \<Longrightarrow> keeps I (\<lambda>s. if P s then m s else m' s)"
  by (simp add: keeps_def)

lemma keeps_choice [keeps_intros]: "keeps I m \<Longrightarrow> keeps I m' \<Longrightarrow> keeps I (if c then m else m')"
  by simp

lemma keeps_option: "(c = None \<Longrightarrow> keeps I m) \<Longrightarrow> (\<And>x. c = Some x \<Longrightarrow> keeps I (f x)) \<Longrightarrow>
    keeps I (case c of None \<Rightarrow> m | Some x \<Rightarrow> f x)"
  by (cases c) simp_all

lemma keeps_handle [keeps_intros]: "keeps I m \<Longrightarrow> (\<And>e. keeps I (h e)) \<Longrightarrow> keeps I (handle m h)"
  by (fastforce simp: keeps_def handle_def split: prod.splits sum.splits)

lemma keeps_pair: "(\<And>s. I s \<Longrightarrow> I (f s)) \<Longrightarrow> keeps I (\<lambda>s. (r, f s))"
  by (simp add: keeps_def)

lemma keepsD': "keeps I m \<Longrightarrow> I s \<Longrightarrow> I (snd (m s))"
  by (simp add: keeps_def)

lemma tracks_refl: "tracks s s"
  by (simp add: tracks_def)

lemma tracks_simps [simp]:
  "tracks t (s\<lparr>persistence := p\<rparr>) = tracks t s"
  "tracks t (s\<lparr>fast_queue := q\<rparr>) = tracks t s" "tracks t (s\<lparr>fast_ram_bytes := b\<rparr>) = tracks t s"
  "tracks t (s\<lparr>fast_retry_not_before := r\<rparr>) = tracks t s"
  "tracks t (mark_persisting sel s) = tracks t s" "tracks t (mark_ram_only sel s) = tracks t s"
  "tracks t (cancel_fast_timer s) = tracks t s"
  by (simp_all add: tracks_def mark_persisting_def mark_ram_only_def cancel_fast_timer_def Let_def)

lemma tracks_enqueue: "tracks t s \<Longrightarrow> tracks t (enqueue_item x s)"
  by (auto simp: tracks_def enqueue_item_def Let_def)

lemma tracks_schedule [simp]: "tracks t (schedule_fast_maintenance s) = tracks t s"
  by (auto simp: tracks_def schedule_fast_maintenance_def Let_def cancel_fast_timer_def
      split: option.splits list.splits prod.splits)

lemma keeps_on_policy [keeps_intros]: "keeps (tracks t) (on_policy m)"
  by (simp add: keeps_def on_policy_def split: prod.split)

lemma keeps_monotonic [keeps_intros]: "keeps (tracks t) monotonic"
  by (simp add: keeps_def monotonic_def split: prod.split)

lemma keeps_item_encoded [keeps_intros]: "keeps (tracks t) (item_encoded py a)"
proof -
  have "keeps (tracks t) (andThen (on_policy m) (\<lambda>envelope.
      case envelope of None \<Rightarrow> throw OutboxError | Some e \<Rightarrow> lift_pure (encode_message py e)))" for m
    by (intro keeps_intros keeps_option)
  then show ?thesis unfolding item_encoded_def [abs_def]
    by (intro keepsI) (auto simp: keeps_def split: option.split)
qed

lemma keeps_item_envelope [keeps_intros]: "keeps (tracks t) (item_envelope py a)"
  unfolding item_envelope_def by (intro keeps_intros)

lemma keeps_envelopes [keeps_intros]: "keeps (tracks t) (envelopes_of py sel)"
proof (induction sel)
  case Nil
  show ?case by (simp add: keeps_def)
next
  case (Cons a sel)
  then show ?case unfolding envelopes_of.simps by (intro keeps_intros)
qed

lemma keeps_verify [keeps_intros]: "keeps (tracks t) (verify_stored py sel)"
proof (induction sel)
  case Nil
  show ?case by (simp add: keeps_def)
next
  case (Cons a sel)
  have "keeps (tracks t) (\<lambda>s. on_policy (on_outbox (outbox_get py (pm_id (sd_items s a)))) s)"
    by (rule keeps_at) (rule keeps_on_policy)
  then show ?case unfolding verify_stored.simps
    by (rule keeps_andThen)
      (intro keeps_andThen keeps_option keeps_throw keeps_lift_pure keeps_item_encoded keeps_choice Cons)
qed

lemma keeps_persist_selected [keeps_intros]: "keeps (tracks t) (persist_selected py sel)"
  unfolding persist_selected_def
  by (intro keeps_andThen keeps_envelopes keeps_on_policy keeps_choice keeps_verify keeps_ret)

lemma tracks_release: "tracks t s \<Longrightarrow> tracks t (snd (release_each sel s))"
proof (induction sel arbitrary: s)
  case (Cons a sel)
  have "tracks t (s\<lparr>fast_queue := q, fast_ram_bytes := n,
      sd_items := (sd_items s)(a := (sd_items s a)\<lparr>pm_state := DISK_BACKED, pm_encoded := None\<rparr>)\<rparr>)" for q n
    using Cons.prems by (simp add: tracks_def)
  with Cons show ?case by (cases "fast_queue s") simp_all
qed simp

lemma keeps_spill [keeps_intros]: "keeps (tracks t) (spill_fast_batch py eligible)"
proof -
  have release: "keeps (tracks t) (release_each sel)" for sel by (rule keepsI) (rule tracks_release)
  have persist: "keeps (tracks t) (\<lambda>s0. handle (persist_selected py sel)
      (\<lambda>e s1. throw e (mark_ram_only sel s1)) (mark_persisting sel s0))" for sel
  proof (rule keepsI)
    fix s assume s: "tracks t s"
    have "keeps (tracks t) (handle (persist_selected py sel) (\<lambda>e s1. throw e (mark_ram_only sel s1)))"
      by (intro keeps_handle keeps_persist_selected) (simp add: keeps_pair)
    with s show "tracks t (snd (handle (persist_selected py sel) (\<lambda>e s1. throw e (mark_ram_only sel s1)) (mark_persisting sel s)))"
      by (simp add: keeps_def)
  qed
  have final: "keeps (tracks t) (\<lambda>s2. ret n (s2\<lparr>fast_retry_not_before := 0\<rparr>))" for n by (simp add: keeps_pair)
  define rest where "rest = (\<lambda>sel. if sel = [] then ret 0 else andThen (\<lambda>s0. handle (persist_selected py sel)
      (\<lambda>e s1. throw e (mark_ram_only sel s1)) (mark_persisting sel s0)) (\<lambda>_.
       andThen (release_each sel) (\<lambda>_ s2. ret (length sel) (s2\<lparr>fast_retry_not_before := 0\<rparr>))))"
  have rest: "keeps (tracks t) (rest sel)" for sel
    unfolding rest_def by (rule keeps_choice [OF keeps_ret keeps_andThen [OF persist keeps_andThen [OF release final]]])
  note body = keeps_andThen [where f = rest, OF keeps_lift_pure rest]
  show ?thesis
  proof (rule keepsI)
    fix s assume s: "tracks t s"
    have b: "tracks t (snd (andThen (lift_pure r) rest s))" for r using body s by (simp only: keeps_def)
    show "tracks t (snd (spill_fast_batch py eligible s))"
    proof (cases "fast_mode_of s")
      case None
      with s show ?thesis by (simp add: spill_fast_batch_def)
    next
      case (Some fm)
      show ?thesis
      proof (cases "fast_queue s = []")
        case True
        with s Some show ?thesis by (simp add: spill_fast_batch_def)
      next
        case False
        with b Some show ?thesis
          unfolding spill_fast_batch_def Let_def rest_def [symmetric] by (simp only: option.case if_False)
      qed
    qed
  qed
qed

lemma tracks_make_room: "tracks t s \<Longrightarrow> tracks t (snd (make_room_loop fuel py fm n s))"
proof (induction fuel arbitrary: s rule: less_induct)
  case (less fuel)
  obtain r1 s1 where b: "spill_fast_batch py None s = (r1, s1)" by (cases "spill_fast_batch py None s")
  have t: "tracks t s1" using keepsD [OF keeps_spill less.prems b] .
  show ?case unfolding make_room_step [OF b] using less t
    by (cases fuel) (auto split: sum.split)
qed

lemma tracks_high_water: "tracks t s \<Longrightarrow> tracks t (snd (high_water_loop fuel py s))"
proof (induction fuel arbitrary: s rule: less_induct)
  case (less fuel)
  obtain r1 s1 where b: "spill_fast_batch py None s = (r1, s1)" by (cases "spill_fast_batch py None s")
  have t: "tracks t s1" using keepsD [OF keeps_spill less.prems b] .
  show ?case unfolding high_water_step [OF b] using less t
    by (cases fuel) (auto split: sum.split)
qed

lemma keeps_make_room [keeps_intros]: "keeps (tracks t) (make_fast_room py fm n)"
  by (rule keepsI) (simp add: make_fast_room_def tracks_make_room)

lemma keeps_high_water [keeps_intros]: "keeps (tracks t) (spill_fast_high_water py)"
proof -
  have "keeps (tracks t) (\<lambda>s. high_water_loop (length (fast_queue s)) py s)" by (rule keepsI) (rule tracks_high_water)
  moreover have "keeps (tracks t) (if e \<noteq> OutboxError then throw e else andThen monotonic (\<lambda>u s1.
      ret () (s1\<lparr>fast_retry_not_before := u + retry_interval_units s1\<rparr>)))" for e
    by (intro keeps_choice keeps_throw keeps_andThen keeps_monotonic) (simp add: keeps_pair)
  ultimately have "keeps (tracks t) (handle (\<lambda>s. high_water_loop (length (fast_queue s)) py s)
      (\<lambda>e. if e \<noteq> OutboxError then throw e else andThen monotonic (\<lambda>u s1.
        ret () (s1\<lparr>fast_retry_not_before := u + retry_interval_units s1\<rparr>))))" by (rule keeps_handle)
  then show ?thesis by (simp add: spill_fast_high_water_def keeps_def handle_def)
qed

lemma keeps_publish_fast: "keeps (tracks t) (publish_fast py fm e b)"
proof -
  have "keeps (tracks t) (andThen (spill_fast_high_water py) (\<lambda>_ s3. ret () (schedule_fast_maintenance s3)))"
    by (intro keeps_andThen keeps_high_water) (simp add: keeps_pair)
  then show ?thesis unfolding publish_fast_def Let_def
    by (intro keeps_andThen keeps_make_room keeps_monotonic keepsI) (simp add: keeps_def tracks_enqueue)
qed

lemma keeps_publish_persistent: "keeps (tracks t) (publish_persistent py e b)"
proof -
  have "keeps (tracks t) (\<lambda>s. ret () (enqueue_item x s))" for x by (simp add: keeps_pair tracks_enqueue)
  then show ?thesis unfolding publish_persistent_def
    by (intro keeps_andThen keeps_on_policy keeps_choice keeps_ret keeps_option keeps_throw keeps_lift_pure
        keeps_monotonic)
qed

lemma publish_tracks: "tracks s (snd (publish_locked py e b s))"
proof (cases "sd_by_id s (msg_id e)")
  case None
  then show ?thesis
    using keepsD' [OF keeps_publish_fast tracks_refl] keepsD' [OF keeps_publish_persistent tracks_refl]
    by (auto simp: publish_locked_def split: option.split)
next
  case (Some a)
  have "keeps (tracks s) (andThen (item_encoded py a) (\<lambda>b'. if b' \<noteq> b then throw ValueError else ret ()))"
    by (intro keeps_andThen keeps_item_encoded keeps_choice keeps_throw keeps_ret)
  from keepsD' [OF this tracks_refl] Some show ?thesis by (simp add: publish_locked_def)
qed

end
