(* ===== verification/SenderAttempt.thy ===== *)
theory SenderAttempt
  imports SenderComplete SenderFrame
begin

text \<open>
  A whole attempt to deliver, among other threads that publish: it ends with \<^verbatim>\<open>DELIVERED\<close> only after
  a confirmed publish and the DeliveryAck of the oldest message, and then exactly that message is
  gone.
\<close>

section \<open>Steps that only append\<close>

definition appended :: "python \<Rightarrow> sender \<Rightarrow> sender \<Rightarrow> bool" where
  "appended py s s' \<longleftrightarrow> sender_inv py s' \<and> (\<exists>xs. messages py s' = messages py s @ xs)
     \<and> next_item s \<le> next_item s' \<and> (\<forall>a < next_item s. pm_id (sd_items s' a) = pm_id (sd_items s a))"

lemma appended_refl: "sender_inv py s \<Longrightarrow> appended py s s"
  by (simp add: appended_def)

lemma appended_trans: "appended py s t \<Longrightarrow> appended py t u \<Longrightarrow> appended py s u"
  by (auto simp: appended_def)

lemma appended_inv: "appended py s s' \<Longrightarrow> sender_inv py s'"
  by (simp add: appended_def)

lemma appended_spilled: "spilled py s s' \<Longrightarrow> appended py s s'"
  by (simp add: appended_def spilled_def)

lemma appended_core: "sender_inv py s \<Longrightarrow> same_core s s' \<Longrightarrow> appended py s s'"
  using same_core_inv [of py s s'] by (simp add: appended_def same_core_def)

lemma appended_item:
  "appended py s s' \<Longrightarrow> a < next_item s \<Longrightarrow> a < next_item s' \<and> pm_id (sd_items s' a) = pm_id (sd_items s a)"
  by (auto simp: appended_def)

text \<open>\<open>appending py Q m\<close>: from the invariant, \<open>m\<close> only appends, and what it returns satisfies \<open>Q\<close>.\<close>

definition appending :: "python \<Rightarrow> ('a \<Rightarrow> bool) \<Rightarrow> 'a sender_proc \<Rightarrow> bool" where
  "appending py Q m \<longleftrightarrow>
     (\<forall>s r s'. sender_inv py s \<longrightarrow> m s = (r, s') \<longrightarrow> appended py s s' \<and> (\<forall>x. r = Inr x \<longrightarrow> Q x))"

named_theorems appending_intros \<open>steps that only append\<close>

lemma appendingI:
  "(\<And>s r s'. sender_inv py s \<Longrightarrow> m s = (r, s') \<Longrightarrow> appended py s s' \<and> (\<forall>x. r = Inr x \<longrightarrow> Q x)) \<Longrightarrow> appending py Q m"
  by (simp add: appending_def)

lemma appendingD:
  assumes "appending py Q m" and "sender_inv py s" and "m s = (r, s')"
  shows "appended py s s'" "r = Inr x \<Longrightarrow> Q x"
  using assms unfolding appending_def by blast+

lemma appending_ret [appending_intros]: "Q x \<Longrightarrow> appending py Q (ret x)"
  and appending_throw [appending_intros]: "appending py Q (throw e)"
  by (rule appendingI, auto intro: appended_refl)+

lemma appending_lift: "appending py (\<lambda>x. r = Inr x) (lift_pure r)"
  by (rule appendingI) (auto intro: appended_refl)

lemma appending_pair [appending_intros]:
  "Q x \<Longrightarrow> (\<And>s. same_core s (f s)) \<Longrightarrow> appending py Q (\<lambda>s. (Inr x, f s))"
  by (rule appendingI) (auto intro: appended_core)

lemma appending_andThen:
  assumes "appending py Q' m" and "\<And>x. Q' x \<Longrightarrow> appending py Q (f x)"
  shows "appending py Q (andThen m f)"
proof (rule appendingI)
  fix s r s' assume inv: "sender_inv py s" and run: "andThen m f s = (r, s')"
  obtain r1 s1 where m: "m s = (r1, s1)" by (cases "m s")
  note o = appendingD [OF assms(1) inv m]
  show "appended py s s' \<and> (\<forall>x. r = Inr x \<longrightarrow> Q x)"
  proof (cases r1)
    case (Inl e)
    with run m o show ?thesis by (auto simp: andThen_def)
  next
    case (Inr x)
    with run m have "f x s1 = (r, s')" by (simp add: andThen_def)
    from appendingD [OF assms(2) [OF o(2) [OF Inr]] appended_inv [OF o(1)] this] appended_trans [OF o(1)]
    show ?thesis by blast
  qed
qed

lemma appending_at: "(\<And>s. appending py Q (m s)) \<Longrightarrow> appending py Q (\<lambda>s. m s s)"
  unfolding appending_def by blast

lemma appending_if [appending_intros]:
  "appending py Q m \<Longrightarrow> appending py Q m' \<Longrightarrow> appending py Q (\<lambda>s. if P s then m s else m' s)"
  by (simp add: appending_def)

lemma appending_weaken: "appending py Q m \<Longrightarrow> (\<And>x. Q x \<Longrightarrow> Q' x) \<Longrightarrow> appending py Q' m"
  by (fastforce simp: appending_def)

lemma appending_orderly: "orderly py E m \<Longrightarrow> appending py (\<lambda>_. True) m"
  using appended_spilled by (fastforce simp: appending_def orderly_def)

lemma appending_spill: "appending py (\<lambda>_. True) (spill_fast_batch py eligible)"
  by (rule appending_orderly [of _ "\<lambda>_. True"]) (rule orderly_spill, simp)

lemma appending_monotonic: "appending py (\<lambda>_. True) monotonic"
  by (rule appending_orderly [OF orderly_monotonic])

lemma appending_envelope: "appending py (\<lambda>_. True) (item_envelope py a)"
  using item_envelope_effect(1) appended_core by (auto simp: appending_def)

section \<open>The surroundings\<close>

text \<open>
  Until a call into the client or a wait returns, other threads may publish and run callbacks and
  timers, all of which keep the invariant and only append. Only the worker begins and ends an
  expectation of the AckTracker, so they keep the id it expects.
\<close>

definition threads_append :: "python \<Rightarrow> surroundings \<Rightarrow> bool" where
  "threads_append py env \<longleftrightarrow>
     (\<forall>s. sender_inv py s \<longrightarrow> appended py s (snd (subscribe_call env s))
        \<and> appended py s (snd (publish_call env s)) \<and> appended py s (snd (ack_event_wait env s))
        \<and> expected_message_id (sd_tracker (snd (publish_call env s))) = expected_message_id (sd_tracker s)
        \<and> expected_message_id (sd_tracker (snd (ack_event_wait env s))) = expected_message_id (sd_tracker s))"

lemma appending_request:
  assumes "threads_append py env"
  shows "appending py (\<lambda>_. True) (request_ack_subscription env)"
proof -
  have begin_ok: "appending py (\<lambda>_. True) request_ack_begin"
  proof -
    have "appending py (\<lambda>_. True) (andThen monotonic (\<lambda>t s1.
        if t < next_subscription_attempt s1 then ret (Some False) s1
        else ret None (s1\<lparr>subscription_mid := Some (-1),
               next_subscription_attempt := t + retry_interval_units s1\<rparr>)))"
    proof (rule appending_andThen [OF appending_monotonic])
      fix t
      have "same_core s (s\<lparr>subscription_mid := Some (-1), next_subscription_attempt := t + retry_interval_units s\<rparr>)" for s
        by (rule same_core_trans [OF same_core_fields(5) same_core_fields(6)])
      then show "appending py (\<lambda>_. True) (\<lambda>s1. if t < next_subscription_attempt s1 then ret (Some False) s1
          else ret None (s1\<lparr>subscription_mid := Some (-1),
               next_subscription_attempt := t + retry_interval_units s1\<rparr>))"
        by (intro appending_if) (simp_all add: appending_pair)
    qed
    then show ?thesis unfolding request_ack_begin_def [abs_def]
      by (intro appending_if appending_ret) simp_all
  qed
  have end_core: "same_core s (snd (request_ack_end answer s))" for answer s
    by (auto simp: request_ack_end_def Let_def same_core_def split: subscribe_answer.splits)
  have call: "appending py (\<lambda>_. True) (\<lambda>s. case subscribe_call env s of (answer, s1) \<Rightarrow>
      (case request_ack_end answer s1 of (b, s2) \<Rightarrow> ret b s2))"
  proof (rule appendingI)
    fix s r s'
    assume inv: "sender_inv py s" and run: "(case subscribe_call env s of (answer, s1) \<Rightarrow>
      (case request_ack_end answer s1 of (b, s2) \<Rightarrow> ret b s2)) = (r, s')"
    obtain answer s1 where c: "subscribe_call env s = (answer, s1)" by (cases "subscribe_call env s")
    have a: "appended py s s1" using assms inv c by (fastforce simp: threads_append_def)
    have "s' = snd (request_ack_end answer s1)" using run c by (auto split: prod.splits)
    with appended_trans [OF a appended_core [OF appended_inv [OF a] end_core]] show "appended py s s' \<and> (\<forall>x. r = Inr x \<longrightarrow> True)"
      by simp
  qed
  show ?thesis unfolding request_ack_subscription_def
  proof (rule appending_andThen [OF begin_ok])
    fix x :: "bool option"
    show "appending py (\<lambda>_. True) (\<lambda>s. case x of Some b \<Rightarrow> ret b s
       | None \<Rightarrow> (case subscribe_call env s of (answer, s1) \<Rightarrow> (case request_ack_end answer s1 of (b, s2) \<Rightarrow> ret b s2)))"
    proof (cases x)
      case None
      with call show ?thesis by (simp only: option.case)
    next
      case (Some b)
      then show ?thesis using appending_ret [of "\<lambda>_. True" b] by (simp only: option.case)
    qed
  qed
qed

section \<open>The parts of an attempt\<close>

lemma appending_maintenance: "appending py (\<lambda>_. True) (run_fast_maintenance py)"
  by (rule appending_orderly [OF orderly_run_maintenance])

lemma appending_begin:
  assumes env: "threads_append py env"
  shows "appending py (\<lambda>x. x \<noteq> Ended DELIVERED) (attempt_begin py env)"
proof -
  let ?Q = "\<lambda>x. x \<noteq> Ended DELIVERED"
  have go: "appending py ?Q (\<lambda>s1. case ack_begin m (sd_tracker s1) of
      (Inl e, _) \<Rightarrow> throw e s1 | (Inr _, t) \<Rightarrow> ret (Attempt a m b) (s1\<lparr>sd_tracker := t\<rparr>))" for a m b
  proof (rule appendingI)
    fix s r s' assume inv: "sender_inv py s"
      and run: "(case ack_begin m (sd_tracker s) of (Inl e, _) \<Rightarrow> throw e s
        | (Inr _, t) \<Rightarrow> ret (Attempt a m b) (s\<lparr>sd_tracker := t\<rparr>)) = (r, s')"
    then have "same_core s s' \<and> (\<forall>x. r = Inr x \<longrightarrow> ?Q x)" by (auto split: prod.splits sum.splits)
    with appended_core [OF inv] show "appended py s s' \<and> (\<forall>x. r = Inr x \<longrightarrow> ?Q x)" by blast
  qed
  have wait: "appending py ?Q (andThen (request_ack_subscription env) (\<lambda>_.
      andThen (\<lambda>s2. if fast_mode_of s2 \<noteq> None then run_fast_maintenance py s2 else ret () s2)
        (\<lambda>_. ret (Ended NOT_READY))))"
    by (intro appending_andThen [OF appending_request [OF env]] appending_andThen [where Q' = "\<lambda>_. True"]
        appending_if appending_maintenance appending_ret) simp_all
  have main: "appending py ?Q (andThen (item_envelope py a) (\<lambda>envelope.
      andThen (lift_pure (encode_message py envelope)) (\<lambda>encoded s1.
        if \<not> connection_ready env s1 then
          andThen (request_ack_subscription env) (\<lambda>_.
          andThen (\<lambda>s2. if fast_mode_of s2 \<noteq> None then run_fast_maintenance py s2 else ret () s2)
            (\<lambda>_. ret (Ended NOT_READY))) s1
        else (case ack_begin (msg_id envelope) (sd_tracker s1) of
                (Inl e, _) \<Rightarrow> throw e s1
              | (Inr _, t) \<Rightarrow> ret (Attempt a (msg_id envelope) encoded) (s1\<lparr>sd_tracker := t\<rparr>)))))" for a
    by (rule appending_andThen [OF appending_envelope appending_andThen [OF appending_lift appending_if [OF wait go]]])
  show ?thesis
  proof (rule appendingI)
    fix s r s' assume inv: "sender_inv py s" and run: "attempt_begin py env s = (r, s')"
    show "appended py s s' \<and> (\<forall>x. r = Inr x \<longrightarrow> ?Q x)"
    proof (cases "stop_event s \<or> sd_pending s = []")
      case True
      then have "s' = s" "r = Inr (Ended STOPPED) \<or> r = Inr (Ended EMPTY)"
        using run by (auto simp: attempt_begin_def split: if_splits)
      with appended_refl [OF inv] show ?thesis by auto
    next
      case False
      then obtain a P where p: "sd_pending s = a # P" by (cases "sd_pending s") auto
      note a = run [unfolded attempt_begin_def p list.case]
      from appendingD [OF main inv, of a r s'] a False show ?thesis by simp
    qed
  qed
qed

text \<open>An attempt is for an item whose id the AckTracker now expects.\<close>

definition attempt_for :: "nat \<Rightarrow> pystr \<Rightarrow> sender \<Rightarrow> bool" where
  "attempt_for a m s \<longleftrightarrow> expected_message_id (sd_tracker s) = Some m \<and> a < next_item s \<and> pm_id (sd_items s a) = m"

lemma attempt_for_appended:
  "attempt_for a m s \<Longrightarrow> appended py s s' \<Longrightarrow> expected_message_id (sd_tracker s') = expected_message_id (sd_tracker s) \<Longrightarrow>
    attempt_for a m s'"
  using appended_item [of py s s' a] by (simp add: attempt_for_def)

lemma begin_attempt:
  assumes inv: "sender_inv py s" and run: "attempt_begin py env s = (Inr (Attempt a m b), s')"
  shows "attempt_for a m s'"
proof -
  from run obtain a' P where p: "\<not> stop_event s" "sd_pending s = a' # P"
    by (cases "sd_pending s") (auto simp: attempt_begin_def split: if_splits)
  obtain r1 s1 where g: "item_envelope py a' s = (r1, s1)" by (cases "item_envelope py a' s")
  note i = item_envelope_effect [OF inv g]
  from run p g obtain v where v: "r1 = Inr v"
    by (cases r1) (simp_all add: attempt_begin_def andThen_def)
  from run p g v obtain bs where e: "encode_message py v = Inr bs"
    by (cases "encode_message py v") (simp_all add: attempt_begin_def andThen_def)
  have ready: "connection_ready env s1"
  proof (rule ccontr)
    assume "\<not> connection_ready env s1"
    with run p g v e show False
      by (auto simp: attempt_begin_def andThen_def split: prod.splits sum.splits if_splits)
  qed
  obtain r2 t where k: "ack_begin (msg_id v) (sd_tracker s1) = (r2, t)" by (cases "ack_begin (msg_id v) (sd_tracker s1)")
  with run p g v e ready have m: "r2 = Inr ()" "a = a'" "m = msg_id v" "s' = s1\<lparr>sd_tracker := t\<rparr>"
    by (auto simp: attempt_begin_def andThen_def split: sum.splits)
  have "expected_message_id t = Some m" using k m(1,3) by (auto simp: ack_begin_def split: if_splits)
  moreover have "a' \<in> set (sd_pending s)" using p by simp
  moreover from this have "a' < next_item s" using inv by (simp add: sender_inv_def queue_shape_def)
  ultimately show ?thesis using i m v by (simp add: attempt_for_def same_core_def)
qed

lemma schedule_retry_run: "\<exists>s'. schedule_retry m s = (Inr RETRY, s') \<and> same_core s s'"
  by (simp add: schedule_retry_def Let_def)

lemma appending_schedule: "appending py (\<lambda>x. x \<noteq> DELIVERED) (schedule_retry m)"
proof (rule appendingI)
  fix s r s' assume "sender_inv py s" "schedule_retry m s = (r, s')"
  with schedule_retry_run [of m s] appended_core [of py s s'] show "appended py s s' \<and> (\<forall>x. r = Inr x \<longrightarrow> x \<noteq> DELIVERED)"
    by auto
qed

lemma appending_failure_is_false:
  assumes "appending py (\<lambda>_. True) m"
  shows "appending py (\<lambda>_. True) (outbox_failure_is_false m)"
proof (rule appendingI)
  fix s r s' assume inv: "sender_inv py s" and run: "outbox_failure_is_false m s = (r, s')"
  obtain r1 s1 where m: "m s = (r1, s1)" by (cases "m s")
  with run have "s' = s1" by (auto simp: outbox_failure_is_false_def handle_def split: sum.splits if_splits)
  with appendingD(1) [OF assms inv m] show "appended py s s' \<and> (\<forall>x. r = Inr x \<longrightarrow> True)" by simp
qed

lemma appending_promote: "appending py (\<lambda>_. True) (promote_fast_for_retry py a)"
proof -
  have sched: "appending py (\<lambda>_. True) (\<lambda>s1. ret True (schedule_fast_maintenance s1))"
    by (simp add: appending_pair)
  have "appending py (\<lambda>_. True) (andThen (spill_fast_batch py None) (\<lambda>_ s1. ret True (schedule_fast_maintenance s1)))"
    by (rule appending_andThen [OF appending_spill sched])
  from appending_failure_is_false [OF appending_if [OF appending_throw this]]
  have spill: "appending py (\<lambda>_. True) (outbox_failure_is_false
       (\<lambda>s0. if fast_queue s0 = [] \<or> hd (fast_queue s0) \<noteq> a then throw OutboxError s0
             else andThen (spill_fast_batch py None) (\<lambda>_ s1. ret True (schedule_fast_maintenance s1)) s0))" .
  show ?thesis unfolding promote_fast_for_retry_def [abs_def]
    by (rule appending_if [OF appending_ret appending_if [OF appending_ret spill]]) (rule TrueI)+
qed

lemma appending_failed: "appending py (\<lambda>x. x \<noteq> DELIVERED) (attempt_failed py env a m)"
proof -
  have promote: "appending py (\<lambda>x. x \<noteq> DELIVERED) (andThen (promote_fast_for_retry py a)
      (\<lambda>promoted. if \<not> promoted then ret STORE_ERROR else schedule_retry m))"
  proof (rule appending_andThen [OF appending_promote])
    fix b :: bool
    show "appending py (\<lambda>x. x \<noteq> DELIVERED) (if \<not> b then ret STORE_ERROR else schedule_retry m)"
      by (cases b) (simp_all add: appending_schedule appending_ret)
  qed
  have "appending py (\<lambda>x. x \<noteq> DELIVERED) (andThen (run_fast_maintenance py) (\<lambda>_. schedule_retry m))"
    by (rule appending_andThen [OF appending_maintenance appending_schedule])
  with promote show ?thesis unfolding attempt_failed_def [abs_def]
    by (intro appending_if appending_schedule appending_ret) simp_all
qed

lemma appending_published:
  "appending py (\<lambda>x. x \<noteq> Some DELIVERED \<and> (x = None \<longrightarrow> confirmed_publish answer)) (attempt_published py env a m answer)"
proof (cases "confirmed_publish answer")
  case True
  then show ?thesis by (simp add: attempt_published_def appending_ret)
next
  case False
  have "appending py (\<lambda>x. x \<noteq> Some DELIVERED \<and> (x = None \<longrightarrow> confirmed_publish answer))
      (andThen (attempt_failed py env a m) (\<lambda>status. ret (Some status)))"
    by (rule appending_andThen [OF appending_failed]) (simp add: appending_ret)
  with False show ?thesis by (simp add: attempt_published_def)
qed

lemma published_waits: "attempt_published py env a m answer s = (Inr None, s') \<Longrightarrow> s' = s"
  by (auto simp: attempt_published_def andThen_def split: if_splits prod.splits sum.splits)

section \<open>The whole attempt\<close>

text \<open>
  The evidence for a delivery of \<open>m\<close>: the publish was confirmed, and the wait for an ACK ended
  matched while the AckTracker expected \<open>m\<close>.
\<close>

definition delivery_evidence :: "surroundings \<Rightarrow> pystr \<Rightarrow> bool" where
  "delivery_evidence env m \<longleftrightarrow>
     (\<exists>t. confirmed_publish (fst (publish_call env t)))
     \<and> (\<exists>signalled u u'. ack_event_wait env u = (signalled, u') \<and> expected_message_id (sd_tracker u') = Some m
          \<and> fst (ack_wait_close signalled (sd_tracker u')))"

definition attempt_outcome ::
  "python \<Rightarrow> surroundings \<Rightarrow> sender \<Rightarrow> py_error + delivery_status \<Rightarrow> sender \<Rightarrow> bool" where
  "attempt_outcome py env s r s' \<longleftrightarrow>
     sender_inv py s'
     \<and> (if r = Inr DELIVERED
        then \<exists>xs. messages py s @ xs \<noteq> [] \<and> messages py s' = tl (messages py s @ xs)
          \<and> delivery_evidence env (msg_id (hd (messages py s @ xs)))
        else \<exists>xs. messages py s' = messages py s @ xs)"

lemma outcome_appended: "appended py s s' \<Longrightarrow> r \<noteq> Inr DELIVERED \<Longrightarrow> attempt_outcome py env s r s'"
  by (simp add: appended_def attempt_outcome_def)

lemma outcome_after:
  assumes "appended py s t" and "attempt_outcome py env t r s'"
  shows "attempt_outcome py env s r s'"
proof -
  obtain xs where t: "messages py t = messages py s @ xs" using assms(1) by (auto simp: appended_def)
  show ?thesis
  proof (cases "r = Inr DELIVERED")
    case True
    with assms(2) obtain ys where
      "sender_inv py s'" "delivery_evidence env (msg_id (hd (messages py t @ ys)))" "messages py t @ ys \<noteq> []"
      "messages py s' = tl (messages py t @ ys)"
      by (auto simp: attempt_outcome_def)
    with True t show ?thesis unfolding attempt_outcome_def by (auto intro!: exI [of _ "xs @ ys"])
  next
    case False
    with assms(2) t show ?thesis by (auto simp: attempt_outcome_def)
  qed
qed

lemma messages_head:
  assumes "sender_inv py s" and "sd_pending s \<noteq> []"
  shows "messages py s \<noteq> []" "msg_id (hd (messages py s)) = pm_id (sd_items s (hd (sd_pending s)))"
proof -
  note ids = messages_ids [OF assms(1)]
  then show ne: "messages py s \<noteq> []" using assms(2) by (metis Nil_is_map_conv)
  show "msg_id (hd (messages py s)) = pm_id (sd_items s (hd (sd_pending s)))"
    using arg_cong [OF ids, of hd] ne assms(2) by (simp add: hd_map)
qed

lemma waited_outcome:
  assumes inv: "sender_inv py s" and r: "attempt_waited py env a m signalled s = (r, s')"
    and for_m: "attempt_for a m s"
    and ev: "fst (ack_wait_close signalled (sd_tracker s)) \<Longrightarrow> delivery_evidence env m"
  shows "attempt_outcome py env s r s'"
proof -
  obtain acked t where w: "ack_wait_close signalled (sd_tracker s) = (acked, t)"
    by (cases "ack_wait_close signalled (sd_tracker s)")
  let ?s = "s\<lparr>sd_tracker := t\<rparr>"
  have c: "same_core s ?s" by simp
  note i = same_core_inv [OF inv c]
  have ap: "appended py s ?s" by (rule appended_core [OF inv c])
  show ?thesis
  proof (cases acked)
    case False
    with r w have run: "attempt_failed py env a m ?s = (r, s')" by (simp add: attempt_waited_def Let_def)
    note f = appendingD [OF appending_failed i(1) run]
    have "r \<noteq> Inr DELIVERED" using f(2) by auto
    with outcome_appended [OF appended_trans [OF ap f(1)]] show ?thesis by simp
  next
    case True
    with r w have run: "complete_item py a ?s = (r, s')" by (simp add: attempt_waited_def Let_def)
    note e = complete_item_effect [OF i(1) run]
    have ev': "delivery_evidence env m" using ev w True by simp
    have m: "pm_id (sd_items ?s a) = m" using for_m by (simp add: attempt_for_def)
    have "attempt_outcome py env ?s r s'"
    proof (cases "r = Inr DELIVERED")
      case d: True
      with e have h: "sd_pending ?s \<noteq> []" "hd (sd_pending ?s) = a" by simp_all
      from messages_head [OF i(1) h(1)] h(2) m ev'
      have "messages py ?s \<noteq> []" "delivery_evidence env (msg_id (hd (messages py ?s)))" by simp_all
      with d e show ?thesis unfolding attempt_outcome_def by (auto intro: exI [of _ "[]"])
    next
      case False
      with e show ?thesis by (simp add: attempt_outcome_def)
    qed
    then show ?thesis by (rule outcome_after [OF ap])
  qed
qed

lemma finally_end_run:
  assumes "finally_end m s = (r, s')"
  obtains t where "m s = (r, t)" "same_core t s'"
  using assms by (auto simp: finally_end_def split: prod.splits)

lemma published_outcome:
  assumes env: "threads_append py env" and inv: "sender_inv py s" and for_m: "attempt_for a m s"
    and p: "publish_call env s = (answer, s1)"
    and r: "andThen (attempt_published py env a m answer) (\<lambda>ended s2.
      case ended of Some status \<Rightarrow> ret status s2
      | None \<Rightarrow> (case ack_event_wait env s2 of (signalled, s3) \<Rightarrow> attempt_waited py env a m signalled s3)) s1 = (r, s')"
  shows "attempt_outcome py env s r s'"
proof -
  have a1: "appended py s s1" using env inv p by (fastforce simp: threads_append_def)
  obtain r2 s2 where m2: "attempt_published py env a m answer s1 = (r2, s2)"
    by (cases "attempt_published py env a m answer s1")
  note o = appendingD [OF appending_published appended_inv [OF a1] m2]
  have a2: "appended py s s2" by (rule appended_trans [OF a1 o(1)])
  consider x where "r2 = Inl x" | st where "r2 = Inr (Some st)" | "r2 = Inr None"
    by (cases r2) (auto intro: option.exhaust)
  then show ?thesis
  proof cases
    case 1
    with r m2 have "r = Inl x" "s' = s2" by (auto simp: andThen_def)
    with outcome_appended [OF a2] show ?thesis by simp
  next
    case 2
    with r m2 have "r = Inr st" "s' = s2" by (auto simp: andThen_def)
    moreover have "st \<noteq> DELIVERED" using o(2) [OF 2] by simp
    ultimately show ?thesis using outcome_appended [OF a2] by simp
  next
    case 3
    have conf: "confirmed_publish (fst (publish_call env s))" using o(2) [OF 3] p by simp
    obtain signalled s3 where w: "ack_event_wait env s2 = (signalled, s3)" by (cases "ack_event_wait env s2")
    have a3: "appended py s2 s3" using env appended_inv [OF a2] w by (fastforce simp: threads_append_def)
    have run: "attempt_waited py env a m signalled s3 = (r, s')" using r m2 3 w by (simp add: andThen_def)
    have "s2 = s1" using published_waits m2 3 by simp
    moreover have "expected_message_id (sd_tracker s1) = expected_message_id (sd_tracker s)"
      using env inv p by (fastforce simp: threads_append_def)
    moreover have "expected_message_id (sd_tracker s3) = expected_message_id (sd_tracker s2)"
      using env appended_inv [OF a2] w by (fastforce simp: threads_append_def)
    ultimately have f3: "attempt_for a m s3"
      using attempt_for_appended [OF attempt_for_appended [OF for_m a2] a3] by simp
    then have "expected_message_id (sd_tracker s3) = Some m" by (simp add: attempt_for_def)
    with conf w have "delivery_evidence env m" if "fst (ack_wait_close signalled (sd_tracker s3))"
      using that unfolding delivery_evidence_def by blast
    from waited_outcome [OF appended_inv [OF a3] run f3 this] show ?thesis
      by (rule outcome_after [OF appended_trans [OF a2 a3]])
  qed
qed

lemma attempt_effect:
  assumes env: "threads_append py env" and inv: "sender_inv py s" and r: "process_oldest_once py env s = (r, s')"
  shows "attempt_outcome py env s r s'"
proof -
  obtain r1 s1 where b: "attempt_begin py env s = (r1, s1)" by (cases "attempt_begin py env s")
  note o = appendingD [OF appending_begin [OF env] inv b]
  consider x where "r1 = Inl x" | st where "r1 = Inr (Ended st)" | a m e where "r1 = Inr (Attempt a m e)"
    by (metis attempt.exhaust sum.exhaust)
  then show ?thesis
  proof cases
    case 1
    with r b have "r = Inl x" "s' = s1" by (auto simp: process_oldest_once_def andThen_def)
    with outcome_appended [OF o(1)] show ?thesis by simp
  next
    case 2
    with r b have "r = Inr st" "s' = s1" by (auto simp: process_oldest_once_def andThen_def)
    moreover have "st \<noteq> DELIVERED" using o(2) [OF 2] by simp
    ultimately show ?thesis using outcome_appended [OF o(1)] by simp
  next
    case 3
    note inv1 = appended_inv [OF o(1)]
    have for_m: "attempt_for a m s1" using begin_attempt [OF inv] b 3 by simp
    let ?m = "\<lambda>s. if stop_event s then ret STOPPED s
      else (case publish_call env s of (answer, s1) \<Rightarrow>
        andThen (attempt_published py env a m answer) (\<lambda>ended s2.
          case ended of Some status \<Rightarrow> ret status s2
          | None \<Rightarrow> (case ack_event_wait env s2 of (signalled, s3) \<Rightarrow> attempt_waited py env a m signalled s3)) s1)"
    have "finally_end ?m s1 = (r, s')"
      using r b 3 by (simp add: process_oldest_once_def andThen_Inr)
    then obtain t where t: "?m s1 = (r, t)" "same_core t s'" by (rule finally_end_run)
    have "attempt_outcome py env s1 r t"
    proof (cases "stop_event s1")
      case True
      with t(1) have "r = Inr STOPPED" "t = s1" by simp_all
      with outcome_appended [OF appended_refl [OF inv1]] show ?thesis by simp
    next
      case False
      obtain answer s2 where p: "publish_call env s1 = (answer, s2)" by (cases "publish_call env s1")
      from t(1) False p have "andThen (attempt_published py env a m answer) (\<lambda>ended s2.
          case ended of Some status \<Rightarrow> ret status s2
          | None \<Rightarrow> (case ack_event_wait env s2 of (signalled, s3) \<Rightarrow> attempt_waited py env a m signalled s3)) s2 = (r, t)"
        by simp
      from published_outcome [OF env inv1 for_m p this] show ?thesis .
    qed
    then have "attempt_outcome py env s1 r s'"
      using same_core_inv [OF _ t(2), of py] by (auto simp: attempt_outcome_def)
    then show ?thesis by (rule outcome_after [OF o(1)])
  qed
qed

end
