(* ===== verification/SenderRuns.thy ===== *)
theory SenderRuns
  imports SenderAttempt
begin

text \<open>
  Any order of the steps of a Sender. A step is what one thread does while it holds the lock of the
  queue: a publish, the completion of a message, the promotion of a message for a retry, a callback,
  a timer (a stale one included) or the shutdown.
\<close>

datatype sender_op =
    SPublish message_envelope bytes | SComplete nat | SPromote nat | SMaintain | STimer nat
  | SDisconnect | SSubscribed int suback | SMessage pystr bytes | SShutdown

fun sender_step :: "python \<Rightarrow> sender_op \<Rightarrow> sender \<Rightarrow> bool \<times> sender" where
  "sender_step py (SPublish e b) s = (False, snd (publish_locked py e b s))"
| "sender_step py (SComplete a) s = (case complete_item py a s of (r, s') \<Rightarrow> (r = Inr DELIVERED, s'))"
| "sender_step py (SPromote a) s = (False, snd (promote_fast_for_retry py a s))"
| "sender_step py SMaintain s = (False, snd (run_fast_maintenance py s))"
| "sender_step py (STimer g) s = (False, snd (on_fast_maintenance_timer py g s))"
| "sender_step py SDisconnect s = (False, mark_disconnected s)"
| "sender_step py (SSubscribed mid codes) s = (False, snd (on_subscribe mid codes s))"
| "sender_step py (SMessage topic payload) s = (False, snd (on_message py topic payload s))"
| "sender_step py SShutdown s = (False, snd (persist_at_shutdown py s))"

definition accepted_by :: "sender_op \<Rightarrow> sender \<Rightarrow> sender \<Rightarrow> message_envelope list" where
  "accepted_by c s s' =
     (case c of
        SPublish e b \<Rightarrow> if sd_by_id s (msg_id e) = None \<and> sd_by_id s' (msg_id e) \<noteq> None then [e] else []
      | _ \<Rightarrow> [])"

text \<open>A run collects the accepted messages and the ids of the delivered ones.\<close>

fun run_sender :: "python \<Rightarrow> sender_op list \<Rightarrow> sender \<Rightarrow> message_envelope list \<times> pystr list \<times> sender" where
  "run_sender py [] s = ([], [], s)"
| "run_sender py (c # cs) s =
     (case sender_step py c s of (delivered, s1) \<Rightarrow>
        (case run_sender py cs s1 of (acc, del, t) \<Rightarrow>
           (accepted_by c s s1 @ acc,
            (if delivered then [pm_id (sd_items s (hd (sd_pending s)))] else []) @ del, t)))"

definition op_ok :: "python \<Rightarrow> sender_op \<Rightarrow> bool" where
  "op_ok py c = (case c of SPublish e b \<Rightarrow> prepared py e b | _ \<Rightarrow> True)"

section \<open>Callbacks leave the queue alone\<close>

lemma same_core_clock: "read_clock (persistence s) = (t, p) \<Longrightarrow> same_core s (s\<lparr>persistence := p\<rparr>)"
  by (simp add: same_core_def policy_quiet_clock)

lemma same_core_disconnected: "same_core s (mark_disconnected s)"
proof -
  let ?s1 = "s\<lparr>connected := False, ack_subscription_ready := False\<rparr>"
  let ?s2 = "if fast_mode_of ?s1 \<noteq> None \<and> disconnected_since ?s1 = None \<and> \<not> stop_event ?s1
    then (case read_clock (persistence ?s1) of (t, p) \<Rightarrow> ?s1\<lparr>persistence := p, disconnected_since := Some t\<rparr>)
    else ?s1"
  have "same_core s ?s2"
  proof (cases "read_clock (persistence ?s1)")
    case (Pair t p)
    then have "policy_quiet (persistence s) p" using policy_quiet_clock by simp
    with Pair show ?thesis by (simp add: same_core_def)
  qed
  then have "same_core s (schedule_fast_maintenance ?s2)" by (rule same_core_trans [OF _ same_core_schedule])
  then show ?thesis unfolding mark_disconnected_def Let_def by (simp add: same_core_def)
qed

lemma same_core_subscribed: "same_core s (snd (on_subscribe mid codes s))"
proof -
  obtain t p where c: "read_clock (persistence s) = (t, p)" by (cases "read_clock (persistence s)")
  then show ?thesis
    using policy_quiet_clock [OF c]
    by (simp add: on_subscribe_def Let_def andThen_def monotonic_def same_core_def)
qed

lemma same_core_message: "same_core s (snd (on_message py topic payload s))"
  by (cases "decode_ack py (WBytes payload)") (simp_all add: on_message_def)

section \<open>One step\<close>

lemma accepted_grown:
  assumes "sender_inv py s" and "sender_inv py s'" and "messages py s' = messages py s @ [e]"
    and "msg_id e \<notin> set (map msg_id (messages py s))"
  shows "accepted_by (SPublish e b) s s' = [e]"
  using assms pending_ids_of [of py s "msg_id e"] pending_ids_of [of py s' "msg_id e"] by (simp add: accepted_by_def)

lemma accepted_same:
  assumes "sender_inv py s" and "sender_inv py s'" and "messages py s' = messages py s"
  shows "accepted_by c s s' = []"
proof -
  have "sd_by_id s m = None \<longleftrightarrow> sd_by_id s' m = None" for m
    using pending_ids_of [OF assms(1), of m] pending_ids_of [OF assms(2), of m] unfolding assms(3) by blast
  then show ?thesis by (auto simp: accepted_by_def split: sender_op.splits)
qed

definition step_effect :: "python \<Rightarrow> sender_op \<Rightarrow> sender \<Rightarrow> bool \<Rightarrow> sender \<Rightarrow> bool" where
  "step_effect py c s delivered s' \<longleftrightarrow>
     sender_inv py s'
     \<and> (if delivered
        then accepted_by c s s' = [] \<and> messages py s \<noteq> [] \<and> messages py s' = tl (messages py s)
          \<and> msg_id (hd (messages py s)) = pm_id (sd_items s (hd (sd_pending s)))
        else messages py s' = messages py s @ accepted_by c s s')"

lemma step_unchanged:
  "sender_inv py s \<Longrightarrow> sender_inv py s' \<Longrightarrow> messages py s' = messages py s \<Longrightarrow> step_effect py c s False s'"
  using accepted_same [of py s s' c] by (simp add: step_effect_def)

lemma step_core: "sender_inv py s \<Longrightarrow> same_core s s' \<Longrightarrow> step_effect py c s False s'"
  using same_core_inv(1,2) step_unchanged by blast

lemma step_spilled: "sender_inv py s \<Longrightarrow> spilled py s s' \<Longrightarrow> step_effect py c s False s'"
  by (rule step_unchanged) (simp_all add: spilled_def)

lemma publish_step:
  assumes inv: "sender_inv py s" and e: "prepared py e b"
  shows "step_effect py (SPublish e b) s False (snd (publish_locked py e b s))"
proof -
  obtain r s' where r: "publish_locked py e b s = (r, s')" by (cases "publish_locked py e b s")
  note o = publish_locked_effect [OF inv e r]
  then have i: "sender_inv py s'" by (simp add: publish_outcome_def)
  show ?thesis
  proof (cases "messages py s' = messages py s")
    case True
    with step_unchanged [OF inv i] r show ?thesis by simp
  next
    case False
    with o have m: "messages py s' = messages py s @ [e]" by (auto simp: publish_outcome_def split: sum.splits)
    have "distinct (map msg_id (messages py s @ [e]))" using messages_distinct [OF i] m by simp
    with accepted_grown [OF inv i m] m i r show ?thesis by (simp add: step_effect_def)
  qed
qed

lemma complete_step:
  assumes inv: "sender_inv py s" and r: "complete_item py a s = (r, s')"
  shows "step_effect py (SComplete a) s (r = Inr DELIVERED) s'"
proof -
  note e = complete_item_effect [OF inv r]
  show ?thesis
  proof (cases "r = Inr DELIVERED")
    case True
    with e have "sender_inv py s'" "sd_pending s \<noteq> []" "messages py s' = tl (messages py s)" by simp_all
    with messages_head [OF inv] True show ?thesis by (simp add: step_effect_def accepted_by_def)
  next
    case False
    with e step_unchanged [OF inv] show ?thesis by simp
  qed
qed

lemma promote_spilled:
  assumes inv: "sender_inv py s" and r: "promote_fast_for_retry py a s = (r, s')"
  shows "spilled py s s'"
proof (cases "persisted s a \<or> sd_by_id s (pm_id (sd_items s a)) \<noteq> Some a \<or> fast_queue s = [] \<or> hd (fast_queue s) \<noteq> a")
  case True
  with r have "s' = s"
    by (auto simp: promote_fast_for_retry_def outbox_failure_is_false_def handle_def split: if_splits)
  with spilled_refl [OF inv] show ?thesis by simp
next
  case False
  obtain r1 s1 where b: "spill_fast_batch py None s = (r1, s1)" by (cases "spill_fast_batch py None s")
  have sp: "spilled py s s1" using spill_fast_batch_effect [OF inv b] by blast
  then have "sender_inv py s1" by (simp add: spilled_def)
  then have "spilled py s (schedule_fast_maintenance s1)"
    using spilled_trans [OF sp spilled_core [OF _ same_core_schedule]] by blast
  moreover have "s' = s1 \<or> s' = schedule_fast_maintenance s1"
    using r b False by (auto simp: promote_fast_for_retry_def outbox_failure_is_false_def handle_def andThen_def
        split: sum.splits if_splits)
  ultimately show ?thesis using sp by blast
qed

lemma sender_step_effect:
  assumes inv: "sender_inv py s" and ok: "op_ok py c" and st: "sender_step py c s = (d, s')"
  shows "step_effect py c s d s'"
proof (cases c)
  case (SPublish e b)
  with publish_step [OF inv] ok st show ?thesis by (auto simp: op_ok_def)
next
  case (SComplete a)
  with complete_step [OF inv] st show ?thesis by (auto split: prod.splits)
next
  case (SPromote a)
  with st have "promote_fast_for_retry py a s = (fst (promote_fast_for_retry py a s), s')" "\<not> d"
    by (auto simp: prod_eq_iff)
  with step_spilled [OF inv promote_spilled [OF inv]] show ?thesis by simp
next
  case SMaintain
  with st have "run_fast_maintenance py s = (fst (run_fast_maintenance py s), s')" "\<not> d" by (auto simp: prod_eq_iff)
  with step_spilled [OF inv orderlyD(1) [OF orderly_run_maintenance inv]] show ?thesis by simp
next
  case (STimer g)
  with st have "on_fast_maintenance_timer py g s = (fst (on_fast_maintenance_timer py g s), s')" "\<not> d"
    by (auto simp: prod_eq_iff)
  with step_spilled [OF inv orderlyD(1) [OF orderly_maintenance_timer inv]] show ?thesis by simp
next
  case SDisconnect
  with st step_core [OF inv same_core_disconnected] show ?thesis by simp
next
  case (SSubscribed mid codes)
  with st step_core [OF inv same_core_subscribed] show ?thesis by auto
next
  case (SMessage topic payload)
  with st step_core [OF inv same_core_message] show ?thesis by auto
next
  case SShutdown
  with st have "persist_at_shutdown py s = (fst (persist_at_shutdown py s), s')" "\<not> d" by (auto simp: prod_eq_iff)
  with step_unchanged [OF inv] persist_at_shutdown_effect [OF inv] show ?thesis by simp
qed

section \<open>Any run\<close>

lemma run_sender_effect:
  "sender_inv py s \<Longrightarrow> list_all (op_ok py) cs \<Longrightarrow> run_sender py cs s = (acc, del, t) \<Longrightarrow>
    sender_inv py t \<and> (\<exists>D. messages py s @ acc = D @ messages py t \<and> map msg_id D = del)"
proof (induction cs arbitrary: s acc del t)
  case Nil
  then show ?case by simp
next
  case (Cons c cs)
  obtain d s1 where st: "sender_step py c s = (d, s1)" by (cases "sender_step py c s")
  obtain acc1 del1 t1 where rest: "run_sender py cs s1 = (acc1, del1, t1)" by (cases "run_sender py cs s1") auto
  have eqs: "t1 = t" "acc = accepted_by c s s1 @ acc1"
    "del = (if d then [pm_id (sd_items s (hd (sd_pending s)))] else []) @ del1"
    using Cons.prems(3) st rest by auto
  have e: "step_effect py c s d s1" using sender_step_effect [OF Cons.prems(1) _ st] Cons.prems(2) by simp
  then have "sender_inv py s1" by (simp add: step_effect_def)
  from Cons.IH [OF this, of acc1 del1 t1] rest Cons.prems(2) obtain D where
    D: "sender_inv py t1" "messages py s1 @ acc1 = D @ messages py t1" "map msg_id D = del1" by auto
  show ?case
  proof (cases d)
    case True
    with e have h: "accepted_by c s s1 = []" "messages py s = hd (messages py s) # messages py s1"
      "msg_id (hd (messages py s)) = pm_id (sd_items s (hd (sd_pending s)))"
      by (auto simp: step_effect_def)
    have "messages py s @ acc = (hd (messages py s) # D) @ messages py t"
      using h D(2) eqs by (metis append_Cons append_Nil)
    moreover have "map msg_id (hd (messages py s) # D) = del" using h(3) D(3) eqs True by simp
    ultimately show ?thesis using D(1) eqs(1) by blast
  next
    case False
    with e have "messages py s @ acc = D @ messages py t" using D(2) eqs by (simp add: step_effect_def)
    with D(1,3) eqs False show ?thesis by auto
  qed
qed

end
