(* ===== verification/SenderSamples.thy ===== *)
theory SenderSamples
  imports SenderRuns OutboxSamples
begin

text \<open>
  Concrete Senders for the witnesses: one over an Outbox with a message, and one with a message in
  RAM, connected to a client and a relay that confirm and acknowledge everything.
\<close>

section \<open>A sample\<close>

definition sample_fast :: fast_mode where
  "sample_fast = \<lparr>ram_max_messages = 2, ram_max_bytes = 4096, high_watermark = None, max_ram_age = None,
     disconnect_grace = None, spill_batch_messages = 1, spill_batch_bytes = 4096\<rparr>"

definition sample_sender_config :: sender_config where
  "sample_sender_config = \<lparr>sc_host = ustr ''h'', sc_outbox_path = \<lparr>root = [], parts = [ustr ''o'']\<rparr>, sc_port = 1883, sc_client_id = None,
     sc_relay_topic = ustr ''r'', sc_delivery_ack_topic = ustr ''k'', sc_qos = 1, sc_delivery_ack_timeout = ONE,
     sc_retry_interval = ONE, sc_keepalive = 60, sc_mqtt_puback_timeout = ONE, sc_reconnect_min_delay = ONE,
     sc_reconnect_max_delay = ONE, sc_log_level = None, sc_debug = False\<rparr>"

definition sample_fast_policy :: policy where
  "sample_fast_policy = new_policy sample_outbox (FastMode sample_fast) 0 [1, 2, 3]"

definition sample_sender :: sender where
  "sample_sender = new_sender sample_sender_config sample_fast_policy"

lemma sample_fast_ok: "fast_mode_ok sample_fast"
  by (simp add: fast_mode_ok_def sample_fast_def positive_count_def positive_duration_def)

lemma sample_fast_policy_ok: "policy_ok sample_python sample_fast_policy"
  using secure_healthy [OF sample_outbox_facts(1)] sample_fast_ok
  by (simp add: policy_ok_def sample_fast_policy_def new_policy_def)

lemma sample_sender_facts:
  "sender_inv sample_python sample_sender" "messages sample_python sample_sender = [canon_message sample_message]"
  "fast_mode_of sample_sender = Some sample_fast" "fast_queue sample_sender = []"
  "persistence sample_sender = sample_fast_policy" "outbox_of sample_fast_policy = sample_outbox"
proof -
  show "sender_inv sample_python sample_sender" "messages sample_python sample_sender = [canon_message sample_message]"
    using new_sender_effect [OF sample_fast_policy_ok] sample_outbox_facts(2)
    by (simp_all add: sample_sender_def sample_fast_policy_def new_policy_def)
  show "fast_mode_of sample_sender = Some sample_fast" "fast_queue sample_sender = []"
    "persistence sample_sender = sample_fast_policy" "outbox_of sample_fast_policy = sample_outbox"
    by (simp_all add: sample_sender_def new_sender_def Let_def fast_mode_of_def sample_fast_policy_def new_policy_def)
qed

text \<open>Another message, in the form and with the encoding \<^verbatim>\<open>publish\<close> gives it.\<close>

definition sample_news :: message_envelope where
  "sample_news = \<lparr>msg_topic = ustr ''a'', msg_payload = PNone, msg_id = ustr ''n-1'', msg_version = 1\<rparr>"

definition sample_news_bytes :: bytes where
  "sample_news_bytes = (case encode_message sample_python sample_news of Inl _ \<Rightarrow> [] | Inr b \<Rightarrow> b)"

lemma sample_news_prepared: "prepared sample_python sample_news sample_news_bytes"
proof -
  have "\<not> raised (encode_message sample_python sample_news)" by code_simp
  then have e: "encode_message sample_python sample_news = Inr sample_news_bytes"
    by (cases "encode_message sample_python sample_news") (simp_all add: sample_news_bytes_def)
  have "MessageEnvelope sample_python (PStr (msg_topic sample_news)) (msg_payload sample_news)
      (PStr (msg_id sample_news)) (PInt (msg_version sample_news)) = Inr sample_news" by code_simp
  then have v: "valid_message sample_python sample_news" by (simp add: valid_message_def sample_news_def)
  have "canon_message sample_news = sample_news" by (simp add: canon_message_def sample_news_def)
  with decode_encode_message [OF sample_python_ok v e] e show ?thesis by (simp add: prepared_def)
qed

section \<open>A Sender that delivers\<close>

definition sample_idle :: sender where
  "sample_idle = new_sender sample_sender_config (new_policy empty_outbox (FastMode sample_fast) 0 [])"

definition sample_loaded :: sender where
  "sample_loaded = (snd (publish_locked sample_python sample_news sample_news_bytes sample_idle))
     \<lparr>connected := True, ack_subscription_ready := True\<rparr>"

lemma sample_news_size: "length sample_news_bytes \<le> 4096" by code_simp

lemma sample_idle_facts:
  "sender_inv sample_python sample_idle" "messages sample_python sample_idle = []"
  "sd_pending sample_idle = []" "next_item sample_idle = 0" "sd_by_id sample_idle m = None"
proof -
  have "policy_ok sample_python (new_policy empty_outbox (FastMode sample_fast) 0 [])"
    using secure_healthy [OF empty_outbox_facts(1)] sample_fast_ok by (simp add: policy_ok_def new_policy_def)
  from new_sender_effect [OF this] empty_outbox_facts(2)
  show i: "sender_inv sample_python sample_idle" and m: "messages sample_python sample_idle = []"
    by (simp_all add: sample_idle_def new_policy_def)
  show p: "sd_pending sample_idle = []" using messages_ids [OF i] m by (metis Nil_is_map_conv)
  show "sd_by_id sample_idle m = None" using pending_ids_of [OF i, of m] \<open>messages sample_python sample_idle = []\<close> by simp
  show "next_item sample_idle = 0" using p by (simp add: sample_idle_def new_sender_def Let_def)
qed


lemma sample_idle_simps:
  "fast_queue sample_idle = []" "fast_ram_bytes sample_idle = 0" "mode (persistence sample_idle) = FastMode sample_fast"
  "read_clock (persistence sample_idle) = (0, persistence sample_idle)" "stop_event sample_idle = False"
  "sd_tracker sample_idle = ack_init" "disconnected_since sample_idle = None" "fast_retry_not_before sample_idle = 0"
  "sd_config sample_idle = sample_sender_config"
  by (simp_all add: sample_idle_def new_sender_def Let_def new_policy_def read_clock_def)

definition sample_item :: pending_message where
  "sample_item = \<lparr>pm_id = msg_id sample_news, pm_encoded = Some sample_news_bytes, pm_size = length sample_news_bytes,
     pm_enqueued_at = 0, pm_state = RAM_ONLY, pm_spill_attempted = False\<rparr>"

definition sample_enqueued :: sender where
  "sample_enqueued = (enqueue_item sample_item sample_idle)\<lparr>fast_queue := [0], fast_ram_bytes := int (length sample_news_bytes)\<rparr>"

lemma sample_schedule: "schedule_fast_maintenance sample_enqueued = cancel_fast_timer sample_enqueued"
  by (simp add: schedule_fast_maintenance_def fast_mode_of_def sample_enqueued_def enqueue_item_def Let_def sample_idle_facts
      sample_idle_simps fast_deadlines_def sample_fast_def)

lemma sample_publish: "publish_locked sample_python sample_news sample_news_bytes sample_idle = (Inr (), cancel_fast_timer sample_enqueued)"
proof -
  have room: "make_fast_room sample_python sample_fast (length sample_news_bytes) sample_idle = (Inr (), sample_idle)"
    using sample_news_size by (simp add: make_fast_room_def sample_fast_def make_room_loop.simps sample_idle_simps)
  have high: "spill_fast_high_water sample_python sample_enqueued = (Inr (), sample_enqueued)"
    by (simp add: spill_fast_high_water_def handle_def high_water_loop.simps andThen_def fast_high_water_reached_def
        fast_mode_of_def sample_enqueued_def enqueue_item_def Let_def sample_idle_simps sample_fast_def)
  have enq: "(enqueue_item \<lparr>pm_id = msg_id sample_news, pm_encoded = Some sample_news_bytes, pm_size = length sample_news_bytes,
     pm_enqueued_at = 0, pm_state = RAM_ONLY, pm_spill_attempted = False\<rparr> sample_idle)\<lparr>fast_queue := [0], fast_ram_bytes := int (length sample_news_bytes)\<rparr> = sample_enqueued"
    by (simp add: sample_enqueued_def sample_item_def)
  have pe: "sample_idle\<lparr>persistence := persistence sample_idle\<rparr> = sample_idle" by simp
  have fq: "fast_queue (enqueue_item x sample_idle) = []" "fast_ram_bytes (enqueue_item x sample_idle) = 0" for x
    by (simp_all add: enqueue_item_def Let_def sample_idle_simps)
  show ?thesis
    by (simp add: publish_locked_def sample_idle_facts fast_mode_of_def sample_idle_simps publish_fast_def andThen_def room
        monotonic_def pe fq enq high sample_schedule Let_def)
qed

lemma sample_loaded_simps:
  "sd_pending sample_loaded = [0]" "sd_items sample_loaded 0 = sample_item" "fast_queue sample_loaded = [0]"
  "stop_event sample_loaded = False" "sd_tracker sample_loaded = ack_init" "connected sample_loaded"
  "ack_subscription_ready sample_loaded" "sd_by_id sample_loaded (msg_id sample_news) = Some 0"
  "sd_config sample_loaded = sample_sender_config"
  by (simp_all add: sample_loaded_def sample_publish cancel_fast_timer_def sample_enqueued_def enqueue_item_def Let_def
      sample_idle_facts sample_idle_simps sample_item_def)

definition sample_ack_bytes :: bytes where
  "sample_ack_bytes = (case encode_ack sample_python \<lparr>dack_id = msg_id sample_news, dack_version = 1\<rparr> of Inl _ \<Rightarrow> [] | Inr b \<Rightarrow> b)"

lemma sample_ack: "decode_ack sample_python (WBytes sample_ack_bytes) = Inr \<lparr>dack_id = msg_id sample_news, dack_version = 1\<rparr>"
  by code_simp

definition sample_surroundings :: surroundings where
  "sample_surroundings = \<lparr>subscribe_call = (\<lambda>s. (SubscribeRaised, s)),
     publish_call = (\<lambda>s. (PublishInfo 0 (Some True), snd (publish_locked sample_python sample_news sample_news_bytes s))),
     ack_event_wait = (\<lambda>s. (True, snd (on_message sample_python (ustr ''k'') sample_ack_bytes s))),
     client_is_connected = (\<lambda>s. Some True)\<rparr>"

lemma message_expectation:
  "expected_message_id (sd_tracker (snd (on_message py topic payload s))) = expected_message_id (sd_tracker s)"
  by (cases "decode_ack py (WBytes payload)") (simp_all add: on_message_def ack_match_def Let_def)

lemma sample_threads: "threads_append sample_python sample_surroundings"
  unfolding threads_append_def
proof (intro allI impI conjI)
  fix s assume inv: "sender_inv sample_python s"
  show "appended sample_python s (snd (subscribe_call sample_surroundings s))"
    using appended_refl [OF inv] by (simp add: sample_surroundings_def)
  show "appended sample_python s (snd (ack_event_wait sample_surroundings s))"
    using appended_core [OF inv same_core_message] by (simp add: sample_surroundings_def)
  show "expected_message_id (sd_tracker (snd (ack_event_wait sample_surroundings s))) = expected_message_id (sd_tracker s)"
    using message_expectation by (simp add: sample_surroundings_def)
  note tr = publish_tracks [of s sample_python sample_news sample_news_bytes]
  have "step_effect sample_python (SPublish sample_news sample_news_bytes) s False
      (snd (publish_locked sample_python sample_news sample_news_bytes s))"
    by (rule publish_step [OF inv sample_news_prepared])
  with tr show "appended sample_python s (snd (publish_call sample_surroundings s))"
    by (auto simp: sample_surroundings_def step_effect_def appended_def tracks_def)
  from tr show "expected_message_id (sd_tracker (snd (publish_call sample_surroundings s))) = expected_message_id (sd_tracker s)"
    by (simp add: sample_surroundings_def tracks_def)
qed

lemma sample_loaded_facts:
  "sender_inv sample_python sample_loaded" "messages sample_python sample_loaded = [sample_news]"
proof -
  let ?s = "cancel_fast_timer sample_enqueued"
  have o: "sender_inv sample_python ?s" "messages sample_python ?s = [sample_news]"
    using publish_locked_effect [OF sample_idle_facts(1) sample_news_prepared sample_publish]
    by (auto simp: publish_outcome_def sample_idle_facts)
  have c: "same_core ?s sample_loaded" by (simp add: sample_loaded_def sample_publish same_core_def)
  from same_core_inv [OF o(1) c] o(2) show "sender_inv sample_python sample_loaded"
    "messages sample_python sample_loaded = [sample_news]" by simp_all
qed

lemma sample_delivers: "fst (process_oldest_once sample_python sample_surroundings sample_loaded) = Inr DELIVERED"
proof -
  have news: "decode_message sample_python (WBytes sample_news_bytes) = Inr sample_news"
    "encode_message sample_python sample_news = Inr sample_news_bytes"
    using sample_news_prepared by (simp_all add: prepared_def)
  have id: "msg_id sample_news \<noteq> []" by (simp add: sample_news_def ustr_def)
  have at: "item_encoded sample_python 0 s = (Inr sample_news_bytes, s)" "item_envelope sample_python 0 s = (Inr sample_news, s)"
    if "sd_items s 0 = sample_item" for s
    using that news by (simp_all add: item_envelope_def andThen_def item_encoded_def sample_item_def)
  show ?thesis
    by (simp add: process_oldest_once_def attempt_begin_def finally_end_def andThen_def sample_loaded_simps at news connection_ready_def sample_surroundings_def
      ack_begin_def ack_init_def id publish_locked_def attempt_published_def confirmed_publish_def MQTT_ERR_SUCCESS_def on_message_def sample_ack sample_sender_config_def
      ack_match_def Let_def attempt_waited_def ack_wait_close_def complete_item_def settle_uncertain_spill_def persisted_def sample_item_def
      discharge_item_def)
qed
end
