(* ===== verification/SenderProperties.thy ===== *)
theory SenderProperties
  imports SenderSamples
begin

text \<open>
  The properties of the Sender. \<open>messages py s\<close> is what it still owes, oldest first: the messages
  on disk, then those in RAM.
\<close>

section \<open>Publishing and delivering\<close>



text \<open>
  C2. End to end. An attempt to deliver ends with \<^verbatim>\<open>DELIVERED\<close> only after the publish was confirmed
  and the wait for an ACK ended matched while the AckTracker expected the id of the oldest message,
  and then exactly that message is gone. However else it ends (a timeout, a lost connection, a failing disk, an exception), no message is lost. Other
  threads may publish meanwhile: their messages \<open>xs\<close> follow.
\<close>

theorem delivered_after_ack:
  assumes "threads_append py env" and "sender_inv py s" and "process_oldest_once py env s = (r, s')"
  shows "sender_inv py s'
    \<and> (if r = Inr DELIVERED
       then \<exists>xs. messages py s @ xs \<noteq> [] \<and> messages py s' = tl (messages py s @ xs)
         \<and> (\<exists>t. confirmed_publish (fst (publish_call env t)))
         \<and> (\<exists>signalled u u'. ack_event_wait env u = (signalled, u')
              \<and> expected_message_id (sd_tracker u') = Some (msg_id (hd (messages py s @ xs)))
              \<and> fst (ack_wait_close signalled (sd_tracker u')))
       else \<exists>xs. messages py s' = messages py s @ xs)"
  using attempt_effect [OF assms, unfolded attempt_outcome_def delivery_evidence_def conj_assoc] .

theorem delivered_after_ack_witness:
  "\<exists>s' xs. process_oldest_once sample_python sample_surroundings sample_loaded = (Inr DELIVERED, s')
     \<and> messages sample_python s' = tl (sample_news # xs)"
proof -
  obtain s' where r: "process_oldest_once sample_python sample_surroundings sample_loaded = (Inr DELIVERED, s')"
    using sample_delivers by (metis prod.collapse)
  from delivered_after_ack [OF sample_threads sample_loaded_facts(1) r] r sample_loaded_facts(2)
  show ?thesis by auto
qed

text \<open>
  C3. First in, first out, without loss. Whatever the order of publishes, completions, promotions,
  callbacks, timers (stale ones included) and shutdowns, and whichever of them fail, the messages
  that were pending or accepted are those delivered followed by those still pending, in the order
  of acceptance; \<open>delivered\<close> has the ids for which a completion answered \<^verbatim>\<open>DELIVERED\<close>.
\<close>

theorem sender_fifo:
  assumes "sender_inv py s" and "list_all (op_ok py) cs" and "run_sender py cs s = (accepted, delivered, s')"
  shows "\<exists>D. messages py s @ accepted = D @ messages py s' \<and> map msg_id D = delivered"
  using run_sender_effect [OF assms] by blast

theorem sender_fifo_witness:
  "\<exists>accepted delivered s' D.
     run_sender sample_python [SPublish sample_news sample_news_bytes, SComplete 0, SShutdown] sample_sender
       = (accepted, delivered, s')
     \<and> messages sample_python sample_sender @ accepted = D @ messages sample_python s' \<and> map msg_id D = delivered"
proof -
  let ?cs = "[SPublish sample_news sample_news_bytes, SComplete 0, SShutdown]"
  obtain acc del s' where r: "run_sender sample_python ?cs sample_sender = (acc, del, s')"
    by (cases "run_sender sample_python ?cs sample_sender")
  have "list_all (op_ok sample_python) ?cs" using sample_news_prepared by (simp add: op_ok_def)
  from sender_fifo [OF sample_sender_facts(1) this r] r show ?thesis by blast
qed

text \<open>
  C10. The invariant of the Sender under any such run, and its bounds: the ids of the pending
  messages are distinct and exactly those of the index, and in FastMode the messages in RAM respect
  both limits, counted in messages and in encoded bytes.
\<close>

theorem sender_bounds:
  assumes "policy_ok py p" and "list_all (op_ok py) cs"
    and "run_sender py cs (new_sender config p) = (accepted, delivered, s)"
  shows "distinct (map msg_id (messages py s))
    \<and> (\<forall>m. m \<in> set (map msg_id (messages py s)) \<longleftrightarrow> sd_by_id s m \<noteq> None)
    \<and> fast_ram_bytes s = (\<Sum>a\<leftarrow>fast_queue s. int (pm_size (sd_items s a)))
    \<and> (case fast_mode_of s of
         None \<Rightarrow> fast_queue s = []
       | Some fm \<Rightarrow> int (length (fast_queue s)) \<le> ram_max_messages fm \<and> fast_ram_bytes s \<le> ram_max_bytes fm)"
proof -
  from run_sender_effect [OF new_sender_effect(1) [OF assms(1)] assms(2,3)] have i: "sender_inv py s" by blast
  show ?thesis
    using messages_distinct [OF i] pending_ids_of [OF i] sender_inv_facts(3) [OF i] unfolding ram_accounted_def
    by blast
qed

theorem sender_bounds_witness:
  "\<exists>accepted delivered s. run_sender sample_python [SPublish sample_news sample_news_bytes] sample_sender
     = (accepted, delivered, s) \<and> distinct (map msg_id (messages sample_python s))"
proof -
  let ?cs = "[SPublish sample_news sample_news_bytes]"
  obtain acc del s' where r: "run_sender sample_python ?cs sample_sender = (acc, del, s')"
    by (cases "run_sender sample_python ?cs sample_sender")
  have "list_all (op_ok sample_python) ?cs" using sample_news_prepared by (simp add: op_ok_def)
  from sender_bounds [OF sample_fast_policy_ok this r [unfolded sample_sender_def]] r show ?thesis
    by blast
qed

section \<open>Spilling and shutting down\<close>

text \<open>
  C11. The spill loops end. Every batch takes at least one message, so a loop bounded by the length
  of the queue never runs out (which would be \<^verbatim>\<open>RuntimeError\<close>): spilling everything ends with an
  empty RAM queue or \<^verbatim>\<open>OutboxError\<close>, making room ends with room or \<^verbatim>\<open>FastQueueFullError\<close>, and a
  maintenance run returns unless a limit is too large for a double. None of them changes what is owed.
\<close>

theorem spilling_terminates:
  assumes "sender_inv py s"
  shows "(case spill_unpersisted_fast py s of (r, s') \<Rightarrow>
       messages py s' = messages py s \<and> (r = Inr () \<and> fast_queue s' = [] \<or> r = Inl OutboxError))
    \<and> (case fast_mode_of s of
         None \<Rightarrow> True
       | Some fm \<Rightarrow> (case make_fast_room py fm n s of (r, s') \<Rightarrow>
           messages py s' = messages py s
           \<and> (r = Inr () \<and> int (length (fast_queue s') + 1) \<le> ram_max_messages fm
                \<and> fast_ram_bytes s' + int n \<le> ram_max_bytes fm
              \<or> r = Inl FastQueueFullError)))
    \<and> (case run_fast_maintenance py s of (r, s') \<Rightarrow>
         messages py s' = messages py s \<and> (r = Inr () \<or> r = Inl OverflowError))"
proof (intro conjI)
  obtain r s' where r: "spill_unpersisted_fast py s = (r, s')" by (cases "spill_unpersisted_fast py s")
  then have "spill_all (length (fast_queue s)) py s = (r, s')" by (simp add: spill_unpersisted_fast_def)
  from spill_all_effect [OF assms le_refl this] r
  show "case spill_unpersisted_fast py s of (r, s') \<Rightarrow>
       messages py s' = messages py s \<and> (r = Inr () \<and> fast_queue s' = [] \<or> r = Inl OutboxError)"
    by (auto simp: spilled_def)
next
  show "case fast_mode_of s of
         None \<Rightarrow> True
       | Some fm \<Rightarrow> (case make_fast_room py fm n s of (r, s') \<Rightarrow>
           messages py s' = messages py s
           \<and> (r = Inr () \<and> int (length (fast_queue s') + 1) \<le> ram_max_messages fm
                \<and> fast_ram_bytes s' + int n \<le> ram_max_bytes fm
              \<or> r = Inl FastQueueFullError))"
  proof (cases "fast_mode_of s")
    case (Some fm)
    obtain r s' where r: "make_fast_room py fm n s = (r, s')" by (cases "make_fast_room py fm n s")
    from make_fast_room_effect [OF assms Some r] r Some show ?thesis by (auto simp: spilled_def fast_room_def)
  qed simp
next
  obtain r s' where r: "run_fast_maintenance py s = (r, s')" by (cases "run_fast_maintenance py s")
  note o = orderlyD [OF orderly_run_maintenance assms r]
  then have "r = Inr () \<or> r = Inl OverflowError" by (cases r) auto
  with o(1) r show "case run_fast_maintenance py s of (r, s') \<Rightarrow>
         messages py s' = messages py s \<and> (r = Inr () \<or> r = Inl OverflowError)"
    by (simp add: spilled_def)
qed

theorem spilling_terminates_witness:
  "\<exists>r s'. run_fast_maintenance sample_python sample_sender = (r, s') \<and> (r = Inr () \<or> r = Inl OverflowError)"
proof -
  obtain r s' where r: "run_fast_maintenance sample_python sample_sender = (r, s')"
    by (cases "run_fast_maintenance sample_python sample_sender")
  with spilling_terminates [OF sample_sender_facts(1)] show ?thesis by auto
qed

text \<open>
  C12. Shutting down. \<^verbatim>\<open>stop\<close> either raises \<^verbatim>\<open>OutboxError\<close> or leaves nothing in RAM only: every message
  the Sender still owes is in the Outbox, in order. In neither case is a message lost.
\<close>

theorem shutdown_persists:
  assumes "sender_inv py s" and "persist_at_shutdown py s = (r, s')"
  shows "sender_inv py s' \<and> messages py s' = messages py s
    \<and> (r = Inl OutboxError \<or> r = Inr () \<and> queue py (outbox_of (persistence s')) = messages py s)"
  using persist_at_shutdown_effect [OF assms] by auto

theorem shutdown_persists_witness:
  "\<exists>r s'. persist_at_shutdown sample_python sample_sender = (r, s')
     \<and> messages sample_python s' = [canon_message sample_message]"
proof -
  obtain r s' where r: "persist_at_shutdown sample_python sample_sender = (r, s')"
    by (cases "persist_at_shutdown sample_python sample_sender")
  with shutdown_persists [OF sample_sender_facts(1) r] sample_sender_facts(2) show ?thesis by simp
qed

end
