(* ===== verification/Construction.thy ===== *)
theory Construction
  imports SenderSamples OutboxProperties
begin

text \<open>
  Building an Outbox and a Sender from their arguments: \<^verbatim>\<open>Outbox.__init__\<close> and \<^verbatim>\<open>Sender.__init__\<close>,
  over the places that paths name. A Sender built on whatever an earlier one left behind owes what
  was left.
\<close>

section \<open>The arguments of an Outbox\<close>








section \<open>The arguments of a Sender\<close>




section \<open>A path printed and parsed\<close>















section \<open>What a place still owes\<close>







section \<open>A Sender on what was left\<close>





end
