(* ===== verification/Relay.thy ===== *)
theory Relay
  imports Config Mqtt Persistence
begin

text \<open>
  The Relay (\<^verbatim>\<open>src/reliomq/relay.py\<close>): it takes messages from a source broker into a bounded queue
  in RAM, and a worker publishes each on the destination broker and then its DeliveryAck on the
  source broker. The methods are functions on the Relay's state, cut where a method calls into
  Paho or waits, for there the other threads run. Theory RelaySystem interleaves them.
\<close>

section \<open>State\<close>

text \<open>
  \<open>tasks\<close> is the content of the \<^verbatim>\<open>queue.Queue\<close> and \<open>unfinished\<close> its count of tasks not yet done.
  A worker is a thread number, see theory RelaySystem.
\<close>

record relay =
  rl_config :: relay_config
  source_client_id :: pystr
  destination_client_id :: pystr
  source_connected :: bool
  source_subscription_ready :: bool
  destination_connected :: bool
  accepting :: bool
  rl_stop_event :: bool
  tasks :: "message_envelope list"
  unfinished :: nat
  rl_subscription_mid :: "int option"
  next_subscription_retry :: time
  running :: bool
  rl_worker :: "nat option"

definition generated_client_id :: "string \<Rightarrow> 128 word \<Rightarrow> pystr" where
  "generated_client_id role uuid =
     ustr ''mr-relay-'' @ ustr role @ ustr ''-'' @ take 8 (new_message_id uuid)"

definition client_id_or :: "pystr option \<Rightarrow> pystr \<Rightarrow> pystr" where
  "client_id_or given_id generated =
     (case given_id of None \<Rightarrow> generated | Some i \<Rightarrow> if i = [] then generated else i)"

text \<open>
  The constructor. \<open>same_client\<close> tells whether the factories returned one client for both sides;
  the UUIDs are those of the generated client ids.
\<close>

definition new_relay :: "relay_config \<Rightarrow> 128 word \<Rightarrow> 128 word \<Rightarrow> bool \<Rightarrow> py_error + relay" where
  "new_relay config source_uuid destination_uuid same_client =
     (if same_client then Inl ValueError
      else Inr \<lparr>rl_config = config,
        source_client_id =
          client_id_or (rc_source_client_id config) (generated_client_id ''src'' source_uuid),
        destination_client_id =
          client_id_or (rc_destination_client_id config) (generated_client_id ''dst'' destination_uuid),
        source_connected = False, source_subscription_ready = False, destination_connected = False,
        accepting = False, rl_stop_event = False, tasks = [], unfinished = 0,
        rl_subscription_mid = None, next_subscription_retry = 0, running = False, rl_worker = None\<rparr>)"

section \<open>The queue\<close>

text \<open>\<^verbatim>\<open>put_nowait\<close>, \<^verbatim>\<open>get\<close> on a queue that is not empty, and \<^verbatim>\<open>task_done\<close> of \<^verbatim>\<open>queue.Queue\<close>.\<close>

definition queue_full :: "relay \<Rightarrow> bool" where
  "queue_full r \<longleftrightarrow>
     0 < rc_max_queue_size (rl_config r) \<and> rc_max_queue_size (rl_config r) \<le> int (length (tasks r))"

definition put_task :: "message_envelope \<Rightarrow> relay \<Rightarrow> relay" where
  "put_task e r = r\<lparr>tasks := tasks r @ [e], unfinished := unfinished r + 1\<rparr>"

definition get_task :: "relay \<Rightarrow> (message_envelope \<times> relay) option" where
  "get_task r = (case tasks r of [] \<Rightarrow> None | e # q \<Rightarrow> Some (e, r\<lparr>tasks := q\<rparr>))"

definition task_done :: "relay \<Rightarrow> py_error + relay" where
  "task_done r = (if unfinished r = 0 then Inl ValueError else Inr (r\<lparr>unfinished := unfinished r - 1\<rparr>))"

section \<open>Connection and subscription callbacks\<close>

definition reset_subscription :: "relay \<Rightarrow> relay" where
  "reset_subscription r =
     r\<lparr>source_subscription_ready := False, rl_subscription_mid := None, next_subscription_retry := 0\<rparr>"

text \<open>Up to the request of the subscription; the Boolean tells whether it is requested.\<close>

definition on_source_connect :: "reason_code \<Rightarrow> relay \<Rightarrow> bool \<times> relay" where
  "on_source_connect rc r =
     (let r1 = reset_subscription r; ok = reason_code_is_success rc
      in (ok, r1\<lparr>source_connected := ok\<rparr>))"

definition on_source_connect_fail :: "relay \<Rightarrow> relay" where
  "on_source_connect_fail r = reset_subscription (r\<lparr>source_connected := False\<rparr>)"

definition on_source_disconnect :: "relay \<Rightarrow> relay" where
  "on_source_disconnect r = reset_subscription (r\<lparr>source_connected := False\<rparr>)"

definition on_destination_connect :: "reason_code \<Rightarrow> relay \<Rightarrow> relay" where
  "on_destination_connect rc r = r\<lparr>destination_connected := reason_code_is_success rc\<rparr>"

definition on_destination_connect_fail :: "relay \<Rightarrow> relay" where
  "on_destination_connect_fail r = r\<lparr>destination_connected := False\<rparr>"

definition on_destination_disconnect :: "relay \<Rightarrow> relay" where
  "on_destination_disconnect r = r\<lparr>destination_connected := False\<rparr>"

text \<open>
  \<^verbatim>\<open>_request_source_subscription\<close> at time \<open>t\<close> up to the call of \<^verbatim>\<open>subscribe\<close> (\<open>True\<close>: the call is
  made), and after it. Packet id -1 stands for the id the call has not returned yet.
\<close>

definition relay_retry_units :: "relay \<Rightarrow> time" where
  "relay_retry_units r = float_units (rc_retry_interval (rl_config r))"

definition request_source_begin :: "time \<Rightarrow> relay \<Rightarrow> bool \<times> relay" where
  "request_source_begin t r =
     (if \<not> accepting r \<or> \<not> source_connected r \<or> source_subscription_ready r then (False, r)
      else if t < next_subscription_retry r then (False, r)
      else (True, r\<lparr>rl_subscription_mid := Some (-1),
              next_subscription_retry := t + relay_retry_units r\<rparr>))"

definition request_source_end :: "subscribe_answer \<Rightarrow> relay \<Rightarrow> relay" where
  "request_source_end answer r =
     (case answer of
        SubscribeRaised \<Rightarrow> r\<lparr>rl_subscription_mid := None\<rparr>
      | SubscribeResult rc mid \<Rightarrow>
          if rc \<noteq> MQTT_ERR_SUCCESS then r\<lparr>rl_subscription_mid := None\<rparr>
          else if rl_subscription_mid r = Some (-1) then r\<lparr>rl_subscription_mid := Some mid\<rparr> else r)"

definition on_source_subscribe :: "int \<Rightarrow> suback \<Rightarrow> time \<Rightarrow> relay \<Rightarrow> relay" where
  "on_source_subscribe mid codes t r =
     (if rl_subscription_mid r \<noteq> Some (-1) \<and> rl_subscription_mid r \<noteq> Some mid then r
      else if suback_is_success codes \<and> source_connected r
      then r\<lparr>rl_subscription_mid := None, next_subscription_retry := 0, source_subscription_ready := True\<rparr>
      else r\<lparr>rl_subscription_mid := None, next_subscription_retry := t + relay_retry_units r,
             source_subscription_ready := False\<rparr>)"

text \<open>Whether \<^verbatim>\<open>_retry_source_subscription_if_due\<close> requests the subscription at time \<open>t\<close>.\<close>

definition source_retry_due :: "time \<Rightarrow> relay \<Rightarrow> bool" where
  "source_retry_due t r \<longleftrightarrow>
     source_connected r \<and> \<not> source_subscription_ready r
     \<and> (next_subscription_retry r = 0 \<or> next_subscription_retry r \<le> t)"

section \<open>Intake\<close>

text \<open>
  \<^verbatim>\<open>_on_source_message\<close>: the checks and the decoding, and then the acceptance under
  \<^verbatim>\<open>_intake_lock\<close>. An envelope that cannot be decoded, for whatever error, is ignored.
\<close>

definition intake_decode :: "python \<Rightarrow> pystr \<Rightarrow> bytes \<Rightarrow> relay \<Rightarrow> message_envelope option" where
  "intake_decode py topic payload r =
     (if \<not> accepting r then None
      else if \<not> source_subscription_ready r then None
      else if topic \<noteq> rc_relay_topic (rl_config r) then None
      else (case decode_message py (WBytes payload) of Inl _ \<Rightarrow> None | Inr e \<Rightarrow> Some e))"

definition intake_accept :: "message_envelope \<Rightarrow> relay \<Rightarrow> bool \<times> relay" where
  "intake_accept e r =
     (if \<not> accepting r \<or> \<not> source_subscription_ready r then (False, r)
      else if queue_full r then (False, r)
      else (True, put_task e r))"

section \<open>Forwarding\<close>

text \<open>\<open>client\<close> is what \<^verbatim>\<open>client.is_connected()\<close> answers, \<open>None\<close> when it raises.\<close>

definition client_is_up :: "bool option \<Rightarrow> bool \<Rightarrow> bool" where
  "client_is_up client event \<longleftrightarrow> event \<and> client = Some True"

text \<open>
  \<^verbatim>\<open>_forward_once\<close> is cut at its two publishes. A part ends the attempt, or hands over the topic
  and the payload to publish. The constructors \<^verbatim>\<open>DeliveryEnvelope\<close> and \<^verbatim>\<open>DeliveryAck\<close> run with an
  id and the default version.
\<close>

datatype forward_move = NotForwarded | ToPublish pystr bytes

definition forward_begin :: "python \<Rightarrow> bool option \<Rightarrow> message_envelope \<Rightarrow> relay \<Rightarrow> forward_move" where
  "forward_begin py client e r =
     (if \<not> client_is_up client (destination_connected r) then NotForwarded
      else (case bindE (DeliveryEnvelope py (PStr (msg_id e)) (msg_payload e) (PInt PROTOCOL_VERSION))
                   (encode_delivery py) of
              Inl _ \<Rightarrow> NotForwarded
            | Inr delivery_payload \<Rightarrow> ToPublish (msg_topic e) delivery_payload))"

definition forward_published ::
  "python \<Rightarrow> publish_answer \<Rightarrow> bool option \<Rightarrow> message_envelope \<Rightarrow> relay \<Rightarrow> forward_move" where
  "forward_published py answer client e r =
     (if \<not> confirmed_publish answer then NotForwarded
      else if \<not> client_is_up client (source_connected r) then NotForwarded
      else (case bindE (DeliveryAck (PStr (msg_id e)) (PInt PROTOCOL_VERSION)) (encode_ack py) of
              Inl _ \<Rightarrow> NotForwarded
            | Inr ack_payload \<Rightarrow> ToPublish (rc_delivery_ack_topic (rl_config r)) ack_payload))"

text \<open>
  The whole attempt. \<open>relay_calls\<close> is what the clients answer, and what the other threads do to
  the Relay until a publish is confirmed.
\<close>

record relay_calls =
  destination_is_connected :: "relay \<Rightarrow> bool option"
  destination_publish :: "pystr \<Rightarrow> bytes \<Rightarrow> relay \<Rightarrow> publish_answer \<times> relay"
  source_is_connected :: "relay \<Rightarrow> bool option"
  source_publish :: "pystr \<Rightarrow> bytes \<Rightarrow> relay \<Rightarrow> publish_answer \<times> relay"

definition forward_once :: "python \<Rightarrow> relay_calls \<Rightarrow> message_envelope \<Rightarrow> relay \<Rightarrow> bool \<times> relay" where
  "forward_once py calls e r =
     (case forward_begin py (destination_is_connected calls r) e r of
        NotForwarded \<Rightarrow> (False, r)
      | ToPublish topic payload \<Rightarrow>
          (case destination_publish calls topic payload r of (answer, r1) \<Rightarrow>
             (case forward_published py answer (source_is_connected calls r1) e r1 of
                NotForwarded \<Rightarrow> (False, r1)
              | ToPublish ack_topic ack_payload \<Rightarrow>
                  (case source_publish calls ack_topic ack_payload r1 of
                     (ack_answer, r2) \<Rightarrow> (confirmed_publish ack_answer, r2)))))"

section \<open>Lifecycle\<close>

text \<open>The locked section of \<^verbatim>\<open>start\<close>; \<open>w\<close> is the number of the new thread.\<close>

definition start_begin :: "nat \<Rightarrow> relay \<Rightarrow> bool \<times> relay" where
  "start_begin w r =
     (if running r then (False, r)
      else (True, r\<lparr>running := True, rl_stop_event := False, accepting := True, rl_worker := Some w\<rparr>))"

text \<open>The calls answer with a result, or raise.\<close>

definition connect_and_start_loop ::
  "py_error + int option \<Rightarrow> py_error + int option \<Rightarrow> py_error + unit" where
  "connect_and_start_loop connect_async_answer loop_start_answer =
     bindE connect_async_answer (\<lambda>connect_result.
       if \<not> accepted_result connect_result then Inl RuntimeError
       else bindE loop_start_answer (\<lambda>loop_result.
              if \<not> accepted_result loop_result then Inl RuntimeError else Inr ()))"

text \<open>
  \<^verbatim>\<open>stop\<close>: the locked section, which hands the worker to join to the rest; one pass of the loop
  that abandons the queued tasks (\<open>None\<close>: the queue is empty); and the end, after the clients
  were disconnected.
\<close>

definition stop_begin :: "relay \<Rightarrow> (nat option \<times> relay) option" where
  "stop_begin r =
     (if \<not> running r then None
      else Some (rl_worker r, r\<lparr>running := False, accepting := False,
                   source_subscription_ready := False, rl_stop_event := True\<rparr>))"

definition abandon_task :: "relay \<Rightarrow> (message_envelope \<times> (py_error + unit) \<times> relay) option" where
  "abandon_task r =
     (case get_task r of
        None \<Rightarrow> None
      | Some (e, r1) \<Rightarrow>
          Some (e, case task_done r1 of Inl x \<Rightarrow> (Inl x, r1) | Inr r2 \<Rightarrow> (Inr (), r2)))"

definition stop_end :: "relay \<Rightarrow> relay" where
  "stop_end r =
     (reset_subscription (r\<lparr>source_connected := False, destination_connected := False\<rparr>))\<lparr>rl_worker := None\<rparr>"

end
