(* ===== verification/RelaySystem.thy ===== *)
theory RelaySystem
  imports Relay
begin

text \<open>
  The threads of a Relay (\<^verbatim>\<open>src/reliomq/relay.py\<close>) as one event system: the workers
  (\<^verbatim>\<open>_worker_main\<close>), the network thread of the source client, which runs its callbacks, that of the
  destination client, and the threads that call \<^verbatim>\<open>start\<close> and \<^verbatim>\<open>stop\<close>. An action is one step of one
  thread, together with what Paho or the clock answers there; every order of actions is a run.
  The history says what was received, queued and published, oldest first.
\<close>

section \<open>Threads and history\<close>

text \<open>A worker holds a message from \<^verbatim>\<open>get\<close> to \<^verbatim>\<open>task_done\<close>. It dies of an exception of \<^verbatim>\<open>task_done\<close>.\<close>

datatype worker_phase =
    LoopHead | Requesting | Subscribing | Polling
  | Holding message_envelope | Forwarding message_envelope
  | AtDestination message_envelope | AtSource message_envelope
  | WorkerExited | WorkerDied

datatype network_phase = NetIdle | NetRequesting | NetSubscribing | NetDecoded message_envelope

datatype caller_phase =
    Outside | ConnectingDestination | ConnectingSource | StopEntered
  | Joining "nat option" | Abandoning | Disconnecting

datatype relay_event =
    Received bytes
  | Queued message_envelope
  | Removed message_envelope
  | DestinationPublish message_envelope pystr bytes
  | DestinationConfirmed message_envelope
  | AckPublish message_envelope pystr bytes
  | AckConfirmed message_envelope

record relay_system =
  rs_relay :: relay
  rs_workers :: "worker_phase list"
  rs_network :: network_phase
  rs_callers :: "nat \<Rightarrow> caller_phase"
  rs_history :: "relay_event list"

definition initial_system :: "relay \<Rightarrow> relay_system" where
  "initial_system r = \<lparr>rs_relay = r, rs_workers = [], rs_network = NetIdle,
     rs_callers = (\<lambda>_. Outside), rs_history = []\<rparr>"

section \<open>The worker\<close>

datatype worker_input =
    AtTime time
  | Subscribed subscribe_answer
  | TaskReady
  | GetTimedOut
  | CheckStop
  | CheckDestination "bool option"
  | DestinationAnswer publish_answer "bool option"
  | AckAnswer publish_answer

definition finish_task ::
  "relay_event list \<Rightarrow> relay \<Rightarrow> (worker_phase \<times> relay \<times> relay_event list) option" where
  "finish_task events r =
     (case task_done r of Inl _ \<Rightarrow> Some (WorkerDied, r, events) | Inr r1 \<Rightarrow> Some (LoopHead, r1, events))"

definition worker_act ::
  "python \<Rightarrow> worker_input \<Rightarrow> worker_phase \<Rightarrow> relay \<Rightarrow> (worker_phase \<times> relay \<times> relay_event list) option"
where
  "worker_act py inp ph r =
     (case ph of
        LoopHead \<Rightarrow> (case inp of
          AtTime t \<Rightarrow>
            Some (if rl_stop_event r then WorkerExited
                  else if source_retry_due t r then Requesting else Polling, r, [])
        | _ \<Rightarrow> None)
      | Requesting \<Rightarrow> (case inp of
          AtTime t \<Rightarrow>
            (case request_source_begin t r of (b, r1) \<Rightarrow> Some (if b then Subscribing else Polling, r1, []))
        | _ \<Rightarrow> None)
      | Subscribing \<Rightarrow> (case inp of
          Subscribed answer \<Rightarrow> Some (Polling, request_source_end answer r, [])
        | _ \<Rightarrow> None)
      | Polling \<Rightarrow> (case inp of
          TaskReady \<Rightarrow> (case get_task r of None \<Rightarrow> None | Some (e, r1) \<Rightarrow> Some (Holding e, r1, [Removed e]))
        | GetTimedOut \<Rightarrow> if tasks r = [] then Some (LoopHead, r, []) else None
        | _ \<Rightarrow> None)
      | Holding e \<Rightarrow> (case inp of
          CheckStop \<Rightarrow> if rl_stop_event r then finish_task [] r else Some (Forwarding e, r, [])
        | _ \<Rightarrow> None)
      | Forwarding e \<Rightarrow> (case inp of
          CheckDestination client \<Rightarrow>
            (case forward_begin py client e r of
               NotForwarded \<Rightarrow> finish_task [] r
             | ToPublish topic payload \<Rightarrow> Some (AtDestination e, r, [DestinationPublish e topic payload]))
        | _ \<Rightarrow> None)
      | AtDestination e \<Rightarrow> (case inp of
          DestinationAnswer answer client \<Rightarrow>
            (let events = (if confirmed_publish answer then [DestinationConfirmed e] else [])
             in (case forward_published py answer client e r of
                   NotForwarded \<Rightarrow> finish_task events r
                 | ToPublish topic payload \<Rightarrow> Some (AtSource e, r, events @ [AckPublish e topic payload])))
        | _ \<Rightarrow> None)
      | AtSource e \<Rightarrow> (case inp of
          AckAnswer answer \<Rightarrow> finish_task (if confirmed_publish answer then [AckConfirmed e] else []) r
        | _ \<Rightarrow> None)
      | WorkerExited \<Rightarrow> None
      | WorkerDied \<Rightarrow> None)"

section \<open>The callers of start and stop\<close>

text \<open>
  \<open>Joined in_time\<close> ends the join: in time only when the worker has ended (\<open>False\<close>: the time limit
  passed). A failing start runs \<^verbatim>\<open>stop\<close> before it raises.
\<close>

datatype caller_input =
    CallStart
  | CallStop
  | ConnectAnswers "py_error + int option" "py_error + int option"
  | Joined bool
  | AbandonNext
  | ClientsDisconnected

definition worker_ended :: "worker_phase \<Rightarrow> bool" where
  "worker_ended ph \<longleftrightarrow> ph = WorkerExited \<or> ph = WorkerDied"

definition enter_stop :: "relay_system \<Rightarrow> caller_phase \<times> relay_system" where
  "enter_stop s =
     (case stop_begin (rs_relay s) of
        None \<Rightarrow> (Outside, s) | Some (w, r) \<Rightarrow> (Joining w, s\<lparr>rs_relay := r\<rparr>))"

definition caller_act :: "caller_input \<Rightarrow> caller_phase \<Rightarrow> relay_system \<Rightarrow> (caller_phase \<times> relay_system) option" where
  "caller_act inp ph s =
     (case inp of
        CallStart \<Rightarrow>
          if ph \<noteq> Outside then None
          else (case start_begin (length (rs_workers s)) (rs_relay s) of
                  (started_now, r) \<Rightarrow>
                    if \<not> started_now then Some (Outside, s)
                    else Some (ConnectingDestination,
                           s\<lparr>rs_relay := r, rs_workers := rs_workers s @ [LoopHead]\<rparr>))
      | CallStop \<Rightarrow> if ph = Outside \<or> ph = StopEntered then Some (enter_stop s) else None
      | ConnectAnswers c l \<Rightarrow>
          (let ok = (connect_and_start_loop c l = Inr ())
           in if ph = ConnectingDestination then Some (if ok then ConnectingSource else StopEntered, s)
              else if ph = ConnectingSource then Some (if ok then Outside else StopEntered, s)
              else None)
      | Joined in_time \<Rightarrow>
          (case ph of
             Joining None \<Rightarrow> Some (Abandoning, s)
           | Joining (Some w) \<Rightarrow>
               if in_time \<and> \<not> worker_ended (rs_workers s ! w) then None else Some (Abandoning, s)
           | _ \<Rightarrow> None)
      | AbandonNext \<Rightarrow>
          if ph \<noteq> Abandoning then None
          else (case abandon_task (rs_relay s) of
                  None \<Rightarrow> Some (Disconnecting, s)
                | Some (e, result, r) \<Rightarrow>
                    Some (case result of Inl _ \<Rightarrow> Outside | Inr _ \<Rightarrow> Abandoning,
                          s\<lparr>rs_relay := r, rs_history := rs_history s @ [Removed e]\<rparr>))
      | ClientsDisconnected \<Rightarrow>
          if ph \<noteq> Disconnecting then None else Some (Outside, s\<lparr>rs_relay := stop_end (rs_relay s)\<rparr>))"

section \<open>Actions\<close>

datatype relay_action =
    SourceConnect reason_code
  | SourceConnectFail
  | SourceDisconnect
  | SourceSubscribe int suback time
  | NetworkRequest time
  | NetworkSubscribed subscribe_answer
  | SourceMessage pystr bytes
  | AcceptDecoded
  | DestinationConnect reason_code
  | DestinationConnectFail
  | DestinationDisconnect
  | WorkerStep nat worker_input
  | CallerStep nat caller_input

definition on_relay :: "(relay \<Rightarrow> relay) \<Rightarrow> relay_system \<Rightarrow> relay_system" where
  "on_relay f s = s\<lparr>rs_relay := f (rs_relay s)\<rparr>"

text \<open>
  A SUBACK may come while a thread is still inside \<^verbatim>\<open>subscribe\<close>; the other callbacks of the source
  client find its network thread idle.
\<close>

fun relay_act :: "python \<Rightarrow> relay_action \<Rightarrow> relay_system \<Rightarrow> relay_system option" where
  "relay_act py (SourceConnect rc) s =
     (if rs_network s \<noteq> NetIdle then None
      else (case on_source_connect rc (rs_relay s) of
              (b, r) \<Rightarrow> Some (s\<lparr>rs_relay := r, rs_network := (if b then NetRequesting else NetIdle)\<rparr>)))"
| "relay_act py SourceConnectFail s =
     (if rs_network s \<noteq> NetIdle then None else Some (on_relay on_source_connect_fail s))"
| "relay_act py SourceDisconnect s =
     (if rs_network s \<noteq> NetIdle then None else Some (on_relay on_source_disconnect s))"
| "relay_act py (SourceSubscribe mid codes t) s =
     (if rs_network s \<noteq> NetIdle \<and> rs_network s \<noteq> NetSubscribing then None
      else Some (on_relay (on_source_subscribe mid codes t) s))"
| "relay_act py (NetworkRequest t) s =
     (if rs_network s \<noteq> NetRequesting then None
      else (case request_source_begin t (rs_relay s) of
              (b, r) \<Rightarrow> Some (s\<lparr>rs_relay := r, rs_network := (if b then NetSubscribing else NetIdle)\<rparr>)))"
| "relay_act py (NetworkSubscribed answer) s =
     (if rs_network s \<noteq> NetSubscribing then None
      else Some ((on_relay (request_source_end answer) s)\<lparr>rs_network := NetIdle\<rparr>))"
| "relay_act py (SourceMessage topic payload) s =
     (if rs_network s \<noteq> NetIdle then None
      else Some (s\<lparr>rs_history := rs_history s @ [Received payload],
                   rs_network := (case intake_decode py topic payload (rs_relay s) of
                                    None \<Rightarrow> NetIdle | Some e \<Rightarrow> NetDecoded e)\<rparr>))"
| "relay_act py AcceptDecoded s =
     (case rs_network s of
        NetDecoded e \<Rightarrow>
          (case intake_accept e (rs_relay s) of
             (queued, r) \<Rightarrow> Some (s\<lparr>rs_relay := r, rs_network := NetIdle,
                               rs_history := rs_history s @ (if queued then [Queued e] else [])\<rparr>))
      | _ \<Rightarrow> None)"
| "relay_act py (DestinationConnect rc) s = Some (on_relay (on_destination_connect rc) s)"
| "relay_act py DestinationConnectFail s = Some (on_relay on_destination_connect_fail s)"
| "relay_act py DestinationDisconnect s = Some (on_relay on_destination_disconnect s)"
| "relay_act py (WorkerStep w inp) s =
     (if length (rs_workers s) \<le> w then None
      else (case worker_act py inp (rs_workers s ! w) (rs_relay s) of
              None \<Rightarrow> None
            | Some (ph, r, events) \<Rightarrow>
                Some (s\<lparr>rs_relay := r, rs_workers := (rs_workers s)[w := ph],
                        rs_history := rs_history s @ events\<rparr>)))"
| "relay_act py (CallerStep c inp) s =
     (case caller_act inp (rs_callers s c) s of
        None \<Rightarrow> None
      | Some (ph, s1) \<Rightarrow> Some (s1\<lparr>rs_callers := (rs_callers s1)(c := ph)\<rparr>))"

section \<open>Runs\<close>

text \<open>The systems reached from a new Relay by actions that satisfy \<open>allowed\<close>.\<close>

inductive relay_reach :: "python \<Rightarrow> (relay_action \<Rightarrow> bool) \<Rightarrow> relay_system \<Rightarrow> relay_system \<Rightarrow> bool"
  for py :: python and allowed :: "relay_action \<Rightarrow> bool" and s0 :: relay_system where
  reach_start: "relay_reach py allowed s0 s0"
| reach_step: "relay_reach py allowed s0 s \<Longrightarrow> allowed a \<Longrightarrow> relay_act py a s = Some s' \<Longrightarrow>
    relay_reach py allowed s0 s'"

definition relay_reachable :: "python \<Rightarrow> relay \<Rightarrow> relay_system \<Rightarrow> bool" where
  "relay_reachable py r = relay_reach py (\<lambda>_. True) (initial_system r)"

fun relay_acts :: "python \<Rightarrow> relay_action list \<Rightarrow> relay_system \<Rightarrow> relay_system option" where
  "relay_acts py [] s = Some s"
| "relay_acts py (a # later) s =
     (case relay_act py a s of None \<Rightarrow> None | Some s1 \<Rightarrow> relay_acts py later s1)"

lemma reach_acts:
  "relay_reach py allowed s0 s \<Longrightarrow> list_all allowed acts \<Longrightarrow> relay_acts py acts s = Some s' \<Longrightarrow>
    relay_reach py allowed s0 s'"
  by (induction acts arbitrary: s) (auto split: option.splits intro: reach_step)

end
