(* ===== verification/RelayFacts.thy ===== *)
theory RelayFacts
  imports RelaySystem ProtocolFacts
begin

text \<open>
  Invariants of the threads of a Relay. Every event of the history has its cause earlier in it:
  a DeliveryAck is published only after the destination confirmed the message, which was decoded
  from a received payload and queued. The queue is bounded, is first in first out, and its count
  of unfinished tasks is exact, so \<^verbatim>\<open>task_done\<close> never raises.
\<close>

section \<open>Histories\<close>

definition justified :: "('a list \<Rightarrow> 'a \<Rightarrow> bool) \<Rightarrow> 'a list \<Rightarrow> bool" where
  "justified cause h \<longleftrightarrow> (\<forall>xs x ys. h = xs @ x # ys \<longrightarrow> cause xs x)"

lemma justified_Nil [simp]: "justified cause []"
  by (simp add: justified_def)

lemma justified_snoc [simp]: "justified cause (h @ [x]) \<longleftrightarrow> justified cause h \<and> cause h x"
proof
  assume j: "justified cause (h @ [x])"
  have "cause xs y" if "h = xs @ y # ys" for xs y ys
    using j [unfolded justified_def, rule_format, of xs y "ys @ [x]"] that by simp
  moreover have "cause h x" using j [unfolded justified_def, rule_format, of h x "[]"] by simp
  ultimately show "justified cause h \<and> cause h x" by (simp add: justified_def)
next
  assume j: "justified cause h \<and> cause h x"
  show "justified cause (h @ [x])" unfolding justified_def
  proof (intro allI impI)
    fix xs y ys assume e: "h @ [x] = xs @ y # ys"
    show "cause xs y"
    proof (cases ys rule: rev_cases)
      case Nil with e j show ?thesis by simp
    next
      case (snoc zs z) with e have "h = xs @ y # zs" by simp
      with j show ?thesis by (auto simp: justified_def)
    qed
  qed
qed

lemma justifiedD: "justified cause h \<Longrightarrow> h = xs @ x # ys \<Longrightarrow> cause xs x"
  by (simp add: justified_def)

fun queued_event :: "relay_event \<Rightarrow> message_envelope list" where
  "queued_event (Queued e) = [e]"
| "queued_event _ = []"

fun removed_event :: "relay_event \<Rightarrow> message_envelope list" where
  "removed_event (Removed e) = [e]"
| "removed_event _ = []"

definition queued_of :: "relay_event list \<Rightarrow> message_envelope list" where
  "queued_of h = concat (map queued_event h)"

definition removed_of :: "relay_event list \<Rightarrow> message_envelope list" where
  "removed_of h = concat (map removed_event h)"

lemma queue_histories [simp]:
  "queued_of [] = []" "queued_of (h @ h') = queued_of h @ queued_of h'"
  "queued_of (x # h) = queued_event x @ queued_of h"
  "removed_of [] = []" "removed_of (h @ h') = removed_of h @ removed_of h'"
  "removed_of (x # h) = removed_event x @ removed_of h"
  by (simp_all add: queued_of_def removed_of_def)

lemma queued_event_mem: "e \<in> set (queued_event x) \<longleftrightarrow> x = Queued e"
  by (cases x) auto

lemma queued_of_mem: "e \<in> set (queued_of h) \<longleftrightarrow> Queued e \<in> set h"
  by (auto simp: queued_of_def queued_event_mem)

section \<open>Causes\<close>

definition decoded_from :: "python \<Rightarrow> relay_event list \<Rightarrow> message_envelope \<Rightarrow> bool" where
  "decoded_from py h e \<longleftrightarrow> (\<exists>payload. Received payload \<in> set h \<and> decode_message py (WBytes payload) = Inr e)"

definition delivery_payload_of :: "python \<Rightarrow> message_envelope \<Rightarrow> bytes \<Rightarrow> bool" where
  "delivery_payload_of py e payload \<longleftrightarrow>
     bindE (DeliveryEnvelope py (PStr (msg_id e)) (msg_payload e) (PInt PROTOCOL_VERSION))
       (encode_delivery py) = Inr payload"

definition ack_payload_of :: "python \<Rightarrow> message_envelope \<Rightarrow> bytes \<Rightarrow> bool" where
  "ack_payload_of py e payload \<longleftrightarrow>
     bindE (DeliveryAck (PStr (msg_id e)) (PInt PROTOCOL_VERSION)) (encode_ack py) = Inr payload"

definition cause :: "python \<Rightarrow> relay_config \<Rightarrow> relay_event list \<Rightarrow> relay_event \<Rightarrow> bool" where
  "cause py c h ev =
     (case ev of
        Received _ \<Rightarrow> True
      | Queued e \<Rightarrow> decoded_from py h e
      | Removed e \<Rightarrow> Queued e \<in> set h
      | DestinationPublish e topic payload \<Rightarrow>
          Removed e \<in> set h \<and> topic = msg_topic e \<and> delivery_payload_of py e payload
      | DestinationConfirmed e \<Rightarrow> \<exists>payload. DestinationPublish e (msg_topic e) payload \<in> set h
      | AckPublish e topic payload \<Rightarrow>
          DestinationConfirmed e \<in> set h \<and> topic = rc_delivery_ack_topic c \<and> ack_payload_of py e payload
      | AckConfirmed e \<Rightarrow> \<exists>payload. AckPublish e (rc_delivery_ack_topic c) payload \<in> set h)"

text \<open>What a worker in the middle of an attempt has behind it.\<close>

definition worker_caused :: "relay_config \<Rightarrow> relay_event list \<Rightarrow> worker_phase \<Rightarrow> bool" where
  "worker_caused c h ph =
     (case ph of
        Holding e \<Rightarrow> Removed e \<in> set h
      | Forwarding e \<Rightarrow> Removed e \<in> set h
      | AtDestination e \<Rightarrow> \<exists>payload. DestinationPublish e (msg_topic e) payload \<in> set h
      | AtSource e \<Rightarrow> \<exists>payload. AckPublish e (rc_delivery_ack_topic c) payload \<in> set h
      | _ \<Rightarrow> True)"

lemma worker_caused_append: "worker_caused c h ph \<Longrightarrow> worker_caused c (h @ h') ph"
  by (auto simp: worker_caused_def split: worker_phase.splits)

definition holding :: "worker_phase \<Rightarrow> bool" where
  "holding ph = (case ph of Holding _ \<Rightarrow> True | Forwarding _ \<Rightarrow> True | AtDestination _ \<Rightarrow> True
     | AtSource _ \<Rightarrow> True | _ \<Rightarrow> False)"

lemma holding_simps [simp]:
  "holding (Holding e)" "holding (Forwarding e)" "holding (AtDestination e)" "holding (AtSource e)"
  "\<not> holding LoopHead" "\<not> holding Requesting" "\<not> holding Subscribing" "\<not> holding Polling"
  "\<not> holding WorkerExited" "\<not> holding WorkerDied"
  by (simp_all add: holding_def)

definition count_holding :: "worker_phase list \<Rightarrow> nat" where
  "count_holding ws = length (filter holding ws)"

lemma count_holding_simps [simp]:
  "count_holding [] = 0" "count_holding (ws @ [ph]) = count_holding ws + (if holding ph then 1 else 0)"
  by (simp_all add: count_holding_def)

lemma count_holding_update:
  "w < length ws \<Longrightarrow>
    count_holding (ws[w := ph]) + (if holding (ws ! w) then 1 else 0)
      = count_holding ws + (if holding ph then 1 else 0)"
proof (induction ws arbitrary: w)
  case (Cons x ws) then show ?case by (cases w) (auto simp: count_holding_def)
qed simp

section \<open>The invariant\<close>

definition network_caused :: "python \<Rightarrow> relay_event list \<Rightarrow> network_phase \<Rightarrow> bool" where
  "network_caused py h n = (case n of NetDecoded e \<Rightarrow> decoded_from py h e | _ \<Rightarrow> True)"

definition tasks_bounded :: "relay \<Rightarrow> bool" where
  "tasks_bounded r \<longleftrightarrow>
     (0 < rc_max_queue_size (rl_config r) \<longrightarrow> int (length (tasks r)) \<le> rc_max_queue_size (rl_config r))"

definition relay_inv :: "python \<Rightarrow> relay_config \<Rightarrow> relay_system \<Rightarrow> bool" where
  "relay_inv py c s \<longleftrightarrow>
     rl_config (rs_relay s) = c
     \<and> unfinished (rs_relay s) = length (tasks (rs_relay s)) + count_holding (rs_workers s)
     \<and> tasks_bounded (rs_relay s)
     \<and> queued_of (rs_history s) = removed_of (rs_history s) @ tasks (rs_relay s)
     \<and> list_all (worker_caused c (rs_history s)) (rs_workers s)
     \<and> WorkerDied \<notin> set (rs_workers s)
     \<and> network_caused py (rs_history s) (rs_network s)
     \<and> justified (cause py c) (rs_history s)"

text \<open>The methods that leave the queue alone.\<close>

definition same_tasks :: "relay \<Rightarrow> relay \<Rightarrow> bool" where
  "same_tasks r r' \<longleftrightarrow> rl_config r' = rl_config r \<and> tasks r' = tasks r \<and> unfinished r' = unfinished r"

lemma same_tasks_refl [simp]: "same_tasks r r"
  by (simp add: same_tasks_def)

lemma same_tasks_methods:
  "same_tasks r (snd (on_source_connect rc r))" "same_tasks r (on_source_connect_fail r)"
  "same_tasks r (on_source_disconnect r)" "same_tasks r (on_destination_connect rc r)"
  "same_tasks r (on_destination_connect_fail r)" "same_tasks r (on_destination_disconnect r)"
  "same_tasks r (snd (request_source_begin t r))" "same_tasks r (request_source_end answer r)"
  "same_tasks r (on_source_subscribe mid codes t r)" "same_tasks r (snd (start_begin w r))"
  "same_tasks r (stop_end r)"
  by (auto simp: same_tasks_def on_source_connect_def on_source_connect_fail_def reset_subscription_def
      on_source_disconnect_def on_destination_connect_def on_destination_connect_fail_def Let_def
      on_destination_disconnect_def request_source_begin_def request_source_end_def
      on_source_subscribe_def start_begin_def stop_end_def split: subscribe_answer.splits)

lemma same_tasks_stop: "stop_begin r = Some (w, r') \<Longrightarrow> same_tasks r r'"
  by (auto simp: stop_begin_def same_tasks_def split: if_splits)

lemma relay_inv_same:
  "relay_inv py c s \<Longrightarrow> same_tasks (rs_relay s) r \<Longrightarrow> relay_inv py c (s\<lparr>rs_relay := r\<rparr>)"
  by (auto simp: relay_inv_def same_tasks_def tasks_bounded_def)

lemma relay_inv_threads [simp]:
  "relay_inv py c (s\<lparr>rs_callers := cs\<rparr>) = relay_inv py c s"
  "network_caused py (rs_history s) n \<Longrightarrow> relay_inv py c s \<Longrightarrow> relay_inv py c (s\<lparr>rs_network := n\<rparr>)"
  by (simp_all add: relay_inv_def)

text \<open>A step of a worker: its new phase, the Relay, and the events it adds.\<close>

lemma worker_set:
  assumes inv: "relay_inv py c s" and w: "w < length (rs_workers s)"
    and q: "rl_config r = c" "tasks_bounded r"
      "queued_of events = []" "removed_of events @ tasks r = tasks (rs_relay s)"
    and u: "unfinished r + length (tasks (rs_relay s)) + (if holding (rs_workers s ! w) then 1 else 0)
            = unfinished (rs_relay s) + length (tasks r) + (if holding ph then 1 else 0)"
    and j: "justified (cause py c) (rs_history s @ events)"
      "worker_caused c (rs_history s @ events) ph" "ph \<noteq> WorkerDied"
  shows "relay_inv py c (s\<lparr>rs_relay := r, rs_workers := (rs_workers s)[w := ph],
    rs_history := rs_history s @ events\<rparr>)"
proof -
  have "list_all (worker_caused c (rs_history s @ events)) (rs_workers s)"
    using inv worker_caused_append by (auto simp: relay_inv_def list_all_iff)
  then have l: "list_all (worker_caused c (rs_history s @ events)) ((rs_workers s)[w := ph])"
    using j(2) set_update_subset_insert [of "rs_workers s" w ph] by (auto simp: list_all_iff)
  have d: "WorkerDied \<notin> set ((rs_workers s)[w := ph])"
    using inv j(3) set_update_subset_insert [of "rs_workers s" w ph] by (auto simp: relay_inv_def)
  have n: "network_caused py (rs_history s @ events) (rs_network s)"
    using inv by (auto simp: relay_inv_def network_caused_def decoded_from_def split: network_phase.splits)
  have h: "queued_of (rs_history s @ events) = removed_of (rs_history s @ events) @ tasks r"
    using inv q(3,4) by (simp add: relay_inv_def)
  have "unfinished (rs_relay s) = length (tasks (rs_relay s)) + count_holding (rs_workers s)"
    using inv by (simp add: relay_inv_def)
  then have "unfinished r = length (tasks r) + count_holding ((rs_workers s)[w := ph])"
    using u count_holding_update [OF w, of ph] by linarith
  then show ?thesis unfolding relay_inv_def using q(1,2) l d n j(1) h by simp
qed

section \<open>Every action keeps the invariant\<close>

lemma forward_begin_cause:
  "forward_begin py client e r = ToPublish topic payload \<Longrightarrow>
    topic = msg_topic e \<and> delivery_payload_of py e payload \<and> destination_connected r"
  by (auto simp: forward_begin_def delivery_payload_of_def client_is_up_def split: if_splits sum.splits)

lemma forward_published_cause:
  "forward_published py answer client e r = ToPublish topic payload \<Longrightarrow>
    confirmed_publish answer \<and> topic = rc_delivery_ack_topic (rl_config r) \<and> ack_payload_of py e payload"
  by (auto simp: forward_published_def ack_payload_of_def split: if_splits sum.splits)

lemma finish_task_some: "unfinished r \<noteq> 0 \<Longrightarrow>
    finish_task events r = Some (LoopHead, r\<lparr>unfinished := unfinished r - 1\<rparr>, events)"
  by (simp add: finish_task_def task_done_def)

lemma holding_unfinished:
  assumes "relay_inv py c s" "w < length (rs_workers s)" "holding (rs_workers s ! w)"
  shows "unfinished (rs_relay s) \<noteq> 0"
proof -
  from assms(2,3) have "rs_workers s ! w \<in> set (filter holding (rs_workers s))" by simp
  then have "count_holding (rs_workers s) \<noteq> 0" by (auto simp: count_holding_def filter_empty_conv)
  with assms(1) show ?thesis by (simp add: relay_inv_def)
qed

text \<open>The end of an attempt, whatever it added to the history.\<close>

lemma finish_task_inv:
  assumes inv: "relay_inv py c s" and w: "w < length (rs_workers s)" and h: "holding (rs_workers s ! w)"
    and f: "finish_task events (rs_relay s) = Some (ph, r, events')"
    and e: "queued_of events = []" "removed_of events = []" "justified (cause py c) (rs_history s @ events)"
  shows "relay_inv py c (s\<lparr>rs_relay := r, rs_workers := (rs_workers s)[w := ph],
    rs_history := rs_history s @ events'\<rparr>)"
proof -
  note u = holding_unfinished [OF inv w h]
  with f have r: "ph = LoopHead" "events' = events"
    "r = (rs_relay s)\<lparr>unfinished := unfinished (rs_relay s) - 1\<rparr>"
    by (simp_all add: finish_task_some)
  moreover have "rl_config (rs_relay s) = c" "tasks_bounded (rs_relay s)" using inv by (simp_all add: relay_inv_def)
  ultimately show ?thesis unfolding r using u h e
    by (intro worker_set [OF inv w]) (simp_all add: tasks_bounded_def worker_caused_def)
qed

lemma worker_quiet:
  assumes inv: "relay_inv py c s" and w: "w < length (rs_workers s)"
    and q: "same_tasks (rs_relay s) r" and h: "holding ph = holding (rs_workers s ! w)"
    and c: "worker_caused c (rs_history s) ph" "ph \<noteq> WorkerDied"
  shows "relay_inv py c (s\<lparr>rs_relay := r, rs_workers := (rs_workers s)[w := ph],
    rs_history := rs_history s @ []\<rparr>)"
proof -
  have "rl_config (rs_relay s) = c" "tasks_bounded (rs_relay s)" "justified (cause py c) (rs_history s)"
    using inv by (simp_all add: relay_inv_def)
  with q h c show ?thesis
    by (intro worker_set [OF inv w]) (auto simp: same_tasks_def tasks_bounded_def)
qed

lemma worker_act_inv:
  assumes inv: "relay_inv py c s" and w: "w < length (rs_workers s)"
    and a: "worker_act py inp (rs_workers s ! w) (rs_relay s) = Some (ph, r, events)"
  shows "relay_inv py c (s\<lparr>rs_relay := r, rs_workers := (rs_workers s)[w := ph],
    rs_history := rs_history s @ events\<rparr>)"
proof -
  have cw: "worker_caused c (rs_history s) (rs_workers s ! w)"
    using inv w by (simp add: relay_inv_def list_all_iff)
  have cf: "rl_config (rs_relay s) = c" using inv by (simp add: relay_inv_def)
  have j: "justified (cause py c) (rs_history s)" using inv by (simp add: relay_inv_def)
  show ?thesis
  proof (cases "rs_workers s ! w")
    case LoopHead
    with a have e: "r = rs_relay s" "events = []" "ph \<in> {WorkerExited, Requesting, Polling}"
      by (auto simp: worker_act_def split: worker_input.splits if_splits)
    show ?thesis unfolding e(2)
      by (rule worker_quiet [OF inv w]) (use e LoopHead in \<open>auto simp: worker_caused_def\<close>)
  next
    case Requesting
    with a obtain t where "inp = AtTime t" by (cases inp) (auto simp: worker_act_def)
    with a Requesting have "r = snd (request_source_begin t (rs_relay s))"
      and e: "events = []" "ph \<in> {Subscribing, Polling}"
      by (auto simp: worker_act_def split: prod.splits if_splits)
    with same_tasks_methods have q: "same_tasks (rs_relay s) r" by simp
    show ?thesis unfolding e(1)
      by (rule worker_quiet [OF inv w q]) (use e Requesting in \<open>auto simp: worker_caused_def\<close>)
  next
    case Subscribing
    with a obtain x where "r = request_source_end x (rs_relay s)" and e: "events = []" "ph = Polling"
      by (auto simp: worker_act_def split: worker_input.splits)
    with same_tasks_methods have q: "same_tasks (rs_relay s) r" by simp
    show ?thesis unfolding e(1)
      by (rule worker_quiet [OF inv w q]) (use e Subscribing in \<open>auto simp: worker_caused_def\<close>)
  next
    case Polling
    show ?thesis
    proof (cases inp)
      case TaskReady
      with a Polling obtain m q where t: "tasks (rs_relay s) = m # q" and e: "events = [Removed m]"
        "ph = Holding m" "r = (rs_relay s)\<lparr>tasks := q\<rparr>"
        by (auto simp: worker_act_def get_task_def split: list.splits)
      have "m \<in> set (queued_of (rs_history s))" using inv t by (simp add: relay_inv_def)
      then have "justified (cause py c) (rs_history s @ events)"
        using j e by (simp add: cause_def queued_of_mem)
      with inv w e t Polling cf show ?thesis
        by (intro worker_set [OF inv w]) (auto simp: relay_inv_def tasks_bounded_def worker_caused_def)
    next
      case GetTimedOut
      with a Polling have e: "r = rs_relay s" "events = []" "ph = LoopHead"
        by (auto simp: worker_act_def split: if_splits)
      show ?thesis unfolding e(2)
        by (rule worker_quiet [OF inv w]) (use e Polling in \<open>auto simp: worker_caused_def\<close>)
    qed (use a Polling in \<open>auto simp: worker_act_def\<close>)
  next
    case (Holding m)
    show ?thesis
    proof (cases "rl_stop_event (rs_relay s)")
      case True
      with a Holding have "finish_task [] (rs_relay s) = Some (ph, r, events)"
        by (auto simp: worker_act_def split: worker_input.splits)
      from finish_task_inv [OF inv w _ this] Holding j show ?thesis by simp
    next
      case False
      with a Holding have e: "r = rs_relay s" "events = []" "ph = Forwarding m"
        by (auto simp: worker_act_def split: worker_input.splits)
      show ?thesis unfolding e(2)
        by (rule worker_quiet [OF inv w]) (use e Holding cw in \<open>auto simp: worker_caused_def\<close>)
    qed
  next
    case (Forwarding m)
    then obtain client where i: "inp = CheckDestination client"
      using a by (auto simp: worker_act_def split: worker_input.splits)
    show ?thesis
    proof (cases "forward_begin py client m (rs_relay s)")
      case NotForwarded
      with a Forwarding i have "finish_task [] (rs_relay s) = Some (ph, r, events)"
        by (simp add: worker_act_def)
      from finish_task_inv [OF inv w _ this] Forwarding j show ?thesis by simp
    next
      case (ToPublish topic payload)
      with a Forwarding i have e: "r = rs_relay s" "events = [DestinationPublish m topic payload]"
        "ph = AtDestination m" by (auto simp: worker_act_def)
      note b = forward_begin_cause [OF ToPublish]
      have "cause py c (rs_history s) (DestinationPublish m topic payload)"
        using b cw Forwarding by (simp add: cause_def worker_caused_def)
      with inv w e j b Forwarding show ?thesis
        by (intro worker_set [OF inv w]) (auto simp: relay_inv_def worker_caused_def)
    qed
  next
    case (AtDestination m)
    then obtain answer client where i: "inp = DestinationAnswer answer client"
      using a by (auto simp: worker_act_def split: worker_input.splits)
    let ?evs = "if confirmed_publish answer then [DestinationConfirmed m] else []"
    have j1: "justified (cause py c) (rs_history s @ ?evs)"
      using j cw AtDestination by (simp add: cause_def worker_caused_def)
    show ?thesis
    proof (cases "forward_published py answer client m (rs_relay s)")
      case NotForwarded
      with a AtDestination i have "finish_task ?evs (rs_relay s) = Some (ph, r, events)"
        by (simp add: worker_act_def)
      from finish_task_inv [OF inv w _ this _ _ j1] AtDestination show ?thesis by simp
    next
      case (ToPublish topic payload)
      note b = forward_published_cause [OF ToPublish]
      with ToPublish a AtDestination i have e: "r = rs_relay s" "ph = AtSource m"
        "events = [DestinationConfirmed m, AckPublish m topic payload]" by (auto simp: worker_act_def)
      have "justified (cause py c) ((rs_history s @ [DestinationConfirmed m]) @ [AckPublish m topic payload])"
        unfolding justified_snoc using j j1 b cf by (simp add: cause_def)
      with inv w e b cf AtDestination show ?thesis
        by (intro worker_set [OF inv w]) (auto simp: relay_inv_def worker_caused_def)
    qed
  next
    case (AtSource m)
    then obtain answer where i: "inp = AckAnswer answer"
      using a by (auto simp: worker_act_def split: worker_input.splits)
    let ?evs = "if confirmed_publish answer then [AckConfirmed m] else []"
    have j1: "justified (cause py c) (rs_history s @ ?evs)"
      using j cw AtSource by (simp add: cause_def worker_caused_def)
    from a AtSource i have "finish_task ?evs (rs_relay s) = Some (ph, r, events)"
      by (simp add: worker_act_def)
    from finish_task_inv [OF inv w _ this _ _ j1] AtSource show ?thesis by simp
  qed (use a in \<open>auto simp: worker_act_def\<close>)
qed

lemma caller_act_inv:
  assumes inv: "relay_inv py c s" and a: "caller_act inp ph s = Some (ph', s')"
  shows "relay_inv py c s'"
proof (cases inp)
  case CallStart
  let ?w = "length (rs_workers s)"
  obtain b r where b: "start_begin ?w (rs_relay s) = (b, r)" by (cases "start_begin ?w (rs_relay s)")
  have q: "same_tasks (rs_relay s) r" using same_tasks_methods(10) [of "rs_relay s" ?w] b by simp
  have "relay_inv py c (s\<lparr>rs_relay := r, rs_workers := rs_workers s @ [LoopHead]\<rparr>)"
    using relay_inv_same [OF inv q] by (simp add: relay_inv_def worker_caused_def)
  with a b inv CallStart show ?thesis by (auto simp: caller_act_def split: if_splits)
next
  case CallStop
  have "s' = s \<or> (\<exists>w r. stop_begin (rs_relay s) = Some (w, r) \<and> s' = s\<lparr>rs_relay := r\<rparr>)"
    using a CallStop by (auto simp: caller_act_def enter_stop_def split: if_splits option.splits)
  then show ?thesis using inv same_tasks_stop relay_inv_same by blast
next
  case (ConnectAnswers x y)
  with a inv show ?thesis by (auto simp: caller_act_def Let_def split: if_splits)
next
  case (Joined t)
  with a inv show ?thesis by (auto simp: caller_act_def split: if_splits option.splits caller_phase.splits)
next
  case ClientsDisconnected
  with a inv show ?thesis
    by (auto simp: caller_act_def split: if_splits intro: relay_inv_same same_tasks_methods)
next
  case AbandonNext
  show ?thesis
  proof (cases "tasks (rs_relay s)")
    case Nil
    with a inv AbandonNext show ?thesis
      by (auto simp: caller_act_def abandon_task_def get_task_def split: if_splits)
  next
    case (Cons e q)
    have u: "unfinished (rs_relay s) \<noteq> 0" using inv Cons by (simp add: relay_inv_def)
    with Cons a AbandonNext have s': "s' = s\<lparr>rs_relay := (rs_relay s)\<lparr>tasks := q, unfinished := unfinished (rs_relay s) - 1\<rparr>,
        rs_history := rs_history s @ [Removed e]\<rparr>"
      by (auto simp: caller_act_def abandon_task_def get_task_def task_done_def split: if_splits)
    have "e \<in> set (queued_of (rs_history s))" using inv Cons by (simp add: relay_inv_def)
    then have "justified (cause py c) (rs_history s @ [Removed e])"
      using inv by (simp add: cause_def queued_of_mem relay_inv_def)
    moreover have "list_all (worker_caused c (rs_history s @ [Removed e])) (rs_workers s)"
      using inv worker_caused_append by (auto simp: relay_inv_def list_all_iff)
    moreover have "network_caused py (rs_history s @ [Removed e]) (rs_network s)"
      using inv by (auto simp: relay_inv_def network_caused_def decoded_from_def split: network_phase.splits)
    ultimately show ?thesis using inv Cons unfolding s' by (auto simp: relay_inv_def tasks_bounded_def)
  qed
qed

lemma intake_decode_some:
  "intake_decode py topic payload r = Some e \<Longrightarrow>
    decode_message py (WBytes payload) = Inr e \<and> accepting r \<and> topic = rc_relay_topic (rl_config r)"
  by (auto simp: intake_decode_def split: if_splits sum.splits)

lemma relay_inv_event:
  assumes inv: "relay_inv py c s" and c: "cause py c (rs_history s) ev"
    and q: "queued_event ev = []" "removed_event ev = []"
  shows "relay_inv py c (s\<lparr>rs_history := rs_history s @ [ev]\<rparr>)"
proof -
  have "list_all (worker_caused c (rs_history s @ [ev])) (rs_workers s)"
    using inv worker_caused_append by (auto simp: relay_inv_def list_all_iff)
  moreover have "network_caused py (rs_history s @ [ev]) (rs_network s)"
    using inv by (auto simp: relay_inv_def network_caused_def decoded_from_def split: network_phase.splits)
  ultimately show ?thesis using inv c q by (auto simp: relay_inv_def)
qed

lemma put_task_inv:
  assumes inv: "relay_inv py c s" and n: "rs_network s = NetDecoded e"
    and a: "intake_accept e (rs_relay s) = (True, r)"
  shows "relay_inv py c (s\<lparr>rs_relay := r, rs_network := NetIdle, rs_history := rs_history s @ [Queued e]\<rparr>)"
proof -
  from a have r: "r = put_task e (rs_relay s)" and f: "\<not> queue_full (rs_relay s)"
    by (auto simp: intake_accept_def split: if_splits)
  have "cause py c (rs_history s) (Queued e)"
    using inv n by (simp add: relay_inv_def network_caused_def cause_def)
  moreover have "list_all (worker_caused c (rs_history s @ [Queued e])) (rs_workers s)"
    using inv worker_caused_append by (auto simp: relay_inv_def list_all_iff)
  moreover have "tasks_bounded (put_task e (rs_relay s))"
    using f by (auto simp: tasks_bounded_def put_task_def queue_full_def)
  ultimately show ?thesis using inv r
    by (simp add: relay_inv_def network_caused_def put_task_def)
qed

lemma relay_act_inv:
  assumes inv: "relay_inv py c s" and a: "relay_act py act s = Some s'"
  shows "relay_inv py c s'"
proof -
  have quiet: "relay_inv py c (s\<lparr>rs_relay := r, rs_network := n\<rparr>)"
    if "same_tasks (rs_relay s) r" "n \<in> {NetIdle, NetRequesting, NetSubscribing}" for r n
    using relay_inv_same [OF inv that(1)] that(2) by (auto simp: relay_inv_def network_caused_def)
  have on: "relay_inv py c (on_relay f s)" if "same_tasks (rs_relay s) (f (rs_relay s))" for f
    unfolding on_relay_def by (rule relay_inv_same [OF inv that])
  show ?thesis
  proof (cases act)
    case (SourceConnect rc)
    with a same_tasks_methods(1) [of "rs_relay s" rc] show ?thesis
      by (auto split: if_splits prod.splits intro!: quiet)
  next
    case (NetworkRequest t)
    with a same_tasks_methods(7) [of "rs_relay s" t] show ?thesis
      by (auto split: if_splits prod.splits intro!: quiet)
  next
    case (NetworkSubscribed x)
    with a same_tasks_methods(8) [of "rs_relay s" x] show ?thesis
      by (auto simp: on_relay_def split: if_splits intro!: quiet)
  next
    case (SourceMessage topic payload)
    have "relay_inv py c (s\<lparr>rs_history := rs_history s @ [Received payload]\<rparr>)" (is "relay_inv _ _ ?s")
      using relay_inv_event [OF inv, of "Received payload"] by (simp add: cause_def)
    moreover have "network_caused py (rs_history ?s)
        (case intake_decode py topic payload (rs_relay s) of None \<Rightarrow> NetIdle | Some e \<Rightarrow> NetDecoded e)"
      by (auto simp: network_caused_def decoded_from_def dest!: intake_decode_some split: option.splits)
    ultimately have "relay_inv py c (?s\<lparr>rs_network := (case intake_decode py topic payload (rs_relay s) of
        None \<Rightarrow> NetIdle | Some e \<Rightarrow> NetDecoded e)\<rparr>)" by (rule relay_inv_threads(2) [rotated])
    with a SourceMessage show ?thesis by (auto split: if_splits)
  next
    case AcceptDecoded
    with a obtain e where n: "rs_network s = NetDecoded e" by (auto split: network_phase.splits)
    obtain b r where b: "intake_accept e (rs_relay s) = (b, r)" by (cases "intake_accept e (rs_relay s)")
    show ?thesis
    proof (cases b)
      case True
      with put_task_inv [OF inv n] a AcceptDecoded n b show ?thesis by auto
    next
      case False
      with b have "r = rs_relay s" by (auto simp: intake_accept_def split: if_splits)
      with False a AcceptDecoded n b quiet [of r NetIdle] show ?thesis by auto
    qed
  next
    case (WorkerStep w inp)
    with a obtain ph r events where "w < length (rs_workers s)"
      "worker_act py inp (rs_workers s ! w) (rs_relay s) = Some (ph, r, events)"
      "s' = s\<lparr>rs_relay := r, rs_workers := (rs_workers s)[w := ph], rs_history := rs_history s @ events\<rparr>"
      by (auto split: if_splits option.splits)
    with worker_act_inv [OF inv] show ?thesis by blast
  next
    case (CallerStep k inp)
    with a obtain ph s1 where "caller_act inp (rs_callers s k) s = Some (ph, s1)"
      "s' = s1\<lparr>rs_callers := (rs_callers s1)(k := ph)\<rparr>" by (auto split: option.splits)
    with caller_act_inv [OF inv] show ?thesis by simp
  qed (use a on same_tasks_methods in \<open>auto split: if_splits\<close>)
qed

lemma relay_reach_inv:
  "relay_reach py allowed s0 s \<Longrightarrow> relay_inv py c s0 \<Longrightarrow> relay_inv py c s"
  by (induction rule: relay_reach.induct) (auto intro: relay_act_inv)

lemma new_relay_fields:
  "new_relay config u v same = Inr r \<Longrightarrow>
    rl_config r = config \<and> tasks r = [] \<and> unfinished r = 0 \<and> \<not> running r \<and> \<not> accepting r"
  by (auto simp: new_relay_def split: if_splits)

lemma initial_inv: "new_relay config u v same = Inr r \<Longrightarrow> relay_inv py config (initial_system r)"
  using new_relay_fields [of config u v same r]
  by (auto simp: relay_inv_def initial_system_def tasks_bounded_def network_caused_def)

lemma relay_reachable_inv:
  assumes "new_relay config u v same = Inr r" and "relay_reachable py r s"
  shows "relay_inv py config s"
  using relay_reach_inv [OF assms(2) [unfolded relay_reachable_def] initial_inv [OF assms(1)]] .

end
