(* ===== verification/RelayLifecycle.thy ===== *)
theory RelayLifecycle
  imports RelayFacts
begin

text \<open>
  Starting and stopping a Relay (\<^verbatim>\<open>src/reliomq/relay.py\<close>). When one thread makes the lifecycle
  calls and each join ends in time, there is at most one live worker, and a stopped Relay has none,
  holds no task and accepts none. When two threads make them, a \<^verbatim>\<open>stop\<close> that is still running
  while the other thread starts the Relay again undoes the start: \<open>restart_run\<close> is such a run.
\<close>

section \<open>One thread, joins in time\<close>

definition serial :: "relay_action \<Rightarrow> bool" where
  "serial act = (case act of CallerStep k inp \<Rightarrow> k = 0 \<and> inp \<noteq> Joined False | _ \<Rightarrow> True)"

definition ended_but :: "nat option \<Rightarrow> worker_phase list \<Rightarrow> bool" where
  "ended_but w ws \<longleftrightarrow> (\<forall>i < length ws. Some i \<noteq> w \<longrightarrow> worker_ended (ws ! i))"

definition idle :: "relay \<Rightarrow> bool" where
  "idle r \<longleftrightarrow> \<not> running r \<and> \<not> accepting r"

definition working :: "relay \<Rightarrow> worker_phase list \<Rightarrow> bool" where
  "working r ws \<longleftrightarrow>
     (case rl_worker r of
        None \<Rightarrow> False
      | Some w \<Rightarrow> w < length ws \<and> ended_but (Some w) ws \<and> \<not> rl_stop_event r)"

definition serial_inv :: "relay_system \<Rightarrow> bool" where
  "serial_inv s \<longleftrightarrow>
     (let r = rs_relay s; ws = rs_workers s in
      (case rs_callers s 0 of
         Outside \<Rightarrow>
           (if running r
            then working r ws
            else idle r \<and> ended_but None ws \<and> tasks r = [] \<and> rl_worker r = None)
       | Joining w \<Rightarrow> idle r \<and> rl_stop_event r \<and> w = rl_worker r \<and> ended_but w ws \<and> w \<noteq> None
       | Abandoning \<Rightarrow> idle r \<and> ended_but None ws
       | Disconnecting \<Rightarrow> idle r \<and> ended_but None ws \<and> tasks r = []
       | _ \<Rightarrow> running r \<and> working r ws))"

text \<open>Everything but the lifecycle calls leaves the lifecycle's fields alone.\<close>

definition same_life :: "relay \<Rightarrow> relay \<Rightarrow> bool" where
  "same_life r r' \<longleftrightarrow> running r' = running r \<and> accepting r' = accepting r \<and> rl_worker r' = rl_worker r
     \<and> rl_stop_event r' = rl_stop_event r \<and> (\<not> accepting r \<longrightarrow> length (tasks r') \<le> length (tasks r))"

lemma same_life_refl [simp]: "same_life r r"
  by (simp add: same_life_def)

lemma same_life_methods:
  "same_life r (snd (on_source_connect rc r))" "same_life r (on_source_connect_fail r)"
  "same_life r (on_source_disconnect r)" "same_life r (on_destination_connect rc r)"
  "same_life r (on_destination_connect_fail r)" "same_life r (on_destination_disconnect r)"
  "same_life r (snd (request_source_begin t r))" "same_life r (request_source_end answer r)"
  "same_life r (on_source_subscribe mid codes t r)" "same_life r (snd (intake_accept e r))"
  by (auto simp: same_life_def on_source_connect_def on_source_connect_fail_def reset_subscription_def
      on_source_disconnect_def on_destination_connect_def on_destination_connect_fail_def Let_def
      on_destination_disconnect_def request_source_begin_def request_source_end_def intake_accept_def
      put_task_def on_source_subscribe_def split: subscribe_answer.splits)

lemma same_life_finish: "finish_task evs r = Some (ph, r', evs') \<Longrightarrow> same_life r r'"
  by (auto simp: finish_task_def task_done_def same_life_def split: sum.splits if_splits)

lemma same_life_worker:
  assumes "worker_act py inp ph r = Some (ph', r', evs)"
  shows "same_life r r'" and "\<not> worker_ended ph"
    and "worker_ended ph' \<Longrightarrow> rl_stop_event r \<or> ph' = WorkerDied"
proof -
  show "same_life r r'"
  proof (cases ph)
    case Requesting
    then obtain t where "inp = AtTime t" using assms by (cases inp) (auto simp: worker_act_def)
    with assms Requesting same_life_methods(7) [of r t] show ?thesis
      by (auto simp: worker_act_def split: prod.splits)
  qed (use assms in \<open>auto simp: worker_act_def Let_def get_task_def same_life_methods
        split: worker_input.splits option.splits if_splits forward_move.splits list.splits
        dest!: same_life_finish, auto simp: same_life_def\<close>)
  show "\<not> worker_ended ph" using assms by (auto simp: worker_ended_def worker_act_def)
  show "worker_ended ph' \<Longrightarrow> rl_stop_event r \<or> ph' = WorkerDied"
    using assms by (cases ph) (auto simp: worker_act_def worker_ended_def finish_task_def Let_def
        split: worker_input.splits option.splits if_splits forward_move.splits sum.splits prod.splits)
qed

lemma serial_inv_same:
  assumes "serial_inv s" "same_life (rs_relay s) (rs_relay s')" "rs_callers s' = rs_callers s"
    "rs_workers s' = rs_workers s"
  shows "serial_inv s'"
  using assms by (cases "rs_callers s 0")
    (auto simp: serial_inv_def same_life_def idle_def working_def Let_def split: if_splits option.splits)

lemma ended_but_update:
  "ended_but w ws \<Longrightarrow> i < length ws \<Longrightarrow> \<not> worker_ended (ws ! i) \<Longrightarrow> ended_but w (ws[i := ph])"
  by (auto simp: ended_but_def nth_list_update)

lemma working_update:
  "working r ws \<Longrightarrow> same_life r r' \<Longrightarrow> i < length ws \<Longrightarrow> \<not> worker_ended (ws ! i) \<Longrightarrow> working r' (ws[i := ph])"
  by (auto simp: working_def same_life_def ended_but_update split: option.splits)

lemma serial_inv_worker:
  assumes inv: "serial_inv s" and i: "i < length (rs_workers s)"
    and a: "worker_act py inp (rs_workers s ! i) (rs_relay s) = Some (ph, r, events)"
  shows "serial_inv (s\<lparr>rs_relay := r, rs_workers := (rs_workers s)[i := ph], rs_history := h\<rparr>)"
proof -
  note l = same_life_worker(1,2) [OF a]
  have n: "\<not> ended_but None (rs_workers s)" using i l(2) by (auto simp: ended_but_def)
  note u = working_update [OF _ l(1) i l(2), of ph] ended_but_update [OF _ i l(2), of _ ph]
  show ?thesis
  proof (cases "rs_callers s 0")
    case (Joining w)
    with inv u l(1) show ?thesis by (auto simp: serial_inv_def idle_def Let_def same_life_def)
  qed (use inv n u l(1) in \<open>simp_all add: serial_inv_def Let_def same_life_def split: if_splits\<close>)
qed

lemma ended_but_start: "ended_but None ws \<Longrightarrow> ended_but (Some (length ws)) (ws @ [ph])"
  by (auto simp: ended_but_def nth_append)

lemma ended_but_joined: "ended_but (Some w) ws \<Longrightarrow> worker_ended (ws ! w) \<Longrightarrow> ended_but None ws"
  by (auto simp: ended_but_def)

text \<open>The steps of the one calling thread. The queue's count is exact, so abandoning never raises.\<close>

lemma serial_inv_caller:
  assumes rinv: "relay_inv py c s" and inv: "serial_inv s" and ser: "inp \<noteq> Joined False"
    and a: "caller_act inp (rs_callers s 0) s = Some (ph, s1)"
  shows "serial_inv (s1\<lparr>rs_callers := (rs_callers s1)(0 := ph)\<rparr>)"
proof (cases inp)
  case CallStart
  with a have o: "rs_callers s 0 = Outside" by (auto simp: caller_act_def split: if_splits)
  show ?thesis
  proof (cases "running (rs_relay s)")
    case True
    with o CallStart a have "s1 = s" "ph = Outside" by (auto simp: caller_act_def start_begin_def)
    with inv o show ?thesis by (simp add: serial_inv_def Let_def)
  next
    case False
    with o CallStart a have "ph = ConnectingDestination" "s1 = s\<lparr>rs_relay := (rs_relay s)\<lparr>running := True,
        rl_stop_event := False, accepting := True, rl_worker := Some (length (rs_workers s))\<rparr>,
        rs_workers := rs_workers s @ [LoopHead]\<rparr>" by (auto simp: caller_act_def start_begin_def)
    with False inv o ended_but_start [of "rs_workers s" LoopHead] show ?thesis
      by (simp add: serial_inv_def working_def Let_def)
  qed
next
  case CallStop
  with a have o: "rs_callers s 0 = Outside \<or> rs_callers s 0 = StopEntered" and e: "enter_stop s = (ph, s1)"
    by (auto simp: caller_act_def split: if_splits)
  show ?thesis
  proof (cases "running (rs_relay s)")
    case True
    with e have "ph = Joining (rl_worker (rs_relay s))" "s1 = s\<lparr>rs_relay := (rs_relay s)\<lparr>running := False,
        accepting := False, source_subscription_ready := False, rl_stop_event := True\<rparr>\<rparr>"
      by (auto simp: enter_stop_def stop_begin_def)
    moreover have "working (rs_relay s) (rs_workers s)" using o True inv by (auto simp: serial_inv_def Let_def)
    ultimately show ?thesis by (auto simp: serial_inv_def working_def idle_def Let_def split: option.splits)
  next
    case False
    with e have "ph = Outside" "s1 = s" by (auto simp: enter_stop_def stop_begin_def)
    with False o inv show ?thesis by (auto simp: serial_inv_def Let_def)
  qed
next
  case (ConnectAnswers x y)
  with a have "s1 = s" "rs_callers s 0 \<in> {ConnectingDestination, ConnectingSource}"
    "ph \<in> {ConnectingSource, StopEntered, Outside}"
    by (auto simp: caller_act_def Let_def split: if_splits)
  with inv show ?thesis by (auto simp: serial_inv_def Let_def)
next
  case (Joined t)
  with ser have t by simp
  with a Joined obtain w where w: "rs_callers s 0 = Joining w" and "s1 = s" "ph = Abandoning"
    "\<And>i. w = Some i \<Longrightarrow> worker_ended (rs_workers s ! i)"
    by (auto simp: caller_act_def split: caller_phase.splits option.splits if_splits)
  with inv ended_but_joined show ?thesis by (auto simp: serial_inv_def Let_def)
next
  case ClientsDisconnected
  with a have "rs_callers s 0 = Disconnecting" "ph = Outside" "s1 = s\<lparr>rs_relay := stop_end (rs_relay s)\<rparr>"
    by (auto simp: caller_act_def split: if_splits)
  with inv show ?thesis
    by (simp add: serial_inv_def idle_def stop_end_def reset_subscription_def Let_def)
next
  case AbandonNext
  with a have o: "rs_callers s 0 = Abandoning" by (auto simp: caller_act_def split: if_splits)
  show ?thesis
  proof (cases "tasks (rs_relay s)")
    case Nil
    with AbandonNext o a have "ph = Disconnecting" "s1 = s"
      by (auto simp: caller_act_def abandon_task_def get_task_def)
    with inv o Nil show ?thesis by (simp add: serial_inv_def Let_def)
  next
    case (Cons e q)
    have "unfinished (rs_relay s) \<noteq> 0" using rinv Cons by (simp add: relay_inv_def)
    with Cons a o AbandonNext have "ph = Abandoning" "s1 = s\<lparr>rs_relay := (rs_relay s)\<lparr>tasks := q,
        unfinished := unfinished (rs_relay s) - 1\<rparr>, rs_history := rs_history s @ [Removed e]\<rparr>"
      by (auto simp: caller_act_def abandon_task_def get_task_def task_done_def)
    with inv o show ?thesis by (simp add: serial_inv_def idle_def Let_def)
  qed
qed

lemma serial_inv_act:
  assumes rinv: "relay_inv py c s" and inv: "serial_inv s" and ser: "serial act"
    and a: "relay_act py act s = Some s'"
  shows "serial_inv s'"
proof (cases act)
  case (WorkerStep w inp)
  with a obtain ph r events where "w < length (rs_workers s)"
    "worker_act py inp (rs_workers s ! w) (rs_relay s) = Some (ph, r, events)"
    "s' = s\<lparr>rs_relay := r, rs_workers := (rs_workers s)[w := ph], rs_history := rs_history s @ events\<rparr>"
    by (auto split: if_splits option.splits)
  with serial_inv_worker [OF inv] show ?thesis by blast
next
  case (CallerStep k inp)
  with ser have k: "k = 0" "inp \<noteq> Joined False" by (simp_all add: serial_def)
  with a CallerStep obtain ph s1 where "caller_act inp (rs_callers s 0) s = Some (ph, s1)"
    "s' = s1\<lparr>rs_callers := (rs_callers s1)(0 := ph)\<rparr>" by (auto split: option.splits)
  with serial_inv_caller [OF rinv inv k(2)] show ?thesis by blast
next
  case (SourceConnect rc)
  with a same_life_methods(1) [of "rs_relay s" rc] show ?thesis
    by (auto split: if_splits prod.splits intro!: serial_inv_same [OF inv])
next
  case (NetworkRequest t)
  with a same_life_methods(7) [of "rs_relay s" t] show ?thesis
    by (auto split: if_splits prod.splits intro!: serial_inv_same [OF inv])
next
  case AcceptDecoded
  with a obtain e where n: "rs_network s = NetDecoded e" by (auto split: network_phase.splits)
  with a AcceptDecoded same_life_methods(10) [of "rs_relay s" e] show ?thesis
    by (auto split: prod.splits intro!: serial_inv_same [OF inv])
qed (use a same_life_methods in \<open>auto simp: on_relay_def same_life_methods split: if_splits
      intro!: serial_inv_same [OF inv]\<close>)

lemma serial_reach:
  "relay_reach py serial s0 s \<Longrightarrow> relay_inv py c s0 \<and> serial_inv s0 \<Longrightarrow> relay_inv py c s \<and> serial_inv s"
  by (induction rule: relay_reach.induct) (auto intro: relay_act_inv serial_inv_act)

lemma initial_serial: "new_relay config u v same = Inr r \<Longrightarrow> serial_inv (initial_system r)"
  by (auto simp: serial_inv_def initial_system_def idle_def ended_but_def new_relay_def Let_def split: if_splits)

definition live_workers :: "relay_system \<Rightarrow> nat" where
  "live_workers s = length (filter (\<lambda>ph. \<not> worker_ended ph) (rs_workers s))"

lemma ended_but_appendD: "ended_but w (ws @ [ph]) \<Longrightarrow> ended_but w ws"
  unfolding ended_but_def
proof (intro allI impI)
  fix i assume e: "\<forall>i<length (ws @ [ph]). Some i \<noteq> w \<longrightarrow> worker_ended ((ws @ [ph]) ! i)"
    and i: "i < length ws" "Some i \<noteq> w"
  from e [rule_format, of i] i show "worker_ended (ws ! i)" by (simp add: nth_append)
qed

lemma ended_but_live:
  "ended_but w ws \<Longrightarrow> length (filter (\<lambda>ph. \<not> worker_ended ph) ws) \<le> (if w = None then 0 else 1)"
proof (induction ws arbitrary: w rule: rev_induct)
  case (snoc ph ws)
  show ?case
  proof (cases "worker_ended ph")
    case True
    have "ended_but w ws" by (rule ended_but_appendD [OF snoc.prems])
    with snoc.IH True show ?thesis by simp
  next
    case False
    with snoc.prems have w: "w = Some (length ws)" by (auto simp: ended_but_def nth_append)
    have "ended_but None ws"
      using ended_but_appendD [OF snoc.prems] w by (auto simp: ended_but_def)
    with snoc.IH [of None] w show ?thesis by simp
  qed
qed simp

section \<open>Two threads\<close>

text \<open>
  Thread 0 starts the Relay and stops it again. Its \<^verbatim>\<open>stop\<close> has left the locked section, and the
  worker has not looked at the stop event yet, when thread 1 starts the Relay: the stop event is
  cleared, the first worker goes on beside the second one, and the rest of the first \<^verbatim>\<open>stop\<close>
  disconnects the clients of the running Relay and forgets its worker.
\<close>

definition connects :: caller_input where
  "connects = ConnectAnswers (Inr None) (Inr None)"

definition restart_run :: "relay_action list" where
  "restart_run =
     [CallerStep 0 CallStart, CallerStep 0 connects, CallerStep 0 connects, CallerStep 0 CallStop,
      CallerStep 1 CallStart, CallerStep 1 connects, CallerStep 1 connects,
      WorkerStep 0 (AtTime 0), WorkerStep 1 (AtTime 0),
      CallerStep 0 (Joined False), CallerStep 0 AbandonNext, CallerStep 0 ClientsDisconnected]"

end
