(* ===== verification/RelayProperties.thy ===== *)
theory RelayProperties
  imports RelayLifecycle Samples
begin

text \<open>The properties of the Relay (\<^verbatim>\<open>src/reliomq/relay.py\<close>), with their witnesses.\<close>

section \<open>A run that forwards one message\<close>

definition sample_relay_config :: relay_config where
  "sample_relay_config = \<lparr>rc_source_host = ustr ''a'', rc_destination_host = ustr ''b'',
     rc_source_port = 1883, rc_destination_port = 1883, rc_source_client_id = None,
     rc_destination_client_id = None, rc_relay_topic = ustr ''r'', rc_delivery_ack_topic = ustr ''k'',
     rc_qos = 1, rc_keepalive = 60, rc_destination_publish_timeout = 0x4024000000000000,
     rc_source_ack_publish_timeout = 0x4024000000000000, rc_retry_interval = 0x4014000000000000,
     rc_reconnect_min_delay = 0x3FF0000000000000, rc_reconnect_max_delay = 0x403E000000000000,
     rc_max_queue_size = 1, rc_log_level = None, rc_debug = False\<rparr>"

definition sample_relay :: relay where
  "sample_relay = (case new_relay sample_relay_config 0 1 False of Inr r \<Rightarrow> r)"

lemma sample_relay_new: "new_relay sample_relay_config 0 1 False = Inr sample_relay"
  by (simp add: sample_relay_def new_relay_def)

definition confirmed :: publish_answer where
  "confirmed = PublishInfo MQTT_ERR_SUCCESS (Some True)"

definition forwarding_run :: "relay_action list" where
  "forwarding_run =
     [CallerStep 0 CallStart, CallerStep 0 connects, CallerStep 0 connects,
      DestinationConnect (Number 0), SourceConnect (Number 0), NetworkRequest 7,
      NetworkSubscribed (SubscribeResult MQTT_ERR_SUCCESS 5), SourceSubscribe 5 (Codes [Number 1]) 8,
      SourceMessage (ustr ''r'') sample_bytes, AcceptDecoded,
      WorkerStep 0 (AtTime 9), WorkerStep 0 TaskReady, WorkerStep 0 CheckStop,
      WorkerStep 0 (CheckDestination (Some True)),
      WorkerStep 0 (DestinationAnswer confirmed (Some True)), WorkerStep 0 (AckAnswer confirmed)]"

definition sample_received :: message_envelope where
  "sample_received = canon_message sample_message"

lemma sample_received_decode: "decode_message sample_python (WBytes sample_bytes) = Inr sample_received"
  unfolding sample_received_def by (rule decode_encode_message [OF sample_python_ok sample_valid sample_encode])

definition forwarded_ack :: bytes where
  "forwarded_ack = map of_char ''{\"event_id\":\"m-1\",\"version\":1}''"

definition forwarded_delivery :: bytes where
  "forwarded_delivery =
     map of_char ''{\"event_id\":\"m-1\",\"payload\":{\"x\":[null,true,\"'' @ [0xC3, 0xA9]
     @ map of_char ''\"],\"y\":12},\"version\":1}''"

lemma forwarded_payloads:
  "bindE (DeliveryEnvelope sample_python (PStr (msg_id sample_received)) (msg_payload sample_received)
     (PInt PROTOCOL_VERSION)) (encode_delivery sample_python) = Inr forwarded_delivery"
  "bindE (DeliveryAck (PStr (msg_id sample_received)) (PInt PROTOCOL_VERSION)) (encode_ack sample_python)
     = Inr forwarded_ack"
  by code_simp+

lemma sample_received_topic: "msg_topic sample_received = ustr ''a/b''"
  by (simp add: sample_received_def sample_message_def)

lemmas relay_run_simps = on_relay_def worker_act_def caller_act_def enter_stop_def start_begin_def
  connects_def connect_and_start_loop_def accepted_result_def bindE_def Let_def
  on_destination_connect_def on_source_connect_def reset_subscription_def reason_code_is_success_def
  request_source_begin_def request_source_end_def on_source_subscribe_def suback_is_success_def
  granted_def source_retry_due_def stop_begin_def worker_ended_def abandon_task_def get_task_def
  stop_end_def

lemma forwarding_runs:
  "\<exists>s. relay_acts sample_python forwarding_run (initial_system sample_relay) = Some s
     \<and> rs_history s = [Received sample_bytes, Queued sample_received, Removed sample_received,
          DestinationPublish sample_received (ustr ''a/b'') forwarded_delivery,
          DestinationConfirmed sample_received, AckPublish sample_received (ustr ''k'') forwarded_ack,
          AckConfirmed sample_received]"
  using forwarded_payloads sample_received_topic
  by (simp add: forwarding_run_def initial_system_def sample_relay_def new_relay_def relay_run_simps
      intake_decode_def sample_relay_config_def sample_received_decode intake_accept_def queue_full_def
      put_task_def finish_task_def task_done_def forward_begin_def forward_published_def client_is_up_def
      confirmed_def confirmed_publish_iff)

lemma forwarded_reachable:
  obtains s where "relay_reach sample_python serial (initial_system sample_relay) s"
    and "relay_reachable sample_python sample_relay s"
    and "rs_history s = [Received sample_bytes, Queued sample_received, Removed sample_received,
          DestinationPublish sample_received (ustr ''a/b'') forwarded_delivery,
          DestinationConfirmed sample_received] @ AckPublish sample_received (ustr ''k'') forwarded_ack
          # [AckConfirmed sample_received]"
proof -
  have "list_all serial forwarding_run" by (simp add: forwarding_run_def serial_def connects_def)
  moreover have "list_all (\<lambda>_. True) forwarding_run" by (simp add: list_all_iff)
  ultimately show thesis
    using that forwarding_runs reach_acts [OF reach_start] by (force simp: relay_reachable_def)
qed

section \<open>No DeliveryAck without a confirmed delivery\<close>





text \<open>
  C13. In every interleaving, the queue is first in first out and loses nothing silently: the messages
  queued are those taken or abandoned, in the same order, followed by those still there. It holds at
  most \<^verbatim>\<open>max_queue_size\<close> messages. The count of unfinished tasks is the number of queued and held
  messages, so \<^verbatim>\<open>task_done\<close> never raises and no worker dies of it.
\<close>

theorem relay_queue_exact:
  assumes "new_relay config u v same = Inr r" and "0 < rc_max_queue_size config"
    and "relay_reachable py r s"
  shows "queued_of (rs_history s) = removed_of (rs_history s) @ tasks (rs_relay s)
    \<and> int (length (tasks (rs_relay s))) \<le> rc_max_queue_size config
    \<and> unfinished (rs_relay s) = length (tasks (rs_relay s)) + count_holding (rs_workers s)
    \<and> WorkerDied \<notin> set (rs_workers s)"
  using relay_reachable_inv [OF assms(1,3)] assms(2) by (auto simp: relay_inv_def tasks_bounded_def)

theorem relay_queue_exact_witness:
  "\<exists>s. relay_reachable sample_python sample_relay s
     \<and> removed_of (rs_history s) @ tasks (rs_relay s) = [sample_received]"
proof -
  obtain s where s: "relay_reachable sample_python sample_relay s"
    "rs_history s = [Received sample_bytes, Queued sample_received, Removed sample_received,
          DestinationPublish sample_received (ustr ''a/b'') forwarded_delivery,
          DestinationConfirmed sample_received] @ AckPublish sample_received (ustr ''k'') forwarded_ack
          # [AckConfirmed sample_received]"
    by (rule forwarded_reachable)
  have "0 < rc_max_queue_size sample_relay_config" by (simp add: sample_relay_config_def)
  from relay_queue_exact [OF sample_relay_new this s(1)] s show ?thesis by (intro exI [of _ s]) simp
qed

section \<open>One attempt\<close>


section \<open>Lifecycle\<close>

text \<open>
  C27. When one thread makes the lifecycle calls and joins end in time, a running Relay has exactly
  one worker that has not ended, the one it remembers; and a Relay that is not running, outside
  its lifecycle calls, has none, accepts no message and holds no task.
\<close>

theorem one_worker:
  assumes "new_relay config u v same = Inr r" and "relay_reach py serial (initial_system r) s"
  shows "live_workers s \<le> 1
    \<and> (running (rs_relay s) \<longrightarrow> rl_worker (rs_relay s) \<noteq> None \<and> \<not> rl_stop_event (rs_relay s))
    \<and> (\<not> running (rs_relay s) \<and> rs_callers s 0 = Outside \<longrightarrow>
         live_workers s = 0 \<and> tasks (rs_relay s) = [] \<and> \<not> accepting (rs_relay s))"
proof -
  have "serial_inv s"
    using serial_reach [OF assms(2)] initial_inv [OF assms(1)] initial_serial [OF assms(1)] by blast
  then show ?thesis
    using ended_but_live [of None "rs_workers s"] ended_but_live [of "rl_worker (rs_relay s)" "rs_workers s"]
    by (cases "rs_callers s 0")
       (auto simp: serial_inv_def working_def idle_def live_workers_def Let_def split: if_splits option.splits)
qed

theorem one_worker_witness:
  "\<exists>s. relay_reach sample_python serial (initial_system sample_relay) s \<and> live_workers s \<le> 1
     \<and> AckConfirmed sample_received \<in> set (rs_history s)"
proof -
  obtain s where s: "relay_reach sample_python serial (initial_system sample_relay) s"
    "rs_history s = [Received sample_bytes, Queued sample_received, Removed sample_received,
          DestinationPublish sample_received (ustr ''a/b'') forwarded_delivery,
          DestinationConfirmed sample_received] @ AckPublish sample_received (ustr ''k'') forwarded_ack
          # [AckConfirmed sample_received]"
    by (rule forwarded_reachable)
  with one_worker [OF sample_relay_new s(1)] show ?thesis by (intro exI [of _ s]) simp
qed


end
