(* ===== verification/Spec2Isabelle.thy ===== *)
theory Spec2Isabelle
  imports Ack WireProperties OutboxProperties PersistenceProperties ConfigProperties SenderProperties
    Construction RelayProperties
begin

text \<open>
  A verification development for reliomq, RAM-first / disk-backed, end-to-end confirmed MQTT
  delivery (\<^verbatim>\<open>src/reliomq\<close>).

  \<^bold>\<open>The program.\<close> A Sender (\<^verbatim>\<open>sender.py\<close>) accepts messages, keeps them in a queue that is partly in
  RAM and partly in an Outbox on disk (\<^verbatim>\<open>outbox.py\<close>), and publishes the oldest one to a source
  broker. A Relay (\<^verbatim>\<open>relay.py\<close>) takes it from there, publishes it on its own topic of a destination
  broker, and after that broker's confirmation sends a DeliveryAck back. Only when the Sender's
  AckTracker (\<^verbatim>\<open>ack.py\<close>) matches that ACK does the message leave the queue. The delivery mode
  (\<^verbatim>\<open>durability.py\<close>) and the PersistencePolicy (\<^verbatim>\<open>persistence.py\<close>) decide when appends and ACK
  progress are synced. The envelopes on the wire and in the Outbox are canonical JSON
  (\<^verbatim>\<open>protocol.py\<close>); \<^verbatim>\<open>config.py\<close> validates the settings and \<^verbatim>\<open>_compat.py\<close> the renamed arguments.

  \<^bold>\<open>How the code is modelled.\<close> A method that may raise is a \<open>proc\<close>: a function from the state to an
  error or a result, and the new state, which is kept when it raises. Every exception class is a
  constructor of \<open>py_error\<close>. Objects compared by identity are addresses in a store. Calls of the
  operating system take their outcome from a script in the disk state, and the clock from a list of
  steps, so a theorem about all states is a theorem about every pattern of failures and timings.
  The third-party client and the other threads are parameters: \<open>surroundings\<close> for the Sender, the
  actions of an event system for the Relay.

  \<^bold>\<open>Theories.\<close>
  \<^item> Prelude, PyText, Json: exceptions and combinators, bytes, UTF-8, Python values, \<^verbatim>\<open>json.dumps\<close>
    and \<^verbatim>\<open>json.loads\<close>. JsonRoundTrip: what is printed is read back.
  \<^item> Compat: \<^verbatim>\<open>_compat.py\<close>. Protocol: \<^verbatim>\<open>protocol.py\<close>; ProtocolFacts: the codecs are inverse to each
    other and what they accept is valid. WireProperties: the properties of these.
  \<^item> Framing, Disk, Outbox, OutboxOpen, Storage: \<^verbatim>\<open>outbox.py\<close>, that is the frames with their CRC, the
    directory and the system calls, the operations, opening with recovery, and creation with the
    migration of the legacy journal.
  \<^item> OutboxInv and OutboxOps to OutboxQueue: the representation invariant (a layout of segments, of
    which files, index and cursors are views) and that every operation keeps it. OutboxRecovery to
    OutboxCrash: scanning, reopening, and the crash model. OutboxLedger: what operations leave for
    later. StorageFacts: migration. Fifo is the contract of a store of messages (a locale) and
    OutboxFifo its interpretation on the Outbox; OutboxClient is the Outbox as its clients see it.
    OutboxProperties: the properties.
  \<^item> Ack: \<^verbatim>\<open>ack.py\<close>, every interleaving of one worker with the callbacks. Mqtt: \<^verbatim>\<open>mqtt.py\<close>.
  \<^item> Durability, Persistence: \<^verbatim>\<open>durability.py\<close> and \<^verbatim>\<open>persistence.py\<close>; PersistenceFacts: the counters
    and timers, and the second interpretation of the contract. PersistenceProperties.
  \<^item> Config: \<^verbatim>\<open>config.py\<close> and the log levels of \<^verbatim>\<open>observability.py\<close>; ConfigProperties.
  \<^item> Sender, SenderDelivery: \<^verbatim>\<open>sender.py\<close>. SenderInv: the invariant and the queue \<open>messages\<close> it
    abstracts to. SenderSpill, SenderQueue: moving messages to disk never changes \<open>messages\<close>, and the
    loops end. SenderPublish, SenderComplete: accepting adds at the end, completing takes the head.
    SenderFrame: what publishing leaves alone. SenderAttempt: a whole attempt among other threads.
    SenderRuns: any order of steps. SenderProperties. Construction: the constructors of Outbox and
    Sender, and what a new Sender owes.
  \<^item> Relay, RelaySystem: \<^verbatim>\<open>relay.py\<close> and the event system of its threads. RelayFacts: causality and the
    task queue. RelayLifecycle: starting and stopping. RelayProperties.
  \<^item> Samples, OutboxSamples, SenderSamples: concrete values for the witnesses. This theory: the properties that
    span components.

  \<^bold>\<open>Bounds and fuel.\<close> The spill loops of the Sender have the length of the RAM queue as fuel: every
  batch takes at least one message, so \<^verbatim>\<open>RuntimeError\<close> is never raised (\<open>spilling_terminates\<close>). The
  loop of \<open>append_many\<close> has twice the number of records plus one: each turn takes a record or rotates
  (\<open>append_loop_effect\<close>). The depth of JSON values is the interpreter's recursion limit, a parameter
  in \<open>python\<close>; \<open>python_ok\<close> states that \<^verbatim>\<open>repr\<close> of a finite float is a JSON number that reads back as
  the same float. Doubles are bit patterns, and durations are whole units of 2 to the power -1074.

  \<^bold>\<open>Limits of the model.\<close> Threads interleave at the locks: what a method does under a lock is one step.
  A crash keeps a prefix of what was written to a segment and not yet synced; it does not reorder
  writes inside a file. \<open>secure\<close>, the premise of recovery, is kept by the operations that return; after
  an operation that raised only \<open>healthy\<close> (memory and directory agree) is proved. Differences of
  clock readings are exact, while the code rounds them to doubles. Paths are POSIX paths, and a path
  and its sidecar are a place of their own, which no other path reaches.

  \<^bold>\<open>Not modelled.\<close> Log records and deprecation warnings other than those of the resolvers; properties
  that only read a flag or forward a renamed attribute; \<^verbatim>\<open>enable_logging\<close>, which configures the
  logging module; \<^verbatim>\<open>create_client\<close>, which only calls Paho; Outbox doubles injected by tests; the
  re-exporting modules \<^verbatim>\<open>bridge.py\<close>, \<^verbatim>\<open>publisher.py\<close>, \<^verbatim>\<open>store.py\<close> and \<^verbatim>\<open>__init__.py\<close>; the examples.
\<close>

section \<open>A stopped Sender and its Outbox after a crash\<close>





section \<open>The Sender and the Relay on the wire\<close>




end
